(* ===== verification/Go_Prelude.thy ===== *)
theory Go_Prelude
  imports Main "HOL-Library.Sublist"
begin

text \<open>
  What every component shares: Go strings as byte lists with the operations of the
  packages \<open>strings\<close>, \<open>bytes\<close> and \<open>strconv\<close> that the program uses, Go errors as values
  (their text and the sentinels \<open>errors.Is\<close> finds in them), and the development's fact
  collections.

  A Go string is a sequence of bytes, and so is the type \<open>string\<close> here. White space is
  Unicode's, recognised in its UTF-8 encoding. \<open>ToLower\<close> folds the ASCII letters only;
  every use in the program compares its result with ASCII text. \<open>quote\<close> is the verb
  \<open>%q\<close>; bytes above 127 are taken to belong to printable characters and are kept.
\<close>

named_theorems go_strings \<open>facts on Go's string operations\<close>
named_theorems go_errors \<open>unfolding of error values\<close>

section \<open>Strings\<close>

definition HasPrefix :: "string \<Rightarrow> string \<Rightarrow> bool" where
  "HasPrefix s p \<longleftrightarrow> prefix p s"

definition HasSuffix :: "string \<Rightarrow> string \<Rightarrow> bool" where
  "HasSuffix s p \<longleftrightarrow> suffix p s"

definition Contains :: "string \<Rightarrow> string \<Rightarrow> bool" where
  "Contains s t \<longleftrightarrow> sublist t s"

definition TrimPrefix :: "string \<Rightarrow> string \<Rightarrow> string" where
  "TrimPrefix s p = (if HasPrefix s p then drop (length p) s else s)"

definition TrimSuffix :: "string \<Rightarrow> string \<Rightarrow> string" where
  "TrimSuffix s p = (if HasSuffix s p then take (length s - length p) s else s)"

text \<open>\<open>strings.Split\<close> with a one-byte separator: never the empty list.\<close>

fun split_on :: "char \<Rightarrow> string \<Rightarrow> string list" where
  "split_on c [] = [[]]"
| "split_on c (x # xs) =
     (if x = c then [] # split_on c xs
      else (case split_on c xs of [] \<Rightarrow> [[x]] | y # ys \<Rightarrow> (x # y) # ys))"

text \<open>\<open>strings.Join\<close>.\<close>

fun join_with :: "string \<Rightarrow> string list \<Rightarrow> string" where
  "join_with sep [] = []"
| "join_with sep [x] = x"
| "join_with sep (x # y # ys) = x @ sep @ join_with sep (y # ys)"

text \<open>\<open>strings.Cut\<close> at a one-byte separator: before, after, found.\<close>

fun Cut :: "string \<Rightarrow> char \<Rightarrow> string \<times> string \<times> bool" where
  "Cut [] c = ([], [], False)"
| "Cut (x # xs) c =
     (if x = c then ([], xs, True)
      else (case Cut xs c of (b, a, f) \<Rightarrow> (x # b, a, f)))"

text \<open>The UTF-8 encodings of the characters \<open>unicode.IsSpace\<close> accepts.\<close>

definition space_runes :: "string list" where
  "space_runes =
    [[CHR 0x09], [CHR 0x0A], [CHR 0x0B], [CHR 0x0C], [CHR 0x0D], [CHR 0x20],
     [CHR 0xC2, CHR 0x85], [CHR 0xC2, CHR 0xA0], [CHR 0xE1, CHR 0x9A, CHR 0x80],
     [CHR 0xE2, CHR 0x80, CHR 0x80], [CHR 0xE2, CHR 0x80, CHR 0x81],
     [CHR 0xE2, CHR 0x80, CHR 0x82], [CHR 0xE2, CHR 0x80, CHR 0x83],
     [CHR 0xE2, CHR 0x80, CHR 0x84], [CHR 0xE2, CHR 0x80, CHR 0x85],
     [CHR 0xE2, CHR 0x80, CHR 0x86], [CHR 0xE2, CHR 0x80, CHR 0x87],
     [CHR 0xE2, CHR 0x80, CHR 0x88], [CHR 0xE2, CHR 0x80, CHR 0x89],
     [CHR 0xE2, CHR 0x80, CHR 0x8A], [CHR 0xE2, CHR 0x80, CHR 0xA8],
     [CHR 0xE2, CHR 0x80, CHR 0xA9], [CHR 0xE2, CHR 0x80, CHR 0xAF],
     [CHR 0xE2, CHR 0x81, CHR 0x9F], [CHR 0xE3, CHR 0x80, CHR 0x80]]"

text \<open>How many bytes of white space a string starts with: 0 when its first character is not a space.\<close>

fun rune_len :: "string list \<Rightarrow> string \<Rightarrow> nat" where
  "rune_len [] s = 0"
| "rune_len (r # rs) s = (if prefix r s then length r else rune_len rs s)"

definition space_len :: "string \<Rightarrow> nat" where
  "space_len s = rune_len space_runes s"

definition space_len_end :: "string \<Rightarrow> nat" where
  "space_len_end s = rune_len (map rev space_runes) (rev s)"

function TrimLeftSpace :: "string \<Rightarrow> string" where
  "TrimLeftSpace s =
     (if s \<noteq> [] \<and> space_len s \<noteq> 0 then TrimLeftSpace (drop (space_len s) s) else s)"
  by pat_completeness auto
termination
  by (relation "measure length") auto

function TrimRightSpace :: "string \<Rightarrow> string" where
  "TrimRightSpace s =
     (if s \<noteq> [] \<and> space_len_end s \<noteq> 0
      then TrimRightSpace (take (length s - space_len_end s) s) else s)"
  by pat_completeness auto
termination
  by (relation "measure length") auto

declare TrimLeftSpace.simps [simp del] TrimRightSpace.simps [simp del]

definition TrimSpace :: "string \<Rightarrow> string" where
  "TrimSpace s = TrimRightSpace (TrimLeftSpace s)"

text \<open>\<open>strings.Fields\<close>: the maximal runs of bytes between white space.\<close>

function fields_from :: "string \<Rightarrow> string \<Rightarrow> string list" where
  "fields_from cur s =
     (if s = [] then (if cur = [] then [] else [rev cur])
      else if space_len s \<noteq> 0
      then (if cur = [] then [] else [rev cur]) @ fields_from [] (drop (space_len s) s)
      else fields_from (hd s # cur) (tl s))"
  by pat_completeness auto
termination
  by (relation "measure (\<lambda>(cur, s). length s)") auto

declare fields_from.simps [simp del]

definition Fields :: "string \<Rightarrow> string list" where
  "Fields s = fields_from [] s"

definition ascii_lower :: "char \<Rightarrow> char" where
  "ascii_lower c =
     (let n = of_char c :: nat in if 65 \<le> n \<and> n \<le> 90 then char_of (n + 32) else c)"

definition ToLower :: "string \<Rightarrow> string" where
  "ToLower s = map ascii_lower s"

text \<open>\<open>bytes.Count\<close> and \<open>bytes.Replace\<close> (the first \<open>n\<close>) of a non-empty pattern: occurrences do not overlap.\<close>

function Count :: "string \<Rightarrow> string \<Rightarrow> nat" where
  "Count s p =
     (if s = [] \<or> p = [] then 0
      else if prefix p s then Suc (Count (drop (length p) s) p)
      else Count (tl s) p)"
  by pat_completeness auto
termination
  by (relation "measure (\<lambda>(s, p). length s)") auto

declare Count.simps [simp del]

fun ReplaceFirst :: "string \<Rightarrow> string \<Rightarrow> string \<Rightarrow> string" where
  "ReplaceFirst [] p q = []"
| "ReplaceFirst (x # s) p q =
     (if prefix p (x # s) then q @ drop (length p) (x # s) else x # ReplaceFirst s p q)"

section \<open>Numbers and quoted text\<close>

function digits_of :: "int \<Rightarrow> string" where
  "digits_of n =
     (if n < 10 then [char_of (48 + n)] else digits_of (n div 10) @ [char_of (48 + n mod 10)])"
  by pat_completeness auto
termination
  by (relation "measure nat") auto

declare digits_of.simps [simp del]

text \<open>\<open>strconv.Itoa\<close> and the verb \<open>%d\<close>.\<close>

definition Itoa :: "int \<Rightarrow> string" where
  "Itoa i = (if i < 0 then CHR ''-'' # digits_of (- i) else digits_of i)"

definition hex_digit :: "nat \<Rightarrow> char" where
  "hex_digit n = (if n < 10 then char_of (48 + n) else char_of (87 + n))"

definition quote_char :: "char \<Rightarrow> string" where
  "quote_char c =
     (let n = of_char c :: nat in
      if n = 34 then [CHR 0x5C, CHR 0x22]
      else if n = 92 then [CHR 0x5C, CHR 0x5C]
      else if n = 7 then [CHR 0x5C, CHR ''a'']
      else if n = 8 then [CHR 0x5C, CHR ''b'']
      else if n = 12 then [CHR 0x5C, CHR ''f'']
      else if n = 10 then [CHR 0x5C, CHR ''n'']
      else if n = 13 then [CHR 0x5C, CHR ''r'']
      else if n = 9 then [CHR 0x5C, CHR ''t'']
      else if n = 11 then [CHR 0x5C, CHR ''v'']
      else if n < 32 \<or> n = 127
      then [CHR 0x5C, CHR ''x'', hex_digit (n div 16), hex_digit (n mod 16)]
      else [c])"

text \<open>The verb \<open>%q\<close>.\<close>

definition quote :: "string \<Rightarrow> string" where
  "quote s = [CHR 0x22] @ concat (map quote_char s) @ [CHR 0x22]"

text \<open>The verb \<open>%v\<close> on a slice of strings.\<close>

definition show_strings :: "string list \<Rightarrow> string" where
  "show_strings xs = ''['' @ join_with '' '' xs @ '']''"

text \<open>
  \<open>time.Duration.String\<close>, durations being nanoseconds. \<open>frac_text p v\<close> is the fraction of the
  last \<open>p\<close> digits of \<open>v\<close> without trailing zeros, and nothing when it is zero.
\<close>

definition frac_text :: "nat \<Rightarrow> int \<Rightarrow> string" where
  "frac_text p v =
     (let f = v mod 10 ^ p; ds = digits_of f;
          padded = replicate (p - length ds) (CHR ''0'') @ ds
      in if f = 0 then [] else CHR ''.'' # rev (dropWhile (\<lambda>c. c = CHR ''0'') (rev padded)))"

definition Duration_String :: "int \<Rightarrow> string" where
  "Duration_String d =
     (let u = \<bar>d\<bar>; secs = u div 10 ^ 9; mins = secs div 60; hours = mins div 60 in
      if d = 0 then ''0s''
      else (if d < 0 then ''-'' else []) @
        (if u < 1000 then digits_of u @ ''ns''
         else if u < 10 ^ 6
         then digits_of (u div 1000) @ frac_text 3 u @ [CHR 0xC2, CHR 0xB5] @ ''s''
         else if u < 10 ^ 9 then digits_of (u div 10 ^ 6) @ frac_text 6 u @ ''ms''
         else (if hours > 0 then digits_of hours @ ''h'' else []) @
              (if mins > 0 then digits_of (mins mod 60) @ ''m'' else []) @
              digits_of (secs mod 60) @ frac_text 9 u @ ''s''))"

section \<open>Errors\<close>

text \<open>The sentinels the program tests with \<open>errors.Is\<close>.\<close>

datatype sentinel =
    ErrAlreadyAtDigest
  | ErrNoHealthyDeploy
  | ErrAlreadyFinished
  | ErrNotFound
  | ErrCredentialUnavailable
  | ErrCredentialUnreadable
  | ErrRemoteUnreachable
  | ErrNeverSynced
  | ContextCanceled
  | ContextDeadlineExceeded
  | NoErrAlreadyUpToDate
  | ErrRepositoryNotExists

record go_error =
  err_text :: string
  err_chain :: "sentinel list"

type_synonym 'a result = "go_error + 'a"

text \<open>\<open>errors.New\<close> and \<open>fmt.Errorf\<close> without \<open>%w\<close>; \<open>fmt.Errorf\<close> with \<open>%w\<close> keeps the chain.\<close>

definition errorf :: "string \<Rightarrow> go_error" where
  "errorf t = \<lparr>err_text = t, err_chain = []\<rparr>"

definition wrap :: "string \<Rightarrow> go_error \<Rightarrow> go_error" where
  "wrap pre e = \<lparr>err_text = pre @ err_text e, err_chain = err_chain e\<rparr>"

definition wrap_in :: "string \<Rightarrow> go_error \<Rightarrow> string \<Rightarrow> go_error" where
  "wrap_in pre e post = \<lparr>err_text = pre @ err_text e @ post, err_chain = err_chain e\<rparr>"

definition errors_is :: "go_error \<Rightarrow> sentinel \<Rightarrow> bool" where
  "errors_is e s \<longleftrightarrow> s \<in> set (err_chain e)"

text \<open>\<open>errors.Join\<close>: nil of no errors, else the texts one per line.\<close>

definition errors_join :: "go_error list \<Rightarrow> go_error option" where
  "errors_join es =
     (if es = [] then None
      else Some \<lparr>err_text = join_with [CHR 0x0A] (map err_text es),
                 err_chain = concat (map err_chain es)\<rparr>)"

lemmas error_defs [go_errors] = errorf_def wrap_def wrap_in_def errors_is_def

lemma errors_join_None [simp]: "errors_join es = None \<longleftrightarrow> es = []"
  by (simp add: errors_join_def)

lemma errors_join_Nil [simp]: "errors_join [] = None"
  by (simp add: errors_join_def)

lemma err_wrap [simp]:
  "err_chain (wrap p e) = err_chain e" "err_text (wrap p e) = p @ err_text e"
  by (simp_all add: wrap_def)

lemma errors_is_wrap [simp]: "errors_is (wrap p e) s = errors_is e s"
  by (simp add: go_errors)

lemma errors_is_errorf [simp]: "\<not> errors_is (errorf t) s"
  by (simp add: go_errors)

section \<open>Facts on strings\<close>

lemma if_singleton_Nil [simp]: "(if P then [x] else []) = [] \<longleftrightarrow> \<not> P"
  by simp

lemma if_Some_None [simp]: "(if P then Some x else None) = None \<longleftrightarrow> \<not> P"
  by simp

lemma split_on_neq_Nil [simp]: "split_on c s \<noteq> []"
  by (induction s) (auto split: list.splits)

lemma split_on_no_sep: "x \<in> set (split_on c s) \<Longrightarrow> c \<notin> set x"
  by (induction s arbitrary: x) (auto split: list.splits if_splits)

lemma join_split_on [go_strings]: "join_with [c] (split_on c s) = s"
proof (induction s)
  case Nil
  then show ?case by simp
next
  case (Cons x s)
  then show ?case by (cases "split_on c s"; cases "tl (split_on c s)") auto
qed

lemma split_on_single: "c \<notin> set s \<Longrightarrow> split_on c s = [s]"
  by (induction s) auto

lemma split_on_append: "c \<notin> set s \<Longrightarrow> split_on c (s @ c # t) = s # split_on c t"
  by (induction s) auto

lemma split_on_join [go_strings]:
  "xs \<noteq> [] \<Longrightarrow> \<forall>x \<in> set xs. c \<notin> set x \<Longrightarrow> split_on c (join_with [c] xs) = xs"
  by (induction xs rule: induct_list012) (auto simp: split_on_single split_on_append)

lemma Cut_parts: "Cut s c = (b, a, True) \<Longrightarrow> s = b @ c # a \<and> c \<notin> set b"
  by (induction s arbitrary: b) (auto split: if_splits prod.splits)

lemma Cut_none: "Cut s c = (b, a, False) \<Longrightarrow> b = s \<and> a = [] \<and> c \<notin> set s"
  by (induction s arbitrary: b) (auto split: if_splits prod.splits)

lemma prefix_rune_len: "rune_len rs s \<noteq> 0 \<Longrightarrow> rune_len rs s \<le> length s"
  by (induction rs) (auto simp: prefix_length_le)

lemma ascii_lower_lower: "ascii_lower (ascii_lower c) = ascii_lower c"
  by (auto simp: ascii_lower_def Let_def)

lemma length_ToLower [simp]: "length (ToLower s) = length s"
  by (simp add: ToLower_def)

lemma Count_none: "\<not> Contains s p \<Longrightarrow> p \<noteq> [] \<Longrightarrow> Count s p = 0"
proof (induction s p rule: Count.induct)
  case (1 s p)
  have tl: "\<not> Contains (tl s) p"
    using "1.prems" by (cases s) (auto simp: Contains_def sublist_Cons_right)
  have pre: "\<not> prefix p s"
    using "1.prems" by (auto simp: Contains_def)
  show ?case
    using "1.IH"(2) "1.prems" tl pre by (subst Count.simps) auto
qed

text \<open>Replacing the first occurrence keeps the text on both sides of it.\<close>

lemma ReplaceFirst_split:
  "Contains s p \<Longrightarrow> p \<noteq> [] \<Longrightarrow> \<exists>a b. s = a @ p @ b \<and> ReplaceFirst s p q = a @ q @ b"
proof (induction s)
  case Nil
  then show ?case by (simp add: Contains_def)
next
  case (Cons x s)
  show ?case
  proof (cases "prefix p (x # s)")
    case True
    then obtain b where b: "x # s = p @ b" by (auto simp: prefix_def)
    have "ReplaceFirst (x # s) p q = q @ drop (length p) (x # s)" using True by simp
    then have "ReplaceFirst (x # s) p q = q @ b" by (simp add: b)
    with b show ?thesis
      by (metis append_Nil)
  next
    case False
    with Cons.prems have "Contains s p" by (auto simp: Contains_def sublist_Cons_right)
    with Cons.IH Cons.prems(2) obtain a b where "s = a @ p @ b" "ReplaceFirst s p q = a @ q @ b"
      by blast
    with False show ?thesis
      by (intro exI [of _ "x # a"] exI [of _ b]) simp
  qed
qed

end
