(* ===== verification/Go_Path.thy ===== *)
theory Go_Path
  imports Go_Prelude
begin

text \<open>
  The lexical path operations of the package \<open>path\<close> (and of \<open>path/filepath\<close> on Unix):
  \<open>Clean\<close> and \<open>Join\<close>. \<open>path_elems\<close> is the list of elements a cleaned path is made of, and
  the lemmas say that a textual prefix test on cleaned paths is a prefix test on elements.
\<close>

abbreviation slash :: char where "slash \<equiv> CHR ''/''"

text \<open>
  The loop of \<open>Clean\<close> over the elements between slashes, with the kept elements on a stack:
  empty elements and \<open>.\<close> are dropped, \<open>..\<close> takes back the element before it, stays when it
  leads a relative path, and is dropped at the root.
\<close>

fun clean_stack :: "bool \<Rightarrow> string list \<Rightarrow> string list \<Rightarrow> string list" where
  "clean_stack rooted st [] = st"
| "clean_stack rooted st (c # cs) =
     (if c = [] \<or> c = ''.'' then clean_stack rooted st cs
      else if c = ''..'' then
        (case st of
           [] \<Rightarrow> clean_stack rooted (if rooted then [] else [''..'']) cs
         | t # ts \<Rightarrow>
             if t = ''..'' then clean_stack rooted (''..'' # st) cs
             else clean_stack rooted ts cs)
      else clean_stack rooted (c # st) cs)"

definition is_rooted :: "string \<Rightarrow> bool" where
  "is_rooted p \<longleftrightarrow> HasPrefix p [slash]"

definition path_elems :: "string \<Rightarrow> string list" where
  "path_elems p = rev (clean_stack (is_rooted p) [] (split_on slash p))"

text \<open>\<open>path.Clean\<close>.\<close>

definition Clean :: "string \<Rightarrow> string" where
  "Clean p =
     (let out = (if is_rooted p then [slash] else []) @ join_with [slash] (path_elems p)
      in if out = [] then ''.'' else out)"

text \<open>\<open>path.Join\<close>: empty leading elements are skipped, the rest is joined and cleaned.\<close>

definition PathJoin :: "string list \<Rightarrow> string" where
  "PathJoin es =
     (let rest = dropWhile (\<lambda>e. e = []) es
      in if rest = [] then [] else Clean (join_with [slash] rest))"

section \<open>Elements of a cleaned path\<close>

text \<open>A plain element names a directory entry: it is not empty, not a dot element, and has no slash.\<close>

definition plain_elem :: "string \<Rightarrow> bool" where
  "plain_elem e \<longleftrightarrow> e \<noteq> [] \<and> e \<noteq> ''.'' \<and> e \<noteq> ''..'' \<and> slash \<notin> set e"

lemma clean_stack_rooted_plain:
  "\<forall>e \<in> set st. plain_elem e \<Longrightarrow> \<forall>c \<in> set cs. slash \<notin> set c \<Longrightarrow>
   e \<in> set (clean_stack True st cs) \<Longrightarrow> plain_elem e"
  by (induction "True" st cs rule: clean_stack.induct)
     (auto simp: plain_elem_def split: if_splits list.splits)

lemma path_elems_plain:
  assumes "is_rooted p" and "e \<in> set (path_elems p)"
  shows "plain_elem e"
  using assms clean_stack_rooted_plain [of "[]" "split_on slash p" e]
  by (auto simp: path_elems_def dest: split_on_no_sep)

lemma clean_stack_plain:
  "\<forall>c \<in> set cs. plain_elem c \<Longrightarrow> clean_stack r st cs = rev cs @ st"
  by (induction cs arbitrary: st) (auto simp: plain_elem_def)

lemma clean_stack_append:
  "clean_stack r st (xs @ ys) = clean_stack r (clean_stack r st xs) ys"
  by (induction r st xs rule: clean_stack.induct) (auto split: list.splits)

lemma split_on_join_append:
  "fs \<noteq> [] \<Longrightarrow> \<forall>x \<in> set fs. c \<notin> set x \<Longrightarrow>
   split_on c (join_with [c] fs @ c # t) = fs @ split_on c t"
  by (induction fs rule: induct_list012) (auto simp: split_on_append)

lemma join_with_append:
  "fs \<noteq> [] \<Longrightarrow> gs \<noteq> [] \<Longrightarrow> join_with s (fs @ gs) = join_with s fs @ s @ join_with s gs"
  by (induction fs rule: induct_list012) (auto simp: neq_Nil_conv)

lemma Clean_rooted:
  "is_rooted p \<Longrightarrow> Clean p = slash # join_with [slash] (path_elems p)"
  by (simp add: Clean_def)

lemma is_rooted_Clean: "is_rooted p \<Longrightarrow> is_rooted (Clean p)"
  by (simp add: Clean_rooted is_rooted_def HasPrefix_def)

text \<open>The elements of a cleaned rooted path are the elements themselves, so \<open>Clean\<close> is idempotent on it.\<close>

lemma path_elems_Clean:
  assumes "is_rooted p"
  shows "path_elems (Clean p) = path_elems p"
proof (cases "path_elems p = []")
  case True
  with assms show ?thesis
    by (simp add: Clean_rooted path_elems_def [of "[slash]"] is_rooted_def HasPrefix_def)
next
  case False
  have plain: "\<forall>e \<in> set (path_elems p). plain_elem e"
    using assms by (simp add: path_elems_plain)
  then have "split_on slash (join_with [slash] (path_elems p)) = path_elems p"
    using False by (intro split_on_join) (auto simp: plain_elem_def)
  then have "split_on slash (Clean p) = [] # path_elems p"
    using assms by (simp add: Clean_rooted)
  then show ?thesis
    using assms plain by (simp add: path_elems_def [of "Clean p"] is_rooted_Clean clean_stack_plain)
qed

lemma Clean_idem:
  assumes "is_rooted p"
  shows "Clean (Clean p) = Clean p"
proof -
  have "Clean (Clean p) = slash # join_with [slash] (path_elems (Clean p))"
    using assms by (intro Clean_rooted is_rooted_Clean)
  also have "\<dots> = slash # join_with [slash] (path_elems p)"
    using assms by (simp only: path_elems_Clean)
  also have "\<dots> = Clean p" using assms by (simp only: Clean_rooted)
  finally show ?thesis .
qed

text \<open>
  The prefix test the program makes: \<open>strings.HasPrefix(clean, path.Clean(prefix)+"/")\<close>. It
  holds exactly when the elements of the allowed prefix start those of the path and the path
  goes on below them; the root as an allowed prefix admits nothing.
\<close>

lemma prefix_join_iff:
  assumes fs: "fs \<noteq> []" "\<forall>x \<in> set fs. c \<notin> set x" and es: "\<forall>x \<in> set es. c \<notin> set x"
  shows "prefix (join_with [c] fs @ [c]) (join_with [c] es) \<longleftrightarrow> (\<exists>gs. gs \<noteq> [] \<and> es = fs @ gs)"
proof
  assume "prefix (join_with [c] fs @ [c]) (join_with [c] es)"
  then obtain t where t: "join_with [c] es = join_with [c] fs @ c # t"
    by (auto simp: prefix_def)
  then have ne: "es \<noteq> []" by auto
  have "es = split_on c (join_with [c] es)"
    using ne es by (simp add: split_on_join)
  also have "\<dots> = fs @ split_on c t"
    unfolding t using fs by (rule split_on_join_append)
  finally show "\<exists>gs. gs \<noteq> [] \<and> es = fs @ gs" by (intro exI [of _ "split_on c t"]) simp
next
  assume "\<exists>gs. gs \<noteq> [] \<and> es = fs @ gs"
  with fs show "prefix (join_with [c] fs @ [c]) (join_with [c] es)"
    by (auto simp: join_with_append)
qed

lemma under_prefix_iff:
  assumes "is_rooted p" and "is_rooted q"
  shows "HasPrefix (Clean p) (Clean q @ [slash]) \<longleftrightarrow>
    path_elems q \<noteq> [] \<and> (\<exists>gs. gs \<noteq> [] \<and> path_elems p = path_elems q @ gs)"
proof -
  have P: "\<forall>x \<in> set (path_elems p). slash \<notin> set x \<and> x \<noteq> []"
    and Q: "\<forall>x \<in> set (path_elems q). slash \<notin> set x \<and> x \<noteq> []"
    using assms path_elems_plain by (auto simp: plain_elem_def)
  show ?thesis
  proof (cases "path_elems q = []")
    case True
    have "\<not> prefix [slash] (join_with [slash] (path_elems p))"
      using P by (cases "path_elems p" rule: remdups_adj.cases) (auto simp: prefix_def append_eq_Cons_conv)
    with True assms show ?thesis by (simp add: HasPrefix_def Clean_rooted)
  next
    case False
    with P Q assms prefix_join_iff [of "path_elems q" slash "path_elems p"] show ?thesis
      by (simp add: HasPrefix_def Clean_rooted)
  qed
qed

text \<open>Joining a plain name to a rooted directory adds one element and nothing else.\<close>

lemma path_elems_Join_plain:
  assumes dir: "is_rooted d" and rel: "\<forall>x \<in> set (split_on slash r). plain_elem x" and n: "plain_elem n"
  shows "path_elems (PathJoin [d, r, n]) = path_elems d @ split_on slash r @ [n]"
proof -
  from dir have d: "d \<noteq> []" by (auto simp: is_rooted_def HasPrefix_def)
  have "split_on slash (d @ slash # r @ slash # n) = split_on slash d @ split_on slash r @ split_on slash n"
  proof -
    have one: "split_on slash (x @ slash # y) = split_on slash x @ split_on slash y" for x y :: string
      by (induction x) (auto split: list.splits)
    show ?thesis by (simp add: one)
  qed
  moreover have "split_on slash n = [n]" using n by (simp add: plain_elem_def split_on_single)
  moreover have root: "is_rooted (d @ slash # r @ slash # n)"
    using dir by (simp add: is_rooted_def HasPrefix_def)
  ultimately have "path_elems (d @ slash # r @ slash # n) = path_elems d @ split_on slash r @ [n]"
    using dir rel n by (simp add: path_elems_def clean_stack_append clean_stack_plain plain_elem_def)
  moreover have "PathJoin [d, r, n] = Clean (d @ slash # r @ slash # n)"
    using d by (simp add: PathJoin_def)
  ultimately show ?thesis using root by (simp add: path_elems_Clean)
qed

end
