(* ===== verification/Manifest.thy ===== *)
theory Manifest
  imports Go_Path
begin

text \<open>
  The package \<open>internal/manifest\<close>: the service description, its checks
  (\<open>Manifest.Validate\<close>), and the gate between rendering a unit and writing it
  (\<open>ValidateRendered\<close>). The YAML decoder and \<open>url.Parse\<close> are arguments of the definitions
  that call them. Durations are nanoseconds.
\<close>

named_theorems manifest_defs \<open>the definitions of the manifest checks\<close>

section \<open>The schema\<close>

record image =
  img_Repository :: string
  img_Digest :: string

record health =
  h_URL :: string
  h_Timeout :: int

record manifest =
  m_Name :: string
  m_Description :: string
  m_Image :: image
  m_Template :: string
  m_Port :: int
  m_Network :: string
  m_Env :: "string \<rightharpoonup> string"
  m_EnvFiles :: "string list"
  m_Volumes :: "string list"
  m_Health :: health

record limits =
  lim_VolumePrefixes :: "string list"
  lim_EnvFilePrefixes :: "string list"

text \<open>The parts of a parsed URL the program looks at.\<close>

record go_url =
  url_Scheme :: string
  url_Host :: string
  url_Path :: string

abbreviation digest_of :: "manifest \<Rightarrow> string" where
  "digest_of m \<equiv> img_Digest (m_Image m)"

definition UnitDescription :: "manifest \<Rightarrow> string" where
  "UnitDescription m = (if TrimSpace (m_Description m) \<noteq> [] then m_Description m else m_Name m)"

definition Ref :: "image \<Rightarrow> string" where
  "Ref i = img_Repository i @ ''@'' @ img_Digest i"

text \<open>\<open>DefaultHealthTimeout\<close>: 30 seconds.\<close>

definition DefaultHealthTimeout :: int where
  "DefaultHealthTimeout = 30 * 10 ^ 9"

definition applyDefaults :: "manifest \<Rightarrow> manifest" where
  "applyDefaults m =
     (if h_Timeout (m_Health m) = 0
      then m\<lparr>m_Health := (m_Health m)\<lparr>h_Timeout := DefaultHealthTimeout\<rparr>\<rparr> else m)"

text \<open>\<open>Parse\<close>, over the strict YAML decoder.\<close>

definition Parse :: "(string \<Rightarrow> manifest result) \<Rightarrow> string \<Rightarrow> manifest result" where
  "Parse decode data =
     (case decode data of
        Inl e \<Rightarrow> Inl (wrap ''parse manifest: '' e)
      | Inr m \<Rightarrow> Inr (applyDefaults m))"

section \<open>Patterns\<close>

definition lower_hex :: "char \<Rightarrow> bool" where
  "lower_hex c \<longleftrightarrow> c \<in> set ''0123456789abcdef''"

text \<open>\<open>digestPattern\<close>: \<open>^sha256:[0-9a-f]{64}$\<close>.\<close>

definition digest_pattern :: "string \<Rightarrow> bool" where
  "digest_pattern s \<longleftrightarrow>
     HasPrefix s ''sha256:'' \<and> length s = 71 \<and> list_all lower_hex (drop 7 s)"

definition alnum :: "char \<Rightarrow> bool" where
  "alnum c \<longleftrightarrow>
     (let n = of_char c :: nat in 48 \<le> n \<and> n \<le> 57 \<or> 65 \<le> n \<and> n \<le> 90 \<or> 97 \<le> n \<and> n \<le> 122)"

text \<open>\<open>namedVolume\<close>: \<open>^[A-Za-z0-9][A-Za-z0-9._-]*\.volume$\<close>.\<close>

definition named_volume :: "string \<Rightarrow> bool" where
  "named_volume s \<longleftrightarrow>
     HasSuffix s ''.volume'' \<and>
     (case TrimSuffix s ''.volume'' of
        [] \<Rightarrow> False
      | c # cs \<Rightarrow> alnum c \<and> list_all (\<lambda>x. alnum x \<or> x \<in> set ''._-'') cs)"

section \<open>The manifest checks\<close>

definition after_last_slash :: "string \<Rightarrow> string" where
  "after_last_slash s = last (split_on slash s)"

definition validateRepository :: "string \<Rightarrow> go_error option" where
  "validateRepository repo =
     (if TrimSpace repo = [] then Some (errorf ''is required'')
      else if Contains repo ''@''
      then Some (errorf ''must not embed a digest; use image.digest'')
      else if Contains (after_last_slash repo) '':''
      then Some (errorf ''must not carry a tag; digest pins only'')
      else None)"

definition validateHealthURL :: "(string \<Rightarrow> go_url result) \<Rightarrow> string \<Rightarrow> go_error option" where
  "validateHealthURL parse_url raw =
     (if TrimSpace raw = [] then Some (errorf ''is required'')
      else case parse_url raw of
        Inl e \<Rightarrow> Some (wrap ''is not a URL: '' e)
      | Inr u \<Rightarrow>
          if url_Scheme u \<noteq> ''http'' \<and> url_Scheme u \<noteq> ''https''
          then Some (errorf (''scheme '' @ quote (url_Scheme u) @ '' is not http or https''))
          else if url_Host u = [] then Some (errorf ''has no host'')
          else None)"

definition validateHostPath :: "string \<Rightarrow> string list \<Rightarrow> go_error option" where
  "validateHostPath p pfxs =
     (if pfxs = [] then None
      else if \<not> HasPrefix p [slash] then Some (errorf ''is not an absolute host path'')
      else if \<exists>q \<in> set pfxs. HasPrefix (Clean p) (Clean q @ [slash]) then None
      else Some (errorf (''resolves to '' @ Clean p @ '', outside the allowed prefixes ''
                         @ show_strings pfxs)))"

definition volume_source :: "string \<Rightarrow> string" where
  "volume_source v = fst (Cut v (CHR '':''))"

definition check :: "string \<Rightarrow> go_error option \<Rightarrow> go_error list" where
  "check pre r = (case r of None \<Rightarrow> [] | Some e \<Rightarrow> [wrap pre e])"

definition volume_errs :: "string list \<Rightarrow> string \<Rightarrow> go_error list" where
  "volume_errs pfxs v =
     (if named_volume (volume_source v) then []
      else check (''volume '' @ quote v @ '': '') (validateHostPath (volume_source v) pfxs))"

definition env_file_errs :: "string list \<Rightarrow> string \<Rightarrow> go_error list" where
  "env_file_errs pfxs f =
     check (''env_file '' @ quote f @ '': '') (validateHostPath f pfxs)"

definition validate_errs :: "(string \<Rightarrow> go_url result) \<Rightarrow> limits \<Rightarrow> manifest \<Rightarrow> go_error list" where
  "validate_errs parse_url lim m =
     (if TrimSpace (m_Name m) = [] then [errorf ''name is required''] else []) @
     (if TrimSpace (m_Template m) = [] then [errorf ''template is required''] else []) @
     check ''image.repository: '' (validateRepository (img_Repository (m_Image m))) @
     (if \<not> digest_pattern (digest_of m)
      then [errorf (''image.digest '' @ quote (digest_of m)
                    @ '' is not a sha256 digest pin (tags are rejected)'')] else []) @
     (if m_Port m < 1 \<or> m_Port m > 65535
      then [errorf (''port '' @ Itoa (m_Port m) @ '' is outside 1-65535'')] else []) @
     check ''health.url: '' (validateHealthURL parse_url (h_URL (m_Health m))) @
     (if h_Timeout (m_Health m) < 0
      then [errorf (''health.timeout '' @ Duration_String (h_Timeout (m_Health m))
                    @ '' is negative'')] else []) @
     concat (map (volume_errs (lim_VolumePrefixes lim)) (m_Volumes m)) @
     concat (map (env_file_errs (lim_EnvFilePrefixes lim)) (m_EnvFiles m))"

definition Validate :: "(string \<Rightarrow> go_url result) \<Rightarrow> limits \<Rightarrow> manifest \<Rightarrow> go_error option" where
  "Validate parse_url lim m = errors_join (validate_errs parse_url lim m)"

lemmas [manifest_defs] = validateRepository_def validateHealthURL_def validateHostPath_def
  check_def volume_errs_def env_file_errs_def validate_errs_def Validate_def

section \<open>The rendered-unit gate\<close>

definition forbiddenKeys :: "(string \<times> string) list" where
  "forbiddenKeys =
     [(''AddCapability'', ''adds a Linux capability''),
      (''Privileged'', ''requests a privileged container''),
      (''AddDevice'', ''passes a host device through''),
      (''SecurityLabelDisable'', ''disables SELinux confinement'')]"

definition forbiddenPodmanArgs :: "string list" where
  "forbiddenPodmanArgs =
     [''--privileged'', ''--cap-add'', ''--userns'', ''--pid=host'', ''--ipc=host'',
      ''--network=host'', ''--net=host'', ''--security-opt'', ''--device'', ''--publish'',
      ''-p '']"

definition loopbackPublishPrefixes :: "string list" where
  "loopbackPublishPrefixes = [''127.0.0.1:'', ''[::1]:'']"

definition hasAnyPrefix :: "string \<Rightarrow> string list \<Rightarrow> bool" where
  "hasAnyPrefix s pfxs \<longleftrightarrow> (\<exists>p \<in> set pfxs. HasPrefix s p)"

text \<open>The key and the value of a line, when it is neither blank nor a comment and has an equals sign.\<close>

definition unit_setting :: "string \<Rightarrow> (string \<times> string) option" where
  "unit_setting line =
     (let trimmed = TrimSpace line in
      if trimmed = [] \<or> HasPrefix trimmed ''#'' \<or> HasPrefix trimmed '';'' then None
      else case Cut trimmed (CHR ''='') of
        (key, v, found) \<Rightarrow> if found then Some (TrimSpace key, TrimSpace v) else None)"

definition setting_errs :: "string \<Rightarrow> string \<Rightarrow> string \<Rightarrow> go_error list" where
  "setting_errs at key v =
     (case map_of forbiddenKeys key of
        Some why \<Rightarrow> [errorf (at @ key @ ''= '' @ why)]
      | None \<Rightarrow>
          if key = ''PublishPort'' then
            (if hasAnyPrefix v loopbackPublishPrefixes then []
             else [errorf (at @ ''PublishPort='' @ v @ '' is not loopback-only'')])
          else if key = ''Network'' then
            (if v = ''host''
             then [errorf (at @ ''Network=host defeats the loopback-only publish rule'')] else [])
          else if key = ''Image'' then
            (if Contains v ''@sha256:'' then []
             else [errorf (at @ ''Image='' @ v @ '' is not pinned by digest'')])
          else if key = ''PodmanArgs'' then
            map (\<lambda>arg. errorf (at @ ''PodmanArgs carries '' @ TrimSpace arg))
              (filter (\<lambda>arg. Contains (v @ '' '') arg) forbiddenPodmanArgs)
          else [])"

definition line_errs :: "nat \<Rightarrow> string \<Rightarrow> go_error list" where
  "line_errs i line =
     (case unit_setting line of
        None \<Rightarrow> []
      | Some (key, v) \<Rightarrow> setting_errs (''line '' @ Itoa (int i + 1) @ '': '') key v)"

fun lines_errs :: "nat \<Rightarrow> string list \<Rightarrow> go_error list" where
  "lines_errs i [] = []"
| "lines_errs i (l # ls) = line_errs i l @ lines_errs (Suc i) ls"

abbreviation newline :: char where "newline \<equiv> CHR 0x0A"

definition ValidateRendered :: "string \<Rightarrow> go_error option" where
  "ValidateRendered unit_text = errors_join (lines_errs 0 (split_on newline unit_text))"

section \<open>What the checks guarantee\<close>

lemma check_Nil [simp]: "check pre r = [] \<longleftrightarrow> r = None"
  by (simp add: check_def split: option.splits)

lemma validate_errs_Nil:
  "validate_errs parse_url lim m = [] \<longleftrightarrow>
     TrimSpace (m_Name m) \<noteq> [] \<and> TrimSpace (m_Template m) \<noteq> [] \<and>
     validateRepository (img_Repository (m_Image m)) = None \<and> digest_pattern (digest_of m) \<and>
     1 \<le> m_Port m \<and> m_Port m \<le> 65535 \<and>
     validateHealthURL parse_url (h_URL (m_Health m)) = None \<and> 0 \<le> h_Timeout (m_Health m) \<and>
     (\<forall>v \<in> set (m_Volumes m). volume_errs (lim_VolumePrefixes lim) v = []) \<and>
     (\<forall>f \<in> set (m_EnvFiles m). env_file_errs (lim_EnvFilePrefixes lim) f = [])"
  unfolding validate_errs_def append_is_Nil_conv if_singleton_Nil check_Nil concat_eq_Nil_conv
  by (simp add: not_less)

lemma validate_errs_volume:
  "validate_errs parse_url lim m = [] \<Longrightarrow> v \<in> set (m_Volumes m) \<Longrightarrow>
   named_volume (volume_source v) \<or>
   validateHostPath (volume_source v) (lim_VolumePrefixes lim) = None"
  by (auto simp: validate_errs_Nil volume_errs_def split: if_splits)

lemma validate_errs_env_file:
  "validate_errs parse_url lim m = [] \<Longrightarrow> f \<in> set (m_EnvFiles m) \<Longrightarrow>
   validateHostPath f (lim_EnvFilePrefixes lim) = None"
  by (simp add: validate_errs_Nil env_file_errs_def)

lemma join_with_hd:
  "x # xs = join_with [slash] es \<Longrightarrow> \<forall>e \<in> set es. e \<noteq> [] \<and> slash \<notin> set e \<Longrightarrow> x \<noteq> slash"
  by (cases es rule: remdups_adj.cases) (auto simp: Cons_eq_append_conv)

lemma clean_stack_no_slash:
  "\<forall>e \<in> set st \<union> set cs. slash \<notin> set e \<Longrightarrow> \<forall>e \<in> set st. e \<noteq> [] \<Longrightarrow>
   e \<in> set (clean_stack r st cs) \<Longrightarrow> e \<noteq> [] \<and> slash \<notin> set e"
  by (induction r st cs rule: clean_stack.induct) (auto split: if_splits list.splits)

lemma path_elems_no_slash: "e \<in> set (path_elems p) \<Longrightarrow> e \<noteq> [] \<and> slash \<notin> set e"
  using clean_stack_no_slash [of "[]" "split_on slash p" e "is_rooted p"]
  by (auto simp: path_elems_def dest: split_on_no_sep)

text \<open>An allowed prefix that is not absolute admits no absolute path.\<close>

lemma relative_prefix_admits_nothing:
  assumes p: "is_rooted p" and q: "\<not> is_rooted q"
  shows "\<not> HasPrefix (Clean p) (Clean q @ [slash])"
proof
  assume "HasPrefix (Clean p) (Clean q @ [slash])"
  then obtain t where t: "Clean p = Clean q @ slash # t"
    by (auto simp: HasPrefix_def prefix_def)
  show False
  proof (cases "join_with [slash] (path_elems q)")
    case Nil
    with q t p show False by (simp add: Clean_def Clean_rooted [OF p] Let_def)
  next
    case (Cons x xs)
    then have "x \<noteq> slash" by (metis join_with_hd path_elems_no_slash)
    with Cons q t p show False by (simp add: Clean_def Clean_rooted [OF p] Let_def)
  qed
qed

text \<open>
  The meaning of an accepted host path: its elements, with every \<open>.\<close> and \<open>..\<close> resolved, lie
  strictly below those of an allowed absolute directory.
\<close>

definition confined :: "string \<Rightarrow> string list \<Rightarrow> bool" where
  "confined p pfxs \<longleftrightarrow>
     (\<exists>q \<in> set pfxs. \<exists>below. is_rooted q \<and> path_elems q \<noteq> [] \<and> below \<noteq> [] \<and>
        path_elems p = path_elems q @ below \<and> list_all plain_elem below)"

lemma validateHostPath_confined:
  assumes "validateHostPath p pfxs = None" and "pfxs \<noteq> []"
  shows "is_rooted p \<and> confined p pfxs"
proof -
  from assms have p: "is_rooted p" and "\<exists>q \<in> set pfxs. HasPrefix (Clean p) (Clean q @ [slash])"
    by (auto simp: validateHostPath_def is_rooted_def split: if_splits)
  then obtain q where q: "q \<in> set pfxs" and hp: "HasPrefix (Clean p) (Clean q @ [slash])"
    by blast
  from p hp have "is_rooted q" using relative_prefix_admits_nothing by blast
  with p hp obtain gs where "path_elems q \<noteq> []" "gs \<noteq> []" "path_elems p = path_elems q @ gs"
    by (auto simp: under_prefix_iff)
  moreover from this p have "list_all plain_elem gs"
    using path_elems_plain [OF p] by (auto simp: list_all_iff)
  ultimately show ?thesis
    using p q \<open>is_rooted q\<close> unfolding confined_def by blast
qed

lemma confined_validateHostPath:
  "is_rooted p \<Longrightarrow> confined p pfxs \<Longrightarrow> validateHostPath p pfxs = None"
  unfolding confined_def validateHostPath_def
  using under_prefix_iff by (auto simp: is_rooted_def)

lemma named_volume_no_slash: "named_volume s \<Longrightarrow> slash \<notin> set s"
proof -
  assume nv: "named_volume s"
  then have suf: "s = TrimSuffix s ''.volume'' @ ''.volume''"
    by (auto simp: named_volume_def HasSuffix_def TrimSuffix_def suffix_def)
  from nv have "slash \<notin> set (TrimSuffix s ''.volume'')"
    by (auto simp: named_volume_def list_all_iff alnum_def Let_def split: list.splits)
  then have "slash \<notin> set (TrimSuffix s ''.volume'' @ ''.volume'')" by simp
  with suf show ?thesis by metis
qed

lemma Contains_char: "Contains s [c] \<longleftrightarrow> c \<in> set s"
  by (auto simp: Contains_def sublist_def dest: split_list)

lemma validateRepository_None:
  "validateRepository repo = None \<longleftrightarrow>
     TrimSpace repo \<noteq> [] \<and> CHR ''@'' \<notin> set repo \<and> CHR '':'' \<notin> set (after_last_slash repo)"
  by (simp add: validateRepository_def Contains_char)

lemma digest_pattern_cases:
  assumes "digest_pattern d"
  obtains t where "d = ''sha256:'' @ t" and "list_all lower_hex t"
proof -
  from assms obtain t where t: "d = ''sha256:'' @ t"
    unfolding digest_pattern_def HasPrefix_def prefix_def by blast
  from assms have "list_all lower_hex (drop 7 d)"
    unfolding digest_pattern_def by blast
  with t have "list_all lower_hex t" by simp
  with t show ?thesis by (rule that)
qed

text \<open>The settings of a unit text, in order.\<close>

definition unit_settings :: "string \<Rightarrow> (string \<times> string) list" where
  "unit_settings t = List.map_filter unit_setting (split_on newline t)"

text \<open>What one setting must satisfy for the gate to let it pass.\<close>

definition setting_safe :: "string \<Rightarrow> string \<Rightarrow> bool" where
  "setting_safe key v \<longleftrightarrow>
     key \<notin> {''AddCapability'', ''Privileged'', ''AddDevice'', ''SecurityLabelDisable''} \<and>
     (key = ''PublishPort'' \<longrightarrow> HasPrefix v ''127.0.0.1:'' \<or> HasPrefix v ''[::1]:'') \<and>
     (key = ''Network'' \<longrightarrow> v \<noteq> ''host'') \<and>
     (key = ''Image'' \<longrightarrow> Contains v ''@sha256:'') \<and>
     (key = ''PodmanArgs'' \<longrightarrow> (\<forall>arg \<in> set forbiddenPodmanArgs. \<not> Contains (v @ '' '') arg))"

lemma forbiddenKeys_None:
  "map_of forbiddenKeys key = None \<longleftrightarrow>
     key \<notin> {''AddCapability'', ''Privileged'', ''AddDevice'', ''SecurityLabelDisable''}"
  unfolding map_of_eq_None_iff by (simp add: forbiddenKeys_def)

lemma loopback_iff:
  "hasAnyPrefix v loopbackPublishPrefixes \<longleftrightarrow> HasPrefix v ''127.0.0.1:'' \<or> HasPrefix v ''[::1]:''"
  by (simp add: hasAnyPrefix_def loopbackPublishPrefixes_def)

lemma setting_errs_Nil: "setting_errs at key v = [] \<longleftrightarrow> setting_safe key v"
proof (cases "map_of forbiddenKeys key")
  case (Some why)
  then have "\<not> setting_safe key v"
    unfolding setting_safe_def using forbiddenKeys_None [of key] by simp
  with Some show ?thesis by (simp add: setting_errs_def)
next
  case None
  consider "key = ''PublishPort''" | "key = ''Network''" | "key = ''Image''" | "key = ''PodmanArgs''"
    | "key \<noteq> ''PublishPort''" "key \<noteq> ''Network''" "key \<noteq> ''Image''" "key \<noteq> ''PodmanArgs''"
    by blast
  then show ?thesis
    using None [unfolded forbiddenKeys_None] None
    by cases (simp_all add: setting_errs_def setting_safe_def loopback_iff filter_empty_conv)
qed

lemma lines_errs_Nil:
  "lines_errs i ls = [] \<longleftrightarrow>
     (\<forall>l \<in> set ls. \<forall>k v. unit_setting l = Some (k, v) \<longrightarrow> setting_safe k v)"
  by (induction ls arbitrary: i)
     (auto simp: line_errs_def setting_errs_Nil split: option.splits)

lemma split_on_append_sep: "split_on c (s @ c # t) = split_on c s @ split_on c t"
  by (induction s) (auto split: list.splits)

section \<open>Properties\<close>

text \<open>
  C8. Confined host paths. When a manifest passes its checks and prefixes are configured, every
  volume source is a Quadlet volume name without a slash or an absolute path whose resolved
  elements lie strictly below an allowed directory, and every env file is such a path: no
  \<open>..\<close>, no doubled slash and no sibling directory that shares a textual prefix gets out.
\<close>

theorem accepted_paths_confined:
  assumes ok: "Validate parse_url lim m = None"
  shows "(lim_VolumePrefixes lim \<noteq> [] \<longrightarrow>
      (\<forall>v \<in> set (m_Volumes m).
         named_volume (volume_source v) \<and> slash \<notin> set (volume_source v) \<or>
         is_rooted (volume_source v) \<and> confined (volume_source v) (lim_VolumePrefixes lim))) \<and>
    (lim_EnvFilePrefixes lim \<noteq> [] \<longrightarrow>
      (\<forall>f \<in> set (m_EnvFiles m). is_rooted f \<and> confined f (lim_EnvFilePrefixes lim)))"
proof -
  from ok have errs: "validate_errs parse_url lim m = []" by (simp add: Validate_def)
  show ?thesis
    using validate_errs_volume [OF errs] validate_errs_env_file [OF errs]
      validateHostPath_confined named_volume_no_slash by blast
qed

definition sample_digest :: "char \<Rightarrow> string" where
  "sample_digest c = ''sha256:'' @ replicate 64 c"

definition sample_manifest :: manifest where
  "sample_manifest =
     \<lparr>m_Name = ''web'', m_Description = [],
      m_Image = \<lparr>img_Repository = ''r.example.com:5000/acme/web'', img_Digest = sample_digest (CHR ''a'')\<rparr>,
      m_Template = ''web.tmpl'', m_Port = 8080, m_Network = ''acme'', m_Env = Map.empty,
      m_EnvFiles = [''/etc/acme/web.env''], m_Volumes = [''acme-data.volume:/data'', ''/srv/acme//x/../web:/w''],
      m_Health = \<lparr>h_URL = ''http://127.0.0.1:8080/healthz'', h_Timeout = 0\<rparr>\<rparr>"

definition sample_url :: "string \<Rightarrow> go_url result" where
  "sample_url raw = Inr \<lparr>url_Scheme = ''http'', url_Host = ''127.0.0.1:8080'', url_Path = ''/healthz''\<rparr>"

definition sample_limits :: limits where
  "sample_limits = \<lparr>lim_VolumePrefixes = [''/srv/acme/''], lim_EnvFilePrefixes = [''/etc/acme'']\<rparr>"

lemma sample_digest_ok: "lower_hex c \<Longrightarrow> digest_pattern (sample_digest c)"
  by (simp add: digest_pattern_def sample_digest_def HasPrefix_def list_all_iff)

lemma sample_validates: "Validate sample_url sample_limits sample_manifest = None"
  by code_simp

theorem accepted_paths_confined_witness:
  "is_rooted ''/srv/acme//x/../web'' \<and>
   confined ''/srv/acme//x/../web'' (lim_VolumePrefixes sample_limits)"
proof -
  have v: "''/srv/acme//x/../web:/w'' \<in> set (m_Volumes sample_manifest)"
    by (simp add: sample_manifest_def)
  have src: "volume_source ''/srv/acme//x/../web:/w'' = ''/srv/acme//x/../web''"
    by (simp add: volume_source_def)
  have "lim_VolumePrefixes sample_limits \<noteq> []" by (simp add: sample_limits_def)
  moreover have "slash \<in> set ''/srv/acme//x/../web''" by simp
  ultimately show ?thesis
    using accepted_paths_confined [OF sample_validates] v src by fastforce
qed

text \<open>
  Digest pins only. A manifest that passes its checks carries a \<open>sha256:\<close> pin of 64 lower
  case hex digits, and the image reference the unit gets splits at its only \<open>@\<close> into a
  repository without a tag and that pin.
\<close>

theorem accepted_image_pinned:
  assumes ok: "Validate parse_url lim m = None"
  shows "digest_pattern (digest_of m) \<and>
    CHR '':'' \<notin> set (after_last_slash (img_Repository (m_Image m))) \<and>
    split_on (CHR ''@'') (Ref (m_Image m)) = [img_Repository (m_Image m), digest_of m]"
proof -
  from ok have errs: "validate_errs parse_url lim m = []" by (simp add: Validate_def)
  then have d: "digest_pattern (digest_of m)"
    and r: "validateRepository (img_Repository (m_Image m)) = None"
    by (simp_all only: validate_errs_Nil)
  from r have at: "CHR ''@'' \<notin> set (img_Repository (m_Image m))"
    and col: "CHR '':'' \<notin> set (after_last_slash (img_Repository (m_Image m)))"
    unfolding validateRepository_None by blast+
  have "CHR ''@'' \<notin> set (digest_of m)"
  proof -
    from d obtain t where t: "digest_of m = ''sha256:'' @ t" and h: "list_all lower_hex t"
      by (rule digest_pattern_cases)
    have "\<not> lower_hex (CHR ''@'')" by (simp add: lower_hex_def)
    with h have "CHR ''@'' \<notin> set t" by (auto simp: list_all_iff)
    with t show ?thesis by simp
  qed
  with d at col show ?thesis
    by (simp add: Ref_def split_on_append_sep split_on_single)
qed

theorem accepted_image_pinned_witness:
  "split_on (CHR ''@'') (Ref (m_Image sample_manifest)) =
     [''r.example.com:5000/acme/web'', sample_digest (CHR ''a'')]"
  using accepted_image_pinned [OF sample_validates] by (simp add: sample_manifest_def)



text \<open>
  The gate is compositional: a text put together from two parts at a line break passes
  exactly when both parts do, so nothing a template adds can mask a setting of the rest.
\<close>

theorem rendered_gate_compositional:
  "ValidateRendered (t @ newline # u) = None \<longleftrightarrow>
     ValidateRendered t = None \<and> ValidateRendered u = None"
  by (auto simp: ValidateRendered_def lines_errs_Nil split_on_append_sep)

text \<open>
  Where the gate is blind. It reads each line alone, so an argument moved behind a line
  continuation is no setting at all, and the argument patterns miss the spellings with a blank
  or with an attached value: all of these texts pass.
\<close>

theorem rendered_gate_blind_spots:
  "ValidateRendered (''PodmanArgs='' @ [CHR 0x5C, newline] @ ''--privileged'') = None \<and>
   ValidateRendered ''PodmanArgs=--network host'' = None \<and>
   ValidateRendered ''PodmanArgs=--pid host --ipc host'' = None \<and>
   ValidateRendered ''PodmanArgs=-p0.0.0.0:9000:9000'' = None \<and>
   ValidateRendered ''PodmanArgs=--network=host'' \<noteq> None"
proof (intro conjI)
  show "ValidateRendered (''PodmanArgs='' @ [CHR 0x5C, newline] @ ''--privileged'') = None"
    by code_simp
  show "ValidateRendered ''PodmanArgs=--network host'' = None" by code_simp
  show "ValidateRendered ''PodmanArgs=--pid host --ipc host'' = None" by code_simp
  show "ValidateRendered ''PodmanArgs=-p0.0.0.0:9000:9000'' = None" by code_simp
  show "ValidateRendered ''PodmanArgs=--network=host'' \<noteq> None" by code_simp
qed

end
