(* ===== verification/Journal.thy ===== *)
theory Journal
  imports Go_Prelude "HOL-Library.Product_Lexorder" "HOL-Library.Multiset"
begin

text \<open>
  The package \<open>internal/journal\<close>: the deploy record in one SQLite table. The table is a list
  of rows in insertion order with the \<open>AUTOINCREMENT\<close> mark; each statement of the source is
  the function it computes on the table. The database itself may fail: every operation takes
  the failure it meets, if any, as an argument. Times are nanoseconds since the epoch, and
  Go's zero \<open>time.Time\<close> is \<open>None\<close>.
\<close>

named_theorems journal_defs \<open>the definitions of the journal's operations\<close>

section \<open>Actions, terminal states, entries\<close>

definition ActionDeploy :: string where [simp]: "ActionDeploy = ''deploy''"
definition ActionRollback :: string where [simp]: "ActionRollback = ''rollback''"
definition ActionConverge :: string where [simp]: "ActionConverge = ''converge''"
definition ActionAutoRollback :: string where [simp]: "ActionAutoRollback = ''auto-rollback''"

definition StateHealthy :: string where [simp]: "StateHealthy = ''healthy''"
definition StateRolledBack :: string where [simp]: "StateRolledBack = ''rolled-back''"
definition StateFailed :: string where [simp]: "StateFailed = ''failed''"

definition err_NoHealthyDeploy :: go_error where
  "err_NoHealthyDeploy =
     \<lparr>err_text = ''no healthy deploy recorded for service'', err_chain = [ErrNoHealthyDeploy]\<rparr>"

definition err_AlreadyFinished :: go_error where
  "err_AlreadyFinished =
     \<lparr>err_text = ''journal entry is already finished'', err_chain = [ErrAlreadyFinished]\<rparr>"

definition err_NotFound :: go_error where
  "err_NotFound = \<lparr>err_text = ''journal entry not found'', err_chain = [ErrNotFound]\<rparr>"

type_synonym gotime = "int option"

record entry =
  ent_ID :: int
  ent_Service :: string
  ent_Action :: string
  ent_Actor :: string
  ent_OldDigest :: string
  ent_NewDigest :: string
  ent_PRNumber :: int
  ent_MergeSHA :: string
  ent_State :: string
  ent_Detail :: string
  ent_StartedAt :: gotime
  ent_FinishedAt :: gotime

section \<open>The table\<close>

record row =
  row_id :: int
  row_service :: string
  row_action :: string
  row_actor :: string
  row_old_digest :: string
  row_new_digest :: string
  row_pr_number :: int
  row_merge_sha :: string
  row_state :: string
  row_detail :: string
  row_started_at :: int
  row_finished_at :: "int option"

record journal =
  j_rows :: "row list"
  j_seq :: int

text \<open>
  How the database can fail: the statement is not executed; it is executed but its result
  (\<open>LastInsertId\<close>, \<open>RowsAffected\<close>) cannot be read; a query, its scan or its iteration fails.
\<close>

datatype db_fault = ExecFails go_error | ResultFails go_error | QueryFails go_error

text \<open>\<open>Open\<close> on a new path: the empty table.\<close>

definition journal_empty :: journal where
  "journal_empty = \<lparr>j_rows = [], j_seq = 0\<rparr>"

section \<open>Writing\<close>

definition new_row :: "int \<Rightarrow> int \<Rightarrow> entry \<Rightarrow> row" where
  "new_row i started e =
     \<lparr>row_id = i, row_service = ent_Service e, row_action = ent_Action e,
      row_actor = ent_Actor e, row_old_digest = ent_OldDigest e,
      row_new_digest = ent_NewDigest e, row_pr_number = ent_PRNumber e,
      row_merge_sha = ent_MergeSHA e, row_state = ent_State e, row_detail = ent_Detail e,
      row_started_at = started, row_finished_at = None\<rparr>"

definition journal_Begin ::
    "db_fault option \<Rightarrow> int \<Rightarrow> entry \<Rightarrow> journal \<Rightarrow> int result \<times> journal" where
  "journal_Begin fault now e j =
     (let started = (case ent_StartedAt e of None \<Rightarrow> now | Some t \<Rightarrow> t);
          i = j_seq j + 1;
          j' = j\<lparr>j_rows := j_rows j @ [new_row i started e], j_seq := i\<rparr>
      in case fault of
           Some (ExecFails err) \<Rightarrow> (Inl (wrap ''begin journal entry: '' err), j)
         | Some (ResultFails err) \<Rightarrow> (Inl (wrap ''begin journal entry: '' err), j')
         | _ \<Rightarrow> (Inr i, j'))"

text \<open>The \<open>WHERE\<close> clause of every update.\<close>

definition open_row :: "int \<Rightarrow> row \<Rightarrow> bool" where
  "open_row i r \<longleftrightarrow> row_id r = i \<and> row_finished_at r = None"

definition entry_error :: "int \<Rightarrow> go_error \<Rightarrow> go_error" where
  "entry_error i e = wrap (''entry '' @ Itoa i @ '': '') e"

definition explainNoUpdate :: "db_fault option \<Rightarrow> int \<Rightarrow> journal \<Rightarrow> go_error" where
  "explainNoUpdate fault i j =
     (case fault of
        Some (QueryFails err) \<Rightarrow> wrap (''inspect journal entry '' @ Itoa i @ '': '') err
      | _ \<Rightarrow> (case find (\<lambda>r. row_id r = i) (j_rows j) of
                None \<Rightarrow> entry_error i err_NotFound
              | Some r \<Rightarrow> entry_error i err_AlreadyFinished))"

definition journal_update ::
    "db_fault option \<Rightarrow> int \<Rightarrow> (row \<Rightarrow> row) \<Rightarrow> journal \<Rightarrow> go_error option \<times> journal" where
  "journal_update fault i f j =
     (let failed = (\<lambda>err. wrap (''update journal entry '' @ Itoa i @ '': '') err);
          n = length (filter (open_row i) (j_rows j));
          j' = j\<lparr>j_rows := map (\<lambda>r. if open_row i r then f r else r) (j_rows j)\<rparr>
      in case fault of
           Some (ExecFails err) \<Rightarrow> (Some (failed err), j)
         | Some (ResultFails err) \<Rightarrow> (Some (failed err), j')
         | _ \<Rightarrow> if n = 1 then (None, j') else (Some (explainNoUpdate fault i j'), j'))"

definition journal_Progress ::
    "db_fault option \<Rightarrow> int \<Rightarrow> string \<Rightarrow> string \<Rightarrow> journal \<Rightarrow> go_error option \<times> journal" where
  "journal_Progress fault i st detail =
     journal_update fault i (\<lambda>r. r\<lparr>row_state := st, row_detail := detail\<rparr>)"

definition journal_Finish ::
    "db_fault option \<Rightarrow> int \<Rightarrow> int \<Rightarrow> string \<Rightarrow> string \<Rightarrow> journal \<Rightarrow> go_error option \<times> journal" where
  "journal_Finish fault now i st detail =
     journal_update fault i
       (\<lambda>r. r\<lparr>row_state := st, row_detail := detail, row_finished_at := Some now\<rparr>)"

definition journal_SetPR ::
    "db_fault option \<Rightarrow> int \<Rightarrow> int \<Rightarrow> journal \<Rightarrow> go_error option \<times> journal" where
  "journal_SetPR fault i n = journal_update fault i (\<lambda>r. r\<lparr>row_pr_number := n\<rparr>)"

definition journal_SetDigests ::
    "db_fault option \<Rightarrow> int \<Rightarrow> string \<Rightarrow> string \<Rightarrow> journal \<Rightarrow> go_error option \<times> journal" where
  "journal_SetDigests fault i old new =
     journal_update fault i (\<lambda>r. r\<lparr>row_old_digest := old, row_new_digest := new\<rparr>)"

definition journal_SetMergeSHA ::
    "db_fault option \<Rightarrow> int \<Rightarrow> string \<Rightarrow> journal \<Rightarrow> go_error option \<times> journal" where
  "journal_SetMergeSHA fault i sha = journal_update fault i (\<lambda>r. r\<lparr>row_merge_sha := sha\<rparr>)"

lemmas [journal_defs] = journal_Progress_def journal_Finish_def journal_SetPR_def
  journal_SetDigests_def journal_SetMergeSHA_def

section \<open>Reading\<close>

definition scanEntry :: "row \<Rightarrow> entry" where
  "scanEntry r =
     \<lparr>ent_ID = row_id r, ent_Service = row_service r, ent_Action = row_action r,
      ent_Actor = row_actor r, ent_OldDigest = row_old_digest r,
      ent_NewDigest = row_new_digest r, ent_PRNumber = row_pr_number r,
      ent_MergeSHA = row_merge_sha r, ent_State = row_state r, ent_Detail = row_detail r,
      ent_StartedAt = Some (row_started_at r), ent_FinishedAt = row_finished_at r\<rparr>"

definition age_key :: "row \<Rightarrow> int \<times> int" where
  "age_key r = (row_started_at r, row_id r)"

text \<open>\<open>ORDER BY started_at ASC, id ASC\<close> and \<open>ORDER BY started_at DESC, id DESC\<close>.\<close>

definition oldest_first :: "row list \<Rightarrow> row list" where
  "oldest_first rs = sort_key age_key rs"

definition newest_first :: "row list \<Rightarrow> row list" where
  "newest_first rs = rev (sort_key age_key rs)"

definition query_fault :: "db_fault option \<Rightarrow> go_error option" where
  "query_fault fault = (case fault of Some (QueryFails e) \<Rightarrow> Some e | _ \<Rightarrow> None)"

definition history_limit :: "int \<Rightarrow> nat" where
  "history_limit n = nat (if n \<le> 0 then 20 else n)"

definition journal_Recent :: "db_fault option \<Rightarrow> string \<Rightarrow> int \<Rightarrow> journal \<Rightarrow> entry list result" where
  "journal_Recent fault service n j =
     (case query_fault fault of
        Some e \<Rightarrow> Inl (wrap (''read journal for '' @ service @ '': '') e)
      | None \<Rightarrow> Inr (map scanEntry
          (take (history_limit n) (newest_first (filter (\<lambda>r. row_service r = service) (j_rows j))))))"

definition journal_Unfinished :: "db_fault option \<Rightarrow> journal \<Rightarrow> entry list result" where
  "journal_Unfinished fault j =
     (case query_fault fault of
        Some e \<Rightarrow> Inl (wrap ''read unfinished journal entries: '' e)
      | None \<Rightarrow> Inr (map scanEntry
          (oldest_first (filter (\<lambda>r. row_finished_at r = None) (j_rows j)))))"

definition healthy_row :: "string \<Rightarrow> row \<Rightarrow> bool" where
  "healthy_row service r \<longleftrightarrow>
     row_service r = service \<and> row_state r = StateHealthy \<and> row_new_digest r \<noteq> []"

definition LastHealthyDigest :: "db_fault option \<Rightarrow> string \<Rightarrow> journal \<Rightarrow> string result" where
  "LastHealthyDigest fault service j =
     (case query_fault fault of
        Some e \<Rightarrow> Inl (wrap (''read last healthy digest for '' @ service @ '': '') e)
      | None \<Rightarrow>
          (case newest_first (filter (healthy_row service) (j_rows j)) of
             [] \<Rightarrow> Inl (wrap (service @ '': '') err_NoHealthyDeploy)
           | r # _ \<Rightarrow> Inr (row_new_digest r)))"

definition PreviousHealthyDigest ::
    "db_fault option \<Rightarrow> string \<Rightarrow> string \<Rightarrow> journal \<Rightarrow> string result" where
  "PreviousHealthyDigest fault service notDigest j =
     (case query_fault fault of
        Some e \<Rightarrow> Inl (wrap (''read previous healthy digest for '' @ service @ '': '') e)
      | None \<Rightarrow>
          (case newest_first (filter (\<lambda>r. healthy_row service r \<and> row_new_digest r \<noteq> notDigest)
                                     (j_rows j)) of
             [] \<Rightarrow> Inl (wrap (service @ '' (other than '' @ notDigest @ ''): '') err_NoHealthyDeploy)
           | r # _ \<Rightarrow> Inr (row_new_digest r)))"

section \<open>Invariant and steps\<close>

text \<open>Ids are the positions of the \<open>AUTOINCREMENT\<close> mark: distinct, positive, never above it.\<close>

definition journal_inv :: "journal \<Rightarrow> bool" where
  "journal_inv j \<longleftrightarrow>
     distinct (map row_id (j_rows j)) \<and> 0 \<le> j_seq j \<and>
     (\<forall>r \<in> set (j_rows j). 1 \<le> row_id r \<and> row_id r \<le> j_seq j)"

text \<open>The five updates as one family.\<close>

datatype jwrite =
    WProgress string string
  | WFinish int string string
  | WSetPR int
  | WSetDigests string string
  | WSetMergeSHA string

primrec run_write :: "db_fault option \<Rightarrow> int \<Rightarrow> jwrite \<Rightarrow> journal \<Rightarrow> go_error option \<times> journal" where
  "run_write fault i (WProgress st d) = journal_Progress fault i st d"
| "run_write fault i (WFinish now st d) = journal_Finish fault now i st d"
| "run_write fault i (WSetPR n) = journal_SetPR fault i n"
| "run_write fault i (WSetDigests old new) = journal_SetDigests fault i old new"
| "run_write fault i (WSetMergeSHA sha) = journal_SetMergeSHA fault i sha"

primrec row_write :: "jwrite \<Rightarrow> row \<Rightarrow> row" where
  "row_write (WProgress st d) r = r\<lparr>row_state := st, row_detail := d\<rparr>"
| "row_write (WFinish now st d) r =
     r\<lparr>row_state := st, row_detail := d, row_finished_at := Some now\<rparr>"
| "row_write (WSetPR n) r = r\<lparr>row_pr_number := n\<rparr>"
| "row_write (WSetDigests old new) r = r\<lparr>row_old_digest := old, row_new_digest := new\<rparr>"
| "row_write (WSetMergeSHA sha) r = r\<lparr>row_merge_sha := sha\<rparr>"

lemma row_write_fun:
  "row_write (WProgress st d) = (\<lambda>r. r\<lparr>row_state := st, row_detail := d\<rparr>)"
  "row_write (WFinish now st d) =
     (\<lambda>r. r\<lparr>row_state := st, row_detail := d, row_finished_at := Some now\<rparr>)"
  "row_write (WSetPR n) = (\<lambda>r. r\<lparr>row_pr_number := n\<rparr>)"
  "row_write (WSetDigests old new) = (\<lambda>r. r\<lparr>row_old_digest := old, row_new_digest := new\<rparr>)"
  "row_write (WSetMergeSHA sha) = (\<lambda>r. r\<lparr>row_merge_sha := sha\<rparr>)"
  by (auto simp: fun_eq_iff)

lemma run_write_update: "run_write fault i w = journal_update fault i (row_write w)"
  by (cases w) (simp_all add: journal_defs row_write_fun)

lemma row_write_id [simp]: "row_id (row_write w r) = row_id r"
  by (cases w) simp_all

inductive journal_step :: "journal \<Rightarrow> journal \<Rightarrow> bool" where
  begin_step: "journal_step j (snd (journal_Begin fault now e j))"
| write_step: "journal_step j (snd (run_write fault i w j))"

definition journal_view :: "journal \<Rightarrow> int \<Rightarrow> row option" where
  "journal_view j i = find (\<lambda>r. row_id r = i) (j_rows j)"

definition sealed_row :: "journal \<Rightarrow> int \<Rightarrow> row option" where
  "sealed_row j i =
     (case journal_view j i of
        None \<Rightarrow> None
      | Some r \<Rightarrow> if row_finished_at r = None then None else Some r)"

lemma find_map_id:
  "(\<And>r. row_id (f r) = row_id r) \<Longrightarrow>
   find (\<lambda>r. row_id r = i) (map f rs) = map_option f (find (\<lambda>r. row_id r = i) rs)"
  by (induction rs) auto

lemma find_append:
  "find P (xs @ ys) = (case find P xs of None \<Rightarrow> find P ys | Some x \<Rightarrow> Some x)"
  by (induction xs) auto

lemma find_id_mem:
  "distinct (map row_id rs) \<Longrightarrow> find (\<lambda>r. row_id r = i) rs = Some r \<longleftrightarrow> r \<in> set rs \<and> row_id r = i"
  by (induction rs) force+

lemma journal_view_mem:
  "journal_inv j \<Longrightarrow> journal_view j i = Some r \<longleftrightarrow> r \<in> set (j_rows j) \<and> row_id r = i"
  by (simp add: journal_view_def journal_inv_def find_id_mem)

lemma journal_view_None:
  "journal_view j i = None \<longleftrightarrow> (\<forall>r \<in> set (j_rows j). row_id r \<noteq> i)"
  by (auto simp: journal_view_def find_None_iff)

text \<open>The table after an update: the same ids, the open row of this id rewritten.\<close>

lemma journal_update_cases:
  obtains "snd (journal_update fault i f j) = j"
  | "snd (journal_update fault i f j) =
       j\<lparr>j_rows := map (\<lambda>r. if open_row i r then f r else r) (j_rows j)\<rparr>"
proof (cases "\<exists>err. fault = Some (ExecFails err)")
  case True
  then show thesis using that(1) by (auto simp: journal_update_def Let_def)
next
  case False
  then have "snd (journal_update fault i f j) =
      j\<lparr>j_rows := map (\<lambda>r. if open_row i r then f r else r) (j_rows j)\<rparr>"
    by (auto simp: journal_update_def Let_def split: option.splits db_fault.splits)
  then show thesis by (rule that(2))
qed

lemma journal_view_updated:
  assumes "\<And>r. row_id (f r) = row_id r"
  shows "journal_view (j\<lparr>j_rows := map (\<lambda>r. if open_row i r then f r else r) (j_rows j)\<rparr>) k =
    map_option (\<lambda>r. if open_row i r then f r else r) (journal_view j k)"
  using assms by (simp add: journal_view_def find_map_id)

lemma journal_inv_update:
  assumes "\<And>r. row_id (f r) = row_id r" and "journal_inv j"
  shows "journal_inv (snd (journal_update fault i f j))"
proof (cases rule: journal_update_cases [of fault i f j])
  case 2
  have "row_id \<circ> (\<lambda>r. if open_row i r then f r else r) = row_id"
    using assms(1) by (simp add: fun_eq_iff)
  with 2 assms show ?thesis by (auto simp: journal_inv_def)
qed (use assms in simp)

lemma sealed_row_update:
  assumes "\<And>r. row_id (f r) = row_id r" and "sealed_row j k = Some r"
  shows "sealed_row (snd (journal_update fault i f j)) k = Some r"
proof (cases rule: journal_update_cases [of fault i f j])
  case 2
  with assms journal_view_updated [where f = f and j = j and i = i and k = k] show ?thesis
    by (auto simp: sealed_row_def open_row_def split: option.splits if_splits)
qed (use assms in simp)

lemma journal_Begin_cases:
  obtains "snd (journal_Begin fault now e j) = j"
  | started where "snd (journal_Begin fault now e j) =
       j\<lparr>j_rows := j_rows j @ [new_row (j_seq j + 1) started e], j_seq := j_seq j + 1\<rparr>"
proof (cases "\<exists>err. fault = Some (ExecFails err)")
  case True
  then show thesis using that(1) by (auto simp: journal_Begin_def Let_def)
next
  case False
  then have "snd (journal_Begin fault now e j) =
      j\<lparr>j_rows := j_rows j @ [new_row (j_seq j + 1) (case ent_StartedAt e of None \<Rightarrow> now | Some t \<Rightarrow> t) e],
        j_seq := j_seq j + 1\<rparr>"
    by (auto simp: journal_Begin_def Let_def split: option.splits db_fault.splits)
  then show thesis by (rule that(2))
qed

lemma journal_inv_Begin: "journal_inv j \<Longrightarrow> journal_inv (snd (journal_Begin fault now e j))"
  by (rule journal_Begin_cases [of fault now e j])
     (force simp: journal_inv_def new_row_def)+

lemma sealed_row_Begin:
  "sealed_row j k = Some r \<Longrightarrow> sealed_row (snd (journal_Begin fault now e j)) k = Some r"
  by (rule journal_Begin_cases [of fault now e j])
     (auto simp: sealed_row_def journal_view_def find_append split: option.splits)

lemma journal_inv_empty: "journal_inv journal_empty"
  by (simp add: journal_inv_def journal_empty_def)

lemma journal_inv_step: "journal_step j j' \<Longrightarrow> journal_inv j \<Longrightarrow> journal_inv j'"
  by (induction rule: journal_step.induct)
     (simp_all add: journal_inv_Begin run_write_update journal_inv_update)

lemma sealed_row_step:
  "journal_step j j' \<Longrightarrow> sealed_row j i = Some r \<Longrightarrow> sealed_row j' i = Some r"
  by (induction rule: journal_step.induct)
     (simp_all add: sealed_row_Begin run_write_update sealed_row_update)

section \<open>The contract of a receipt store\<close>

text \<open>
  What the clients of the journal rely on: an invariant every step keeps, and sealed entries
  no step changes.
\<close>

locale receipt_store =
  fixes inv :: "'s \<Rightarrow> bool"
    and sealed :: "'s \<Rightarrow> int \<Rightarrow> row option"
    and step :: "'s \<Rightarrow> 's \<Rightarrow> bool"
  assumes inv_step: "step s t \<Longrightarrow> inv s \<Longrightarrow> inv t"
    and sealed_step: "step s t \<Longrightarrow> inv s \<Longrightarrow> sealed s i = Some r \<Longrightarrow> sealed t i = Some r"
begin

lemma inv_steps: "step\<^sup>*\<^sup>* s t \<Longrightarrow> inv s \<Longrightarrow> inv t"
  by (induction rule: rtranclp_induct) (auto intro: inv_step)

lemma sealed_steps:
  "step\<^sup>*\<^sup>* s t \<Longrightarrow> inv s \<Longrightarrow> sealed s i = Some r \<Longrightarrow> sealed t i = Some r"
  by (induction rule: rtranclp_induct) (auto intro: sealed_step inv_steps)

end

interpretation jrnl: receipt_store journal_inv sealed_row journal_step
  by unfold_locales (auto intro: journal_inv_step sealed_row_step)

section \<open>Refinement of a map of receipts\<close>

text \<open>The abstract store: each id is unknown, open, or sealed; writes reach open entries only.\<close>

datatype receipt = Open row | Sealed row

definition classify :: "row \<Rightarrow> receipt" where
  "classify r = (if row_finished_at r = None then Open r else Sealed r)"

definition abs_journal :: "journal \<Rightarrow> (int \<rightharpoonup> receipt)" where
  "abs_journal j = (\<lambda>i. map_option classify (journal_view j i))"

definition spec_write ::
    "int \<Rightarrow> jwrite \<Rightarrow> (int \<rightharpoonup> receipt) \<Rightarrow> sentinel option \<times> (int \<rightharpoonup> receipt)" where
  "spec_write i w s =
     (case s i of
        None \<Rightarrow> (Some ErrNotFound, s)
      | Some (Sealed r) \<Rightarrow> (Some ErrAlreadyFinished, s)
      | Some (Open r) \<Rightarrow> (None, s(i \<mapsto> classify (row_write w r))))"

lemma open_row_count:
  assumes "journal_inv j"
  shows "length (filter (open_row i) (j_rows j)) =
    (case journal_view j i of None \<Rightarrow> 0 | Some r \<Rightarrow> if row_finished_at r = None then 1 else 0)"
proof -
  have "distinct (map row_id rs) \<Longrightarrow> length (filter (open_row i) rs) =
    (case find (\<lambda>r. row_id r = i) rs of None \<Rightarrow> 0 | Some r \<Rightarrow> if row_finished_at r = None then 1 else 0)"
    for rs
  proof (induction rs)
    case (Cons r rs)
    show ?case
    proof (cases "row_id r = i")
      case True
      with Cons.prems have "filter (open_row i) rs = []"
        by (auto simp: open_row_def filter_empty_conv image_iff)
      with True show ?thesis by (simp add: open_row_def [of i r])
    next
      case False
      with Cons show ?thesis by (simp add: open_row_def [of i r])
    qed
  qed simp
  with assms show ?thesis by (simp add: journal_inv_def journal_view_def)
qed

lemma map_unchanged: "(\<And>r. r \<in> set rs \<Longrightarrow> \<not> P r) \<Longrightarrow> map (\<lambda>r. if P r then f r else r) rs = rs"
  by (induction rs) auto

lemma journal_update_ok:
  assumes "journal_inv j" and "journal_view j i = Some r" and "row_finished_at r = None"
  shows "journal_update None i f j =
    (None, j\<lparr>j_rows := map (\<lambda>r. if open_row i r then f r else r) (j_rows j)\<rparr>)"
  using assms open_row_count [OF assms(1), of i] by (simp add: journal_update_def)

lemma journal_view_write:
  assumes f: "\<And>r. row_id (f r) = row_id r" and inv: "journal_inv j"
    and r: "journal_view j i = Some r" "row_finished_at r = None"
  shows "journal_view (j\<lparr>j_rows := map (\<lambda>r. if open_row i r then f r else r) (j_rows j)\<rparr>) k =
    (if k = i then Some (f r) else journal_view j k)"
proof -
  have upd: "journal_view (j\<lparr>j_rows := map (\<lambda>r. if open_row i r then f r else r) (j_rows j)\<rparr>) k =
      map_option (\<lambda>r. if open_row i r then f r else r) (journal_view j k)"
    using f by (rule journal_view_updated)
  show ?thesis
  proof (cases "k = i")
    case True
    have "row_id r = i" using r inv by (simp add: journal_view_mem)
    with True r show ?thesis unfolding upd by (simp add: open_row_def)
  next
    case False
    have "\<not> open_row i s" if "journal_view j k = Some s" for s
      using that False inv by (auto simp: journal_view_mem open_row_def)
    with False show ?thesis unfolding upd by (cases "journal_view j k") auto
  qed
qed

lemma journal_update_refused:
  assumes inv: "journal_inv j" and "\<forall>r. journal_view j i = Some r \<longrightarrow> row_finished_at r \<noteq> None"
  shows "journal_update None i f j = (Some (explainNoUpdate None i j), j)"
proof -
  have none: "\<not> open_row i r" if "r \<in> set (j_rows j)" for r
    using that assms journal_view_mem [OF inv, of i r] by (auto simp: open_row_def)
  then have "filter (open_row i) (j_rows j) = []" by (simp add: filter_empty_conv)
  moreover have "j\<lparr>j_rows := map (\<lambda>r. if open_row i r then f r else r) (j_rows j)\<rparr> = j"
    using none by (simp add: map_unchanged)
  ultimately show ?thesis by (simp add: journal_update_def)
qed

section \<open>Order of the rows\<close>

lemma set_newest_first [simp]: "set (newest_first rs) = set rs"
  by (simp add: newest_first_def)

lemma length_newest_first [simp]: "length (newest_first rs) = length rs"
  by (simp add: newest_first_def)

lemma set_oldest_first [simp]: "set (oldest_first rs) = set rs"
  by (simp add: oldest_first_def)

lemma newest_first_sorted: "sorted_wrt (\<lambda>r s. age_key s \<le> age_key r) (newest_first rs)"
proof -
  have "sorted_wrt (\<lambda>r s. age_key r \<le> age_key s) (sort_key age_key rs)"
    using sorted_sort_key [of age_key rs] by (simp add: sorted_map)
  then show ?thesis by (simp add: newest_first_def sorted_wrt_rev)
qed

lemma newest_first_hd:
  "newest_first rs = r # rest \<Longrightarrow> r \<in> set rs \<and> (\<forall>s \<in> set rs. age_key s \<le> age_key r)"
proof -
  assume h: "newest_first rs = r # rest"
  then have "sorted_wrt (\<lambda>r s. age_key s \<le> age_key r) (r # rest)"
    using newest_first_sorted by metis
  moreover have "set rs = insert r (set rest)"
    using h set_newest_first [of rs] by simp
  ultimately show ?thesis by simp
qed

lemma newest_first_Nil [simp]: "newest_first rs = [] \<longleftrightarrow> rs = []"
  by (metis set_empty2 set_newest_first)

text \<open>Both digest queries: the newest row with a property, or none has it.\<close>

lemma newest_digest_cases:
  assumes "(case newest_first (filter P rs) of [] \<Rightarrow> Inl e | r # _ \<Rightarrow> Inr (row_new_digest r)) = Inr d"
  shows "\<exists>r \<in> set rs. P r \<and> row_new_digest r = d \<and>
    (\<forall>s \<in> set rs. P s \<longrightarrow> age_key s \<le> age_key r)"
proof (cases "newest_first (filter P rs)")
  case (Cons r rest)
  from newest_first_hd [OF Cons] Cons assms show ?thesis by auto
next
  case Nil
  with assms show ?thesis by (simp del: newest_first_Nil)
qed

section \<open>Properties\<close>

text \<open>
  C6. Receipts are immutable. Once an entry is finished, no sequence of journal operations,
  with any arguments, at any time, and whatever database failures they meet, changes its row
  or removes it.
\<close>

theorem receipts_immutable:
  assumes "journal_inv j" and "journal_step\<^sup>*\<^sup>* j j'" and "sealed_row j i = Some r"
  shows "sealed_row j' i = Some r"
  using assms(2,1,3) by (rule jrnl.sealed_steps)

definition sample_entry :: "string \<Rightarrow> string \<Rightarrow> entry" where
  "sample_entry service d =
     \<lparr>ent_ID = 0, ent_Service = service, ent_Action = ActionDeploy, ent_Actor = ''alice'',
      ent_OldDigest = ''d0'', ent_NewDigest = d, ent_PRNumber = 0, ent_MergeSHA = [],
      ent_State = ''detected'', ent_Detail = [], ent_StartedAt = None, ent_FinishedAt = None\<rparr>"

definition sample_open :: journal where
  "sample_open = snd (journal_Begin None 5 (sample_entry ''web'' ''d1'') journal_empty)"

definition sample_sealed :: journal where
  "sample_sealed = snd (journal_Finish None 9 1 StateHealthy ''ok'' sample_open)"

lemma sample_steps: "journal_step sample_open sample_sealed"
  using write_step [of sample_open None 1 "WFinish 9 StateHealthy ''ok''"]
  by (simp add: sample_sealed_def)

lemma sample_open_inv: "journal_inv sample_open"
  unfolding sample_open_def by (intro journal_inv_Begin journal_inv_empty)

lemma sample_sealed_inv: "journal_inv sample_sealed"
  using sample_steps sample_open_inv by (rule journal_inv_step)

theorem receipts_immutable_witness:
  "\<exists>r. sealed_row sample_sealed 1 = Some r \<and> row_state r = StateHealthy \<and>
     sealed_row (snd (journal_Progress None 1 ''probing'' ''late'' sample_sealed)) 1 = Some r"
proof -
  have "journal_step sample_sealed (snd (journal_Progress None 1 ''probing'' ''late'' sample_sealed))"
    using write_step [of sample_sealed None 1 "WProgress ''probing'' ''late''"] by simp
  then have "journal_step\<^sup>*\<^sup>* sample_sealed (snd (journal_Progress None 1 ''probing'' ''late'' sample_sealed))"
    by blast
  moreover have "map_option row_state (sealed_row sample_sealed 1) = Some StateHealthy" by code_simp
  then obtain r where "sealed_row sample_sealed 1 = Some r" "row_state r = StateHealthy" by auto
  ultimately show ?thesis using receipts_immutable [OF sample_sealed_inv] by blast
qed

text \<open>
  \<open>Finish\<close> succeeds exactly once. After it has succeeded for an entry, and whatever the
  journal does in between, a second \<open>Finish\<close> is refused with \<open>ErrAlreadyFinished\<close> and changes
  nothing, and the row still holds the state and the detail of the first.
\<close>

theorem finish_once:
  assumes inv: "journal_inv j" and fin: "journal_Finish None t i st d j = (None, j1)"
    and steps: "journal_step\<^sup>*\<^sup>* j1 j2"
  shows "\<exists>e r. journal_Finish None t' i st' d' j2 = (Some e, j2) \<and> errors_is e ErrAlreadyFinished \<and>
    sealed_row j2 i = Some r \<and> row_state r = st \<and> row_detail r = d \<and> row_finished_at r = Some t"
proof -
  let ?w = "WFinish t st d"
  have j1: "journal_update None i (row_write ?w) j = (None, j1)"
    using fin by (simp add: journal_Finish_def row_write_fun)
  then obtain r where r: "journal_view j i = Some r" "row_finished_at r = None"
    using journal_update_refused [OF inv, of i "row_write ?w"] by fastforce
  then have "journal_view j1 i = Some (row_write ?w r)"
    using j1 journal_update_ok [OF inv r, of "row_write ?w"]
      journal_view_write [where f = "row_write ?w" and k = i, OF row_write_id inv r] by auto
  then have "sealed_row j1 i = Some (row_write ?w r)" by (simp add: sealed_row_def)
  moreover have inv1: "journal_inv j1"
    using journal_inv_update [of "row_write ?w" j None i] inv j1 by simp
  ultimately have s2: "sealed_row j2 i = Some (row_write ?w r)"
    using jrnl.sealed_steps [OF steps inv1] by blast
  have "journal_inv j2" using steps inv1 by (rule jrnl.inv_steps)
  moreover have v2: "journal_view j2 i = Some (row_write ?w r)"
    using s2 by (auto simp: sealed_row_def split: option.splits if_splits)
  ultimately have "journal_Finish None t' i st' d' j2 = (Some (explainNoUpdate None i j2), j2)"
    unfolding journal_Finish_def by (intro journal_update_refused) simp_all
  moreover have "errors_is (explainNoUpdate None i j2) ErrAlreadyFinished"
    using v2 by (simp add: explainNoUpdate_def journal_view_def entry_error_def
        err_AlreadyFinished_def errors_is_def)
  ultimately show ?thesis using s2 by simp
qed

theorem finish_once_witness:
  "\<exists>e. journal_Finish None 20 1 StateFailed ''again'' sample_sealed = (Some e, sample_sealed) \<and>
     errors_is e ErrAlreadyFinished"
proof -
  have "fst (journal_Finish None 9 1 StateHealthy ''ok'' sample_open) = None" by code_simp
  then have "journal_Finish None 9 1 StateHealthy ''ok'' sample_open = (None, sample_sealed)"
    by (simp add: sample_sealed_def prod_eq_iff)
  from finish_once [OF sample_open_inv this] show ?thesis by blast
qed

text \<open>
  C28. The five updates refine writes to a map of receipts. On every table that satisfies the
  invariant, an update that meets no database failure does what the abstract store does: it
  rewrites an open entry and nothing else, and refuses an unknown id with \<open>ErrNotFound\<close> and a
  finished one with \<open>ErrAlreadyFinished\<close>, leaving the table as it was.
\<close>

theorem updates_refine_receipt_map:
  assumes inv: "journal_inv j"
  shows "(map_option err_chain (fst (run_write None i w j)), abs_journal (snd (run_write None i w j))) =
    (map_option (\<lambda>s. [s]) (fst (spec_write i w (abs_journal j))), snd (spec_write i w (abs_journal j)))"
proof (cases "\<exists>r. journal_view j i = Some r \<and> row_finished_at r = None")
  case True
  then obtain r where r: "journal_view j i = Some r" "row_finished_at r = None" by blast
  have v: "journal_view (j\<lparr>j_rows := map (\<lambda>r. if open_row i r then row_write w r else r) (j_rows j)\<rparr>) k =
      (if k = i then Some (row_write w r) else journal_view j k)" for k
    by (rule journal_view_write [OF row_write_id inv r])
  have "spec_write i w (abs_journal j) = (None, (abs_journal j)(i \<mapsto> classify (row_write w r)))"
    using r by (simp add: spec_write_def abs_journal_def classify_def)
  then show ?thesis
    unfolding run_write_update journal_update_ok [OF inv r]
    by (auto simp: abs_journal_def v fun_eq_iff)
next
  case False
  then have refused: "run_write None i w j = (Some (explainNoUpdate None i j), j)"
    unfolding run_write_update by (intro journal_update_refused [OF inv]) auto
  from False show ?thesis
    unfolding refused
    by (cases "journal_view j i")
       (auto simp: spec_write_def abs_journal_def classify_def explainNoUpdate_def entry_error_def
          journal_view_def wrap_def err_NotFound_def err_AlreadyFinished_def)
qed

theorem updates_refine_receipt_map_witness:
  "map_option err_chain (fst (run_write None 1 (WSetPR 7) sample_sealed)) = Some [ErrAlreadyFinished]"
proof -
  have "\<exists>r. abs_journal sample_sealed 1 = Some (Sealed r)"
    by (simp add: abs_journal_def classify_def sample_sealed_def sample_open_def journal_empty_def
        journal_view_def journal_Begin_def new_row_def journal_Finish_def journal_update_def
        open_row_def)
  then have "spec_write 1 (WSetPR 7) (abs_journal sample_sealed) =
      (Some ErrAlreadyFinished, abs_journal sample_sealed)"
    by (auto simp: spec_write_def)
  then show ?thesis using updates_refine_receipt_map [OF sample_sealed_inv, of 1 "WSetPR 7"] by simp
qed

text \<open>
  What a bare rollback resolves to. \<open>PreviousHealthyDigest\<close> answers with the digest of the
  newest row of the service that reached healthy on a digest other than the given one, never
  the given digest and never the empty one; it answers \<open>ErrNoHealthyDeploy\<close> exactly when every
  healthy row of the service carries the given digest.
\<close>

theorem previous_healthy_digest_exact:
  "case PreviousHealthyDigest None service x j of
     Inr d \<Rightarrow> d \<noteq> x \<and> d \<noteq> [] \<and>
       (\<exists>r \<in> set (j_rows j). healthy_row service r \<and> row_new_digest r = d \<and>
          (\<forall>q \<in> set (j_rows j). healthy_row service q \<and> row_new_digest q \<noteq> x \<longrightarrow> age_key q \<le> age_key r))
   | Inl e \<Rightarrow> errors_is e ErrNoHealthyDeploy \<and>
       (\<forall>q \<in> set (j_rows j). healthy_row service q \<longrightarrow> row_new_digest q = x)"
proof (cases "newest_first (filter (\<lambda>r. healthy_row service r \<and> row_new_digest r \<noteq> x) (j_rows j))")
  case Nil
  then have "\<forall>q \<in> set (j_rows j). healthy_row service q \<longrightarrow> row_new_digest q = x"
    by (auto simp: filter_empty_conv)
  with Nil show ?thesis
    by (simp add: PreviousHealthyDigest_def query_fault_def errors_is_def err_NoHealthyDeploy_def
        del: newest_first_Nil)
next
  case (Cons r rest)
  from newest_first_hd [OF Cons] Cons show ?thesis
    by (auto simp: PreviousHealthyDigest_def query_fault_def healthy_row_def)
qed

definition sample_two_healthy :: journal where
  "sample_two_healthy =
     snd (journal_Finish None 30 2 StateHealthy ''ok''
       (snd (journal_Begin None 20 (sample_entry ''web'' ''d2'') sample_sealed)))"

theorem previous_healthy_digest_exact_witness:
  "PreviousHealthyDigest None ''web'' ''d2'' sample_two_healthy = Inr ''d1'' \<and> ''d1'' \<noteq> ''d2''"
proof -
  have "PreviousHealthyDigest None ''web'' ''d2'' sample_two_healthy = Inr ''d1''" by code_simp
  then show ?thesis
    using previous_healthy_digest_exact [where service = "''web''" and x = "''d2''" and j = sample_two_healthy] by auto
qed

text \<open>
  The history window. \<open>Recent\<close> returns, newest first, as many of the service's rows as the
  limit allows (20 when the caller's limit is not positive), all of this service, and every
  row it leaves out is no newer than any it returns.
\<close>

theorem recent_window:
  "\<exists>shown left_out.
    journal_Recent None service n j = Inr (map scanEntry shown) \<and>
    length shown = min (history_limit n) (length (filter (\<lambda>r. row_service r = service) (j_rows j))) \<and>
    mset (shown @ left_out) = mset (filter (\<lambda>r. row_service r = service) (j_rows j)) \<and>
    sorted_wrt (\<lambda>r s. age_key s \<le> age_key r) (shown @ left_out)"
proof -
  let ?rs = "newest_first (filter (\<lambda>r. row_service r = service) (j_rows j))"
  have "journal_Recent None service n j = Inr (map scanEntry (take (history_limit n) ?rs))"
    by (simp add: journal_Recent_def query_fault_def)
  moreover have "mset ?rs = mset (filter (\<lambda>r. row_service r = service) (j_rows j))"
    by (simp add: newest_first_def)
  moreover have "take (history_limit n) ?rs @ drop (history_limit n) ?rs = ?rs" by simp
  ultimately show ?thesis
    using newest_first_sorted [of "filter (\<lambda>r. row_service r = service) (j_rows j)"]
    by (intro exI [of _ "take (history_limit n) ?rs"] exI [of _ "drop (history_limit n) ?rs"]) (simp add: min.commute)
qed

end
