(* ===== verification/Interaction.thy ===== *)
theory Interaction
  imports Manifest Journal
begin

text \<open>
  The form in which the engine is modelled: a program that calls the interfaces the engine is
  built on and goes on with each possible answer. The calls are those of the interfaces
  \<open>ConfigRepo\<close>, \<open>PRClient\<close>, \<open>Store\<close> and \<open>Inspector\<close> of \<open>internal/deploy\<close>, of
  \<open>Systemd\<close> and the health probe of \<open>internal/reconcile\<close>, and of the Go runtime (locks, timers,
  the context, the clock). Nothing is assumed of the answers, so a theorem on all traces of a
  program holds against every repository, forge, host, clock and scheduler.

  A trace is the list of calls with the answers they got, a handler answers calls from a state
  of its own, and a monitor is an automaton that reads traces: \<open>safe\<close> says that it accepts
  every trace of a program, and its rules execute the program symbolically.
\<close>

record event =
  ev_Service :: string
  ev_Action :: string
  ev_State :: string
  ev_Detail :: string
  ev_JournalID :: int
  ev_PRNumber :: int
  ev_PRURL :: string
  ev_MergeURL :: string
  ev_At :: int

section \<open>Calls\<close>

text \<open>Calls without an answer, with an error, and with a string or an error.\<close>

datatype ucall =
    Notify event
  | UnlockService string
  | LockMerge
  | UnlockMerge
  | QueuedAdd int

datatype ecall =
    WriteUnit string string
  | ReloadAndRestart string
  | ProbeHealth string int int
  | JProgress int string string
  | JFinish int string string
  | JSetPR int int
  | JSetDigests int string string
  | JSetMergeSHA int string
  | PRUpdateBranch int
  | PRClose int string
  | LockService string
  | CtxErr

datatype scall =
    RepoSync
  | RepoTemplate string
  | RunningImage string
  | PRMerge int

datatype prog =
    Stop
  | UCall ucall prog
  | ECall ecall "go_error option \<Rightarrow> prog"
  | SCall scall "string result \<Rightarrow> prog"
  | RepoManifest string "(manifest \<times> string) result \<Rightarrow> prog"
  | RepoSyncState "bool \<times> go_error option \<Rightarrow> prog"
  | OpenManifestPR string string string string "int result \<Rightarrow> prog"
  | WaitChecks int int "(bool \<times> string) result \<Rightarrow> prog"
  | Pause int "bool \<Rightarrow> prog"
  | Now "int \<Rightarrow> prog"

text \<open>
  \<open>Pause d\<close> is a \<open>select\<close> between the end of the context (answer \<open>True\<close>) and a timer of \<open>d\<close>.
  \<open>LockService\<close> is the \<open>select\<close> between entering the service's channel and the end of the
  context. A trace element is a call with its answer.
\<close>

datatype obs =
    OU ucall
  | OE ecall "go_error option"
  | OS scall "string result"
  | OManifest string "(manifest \<times> string) result"
  | OSyncState "bool \<times> go_error option"
  | OOpenPR string string string string "int result"
  | OWaitChecks int int "(bool \<times> string) result"
  | OPause int bool
  | ONow int

primrec trace :: "prog \<Rightarrow> obs list \<Rightarrow> bool" where
  "trace Stop t = (t = [])"
| "trace (UCall c p) t = (case t of OU c' # t' \<Rightarrow> c' = c \<and> trace p t' | _ \<Rightarrow> False)"
| "trace (ECall c k) t = (case t of OE c' r # t' \<Rightarrow> c' = c \<and> trace (k r) t' | _ \<Rightarrow> False)"
| "trace (SCall c k) t = (case t of OS c' r # t' \<Rightarrow> c' = c \<and> trace (k r) t' | _ \<Rightarrow> False)"
| "trace (RepoManifest s k) t =
     (case t of OManifest s' r # t' \<Rightarrow> s' = s \<and> trace (k r) t' | _ \<Rightarrow> False)"
| "trace (RepoSyncState k) t = (case t of OSyncState r # t' \<Rightarrow> trace (k r) t' | _ \<Rightarrow> False)"
| "trace (OpenManifestPR s c ti b k) t =
     (case t of OOpenPR s' c' ti' b' r # t' \<Rightarrow>
        s' = s \<and> c' = c \<and> ti' = ti \<and> b' = b \<and> trace (k r) t' | _ \<Rightarrow> False)"
| "trace (WaitChecks n d k) t =
     (case t of OWaitChecks n' d' r # t' \<Rightarrow> n' = n \<and> d' = d \<and> trace (k r) t' | _ \<Rightarrow> False)"
| "trace (Pause d k) t = (case t of OPause d' r # t' \<Rightarrow> d' = d \<and> trace (k r) t' | _ \<Rightarrow> False)"
| "trace (Now k) t = (case t of ONow r # t' \<Rightarrow> trace (k r) t' | _ \<Rightarrow> False)"

text \<open>Which traces a program has, by its first call.\<close>

lemma trace_Stop: "trace Stop t \<longleftrightarrow> t = []"
  by simp

lemma trace_UCall: "trace (UCall c p) t \<longleftrightarrow> (\<exists>u. t = OU c # u \<and> trace p u)"
  by (auto split: list.splits obs.splits)

lemma trace_ECall: "trace (ECall c k) t \<longleftrightarrow> (\<exists>r u. t = OE c r # u \<and> trace (k r) u)"
  by (auto split: list.splits obs.splits)

lemma trace_SCall: "trace (SCall c k) t \<longleftrightarrow> (\<exists>r u. t = OS c r # u \<and> trace (k r) u)"
  by (auto split: list.splits obs.splits)

lemma trace_RepoManifest:
  "trace (RepoManifest n k) t \<longleftrightarrow> (\<exists>r u. t = OManifest n r # u \<and> trace (k r) u)"
  by (auto split: list.splits obs.splits)

lemma trace_RepoSyncState:
  "trace (RepoSyncState k) t \<longleftrightarrow> (\<exists>r u. t = OSyncState r # u \<and> trace (k r) u)"
  by (auto split: list.splits obs.splits)

lemma trace_OpenManifestPR:
  "trace (OpenManifestPR n c ti b k) t \<longleftrightarrow> (\<exists>r u. t = OOpenPR n c ti b r # u \<and> trace (k r) u)"
  by (auto split: list.splits obs.splits)

lemma trace_WaitChecks:
  "trace (WaitChecks n d k) t \<longleftrightarrow> (\<exists>r u. t = OWaitChecks n d r # u \<and> trace (k r) u)"
  by (auto split: list.splits obs.splits)

lemma trace_Pause: "trace (Pause d k) t \<longleftrightarrow> (\<exists>r u. t = OPause d r # u \<and> trace (k r) u)"
  by (auto split: list.splits obs.splits)

lemma trace_Now: "trace (Now k) t \<longleftrightarrow> (\<exists>r u. t = ONow r # u \<and> trace (k r) u)"
  by (auto split: list.splits obs.splits)

lemmas trace_rules = trace_Stop trace_UCall trace_ECall trace_SCall trace_RepoManifest
  trace_RepoSyncState trace_OpenManifestPR trace_WaitChecks trace_Pause trace_Now

section \<open>Handlers\<close>

record 'w handler =
  h_u :: "ucall \<Rightarrow> 'w \<Rightarrow> 'w"
  h_e :: "ecall \<Rightarrow> 'w \<Rightarrow> go_error option \<times> 'w"
  h_s :: "scall \<Rightarrow> 'w \<Rightarrow> string result \<times> 'w"
  h_manifest :: "string \<Rightarrow> 'w \<Rightarrow> (manifest \<times> string) result \<times> 'w"
  h_sync_state :: "'w \<Rightarrow> (bool \<times> go_error option) \<times> 'w"
  h_open_pr :: "string \<Rightarrow> string \<Rightarrow> string \<Rightarrow> string \<Rightarrow> 'w \<Rightarrow> int result \<times> 'w"
  h_wait_checks :: "int \<Rightarrow> int \<Rightarrow> 'w \<Rightarrow> (bool \<times> string) result \<times> 'w"
  h_pause :: "int \<Rightarrow> 'w \<Rightarrow> bool \<times> 'w"
  h_now :: "'w \<Rightarrow> int \<times> 'w"

primrec exec :: "'w handler \<Rightarrow> prog \<Rightarrow> 'w \<Rightarrow> obs list \<times> 'w" where
  "exec h Stop w = ([], w)"
| "exec h (UCall c p) w = (let (t, w') = exec h p (h_u h c w) in (OU c # t, w'))"
| "exec h (ECall c k) w =
     (case h_e h c w of (r, w1) \<Rightarrow> let (t, w') = exec h (k r) w1 in (OE c r # t, w'))"
| "exec h (SCall c k) w =
     (case h_s h c w of (r, w1) \<Rightarrow> let (t, w') = exec h (k r) w1 in (OS c r # t, w'))"
| "exec h (RepoManifest s k) w =
     (case h_manifest h s w of (r, w1) \<Rightarrow>
        let (t, w') = exec h (k r) w1 in (OManifest s r # t, w'))"
| "exec h (RepoSyncState k) w =
     (case h_sync_state h w of (r, w1) \<Rightarrow>
        let (t, w') = exec h (k r) w1 in (OSyncState r # t, w'))"
| "exec h (OpenManifestPR s c ti b k) w =
     (case h_open_pr h s c ti b w of (r, w1) \<Rightarrow>
        let (t, w') = exec h (k r) w1 in (OOpenPR s c ti b r # t, w'))"
| "exec h (WaitChecks n d k) w =
     (case h_wait_checks h n d w of (r, w1) \<Rightarrow>
        let (t, w') = exec h (k r) w1 in (OWaitChecks n d r # t, w'))"
| "exec h (Pause d k) w =
     (case h_pause h d w of (r, w1) \<Rightarrow> let (t, w') = exec h (k r) w1 in (OPause d r # t, w'))"
| "exec h (Now k) w =
     (case h_now h w of (r, w1) \<Rightarrow> let (t, w') = exec h (k r) w1 in (ONow r # t, w'))"

text \<open>What a handler executes is a trace; in particular every program runs to its end.\<close>

lemma exec_trace: "trace p (fst (exec h p w))"
  by (induction p arbitrary: w) (auto simp: Let_def split_beta)

section \<open>Monitors\<close>

type_synonym 's monitor = "'s \<Rightarrow> obs \<Rightarrow> 's option"

fun accepts :: "'s monitor \<Rightarrow> ('s \<Rightarrow> bool) \<Rightarrow> 's \<Rightarrow> obs list \<Rightarrow> bool" where
  "accepts mon fin s [] = fin s"
| "accepts mon fin s (x # t) =
     (case mon s x of None \<Rightarrow> False | Some s' \<Rightarrow> accepts mon fin s' t)"

definition safe :: "'s monitor \<Rightarrow> ('s \<Rightarrow> bool) \<Rightarrow> 's \<Rightarrow> prog \<Rightarrow> bool" where
  "safe mon fin s p \<longleftrightarrow> (\<forall>t. trace p t \<longrightarrow> accepts mon fin s t)"

text \<open>After one observation: the monitor accepts it and the rest is safe from where it got to.\<close>

definition after :: "'s monitor \<Rightarrow> ('s \<Rightarrow> bool) \<Rightarrow> 's option \<Rightarrow> prog \<Rightarrow> bool" where
  "after mon fin o' p = (case o' of None \<Rightarrow> False | Some s \<Rightarrow> safe mon fin s p)"

lemma after_simps [simp]:
  "after mon fin None p = False"
  "after mon fin (Some s) p = safe mon fin s p"
  by (simp_all add: after_def)

lemma after_if [simp]:
  "after mon fin (if b then x else y) p = (if b then after mon fin x p else after mon fin y p)"
  by simp

lemma trace_ex: "\<exists>t. trace p t"
  by (rule exI [of _ "fst (exec (undefined :: unit handler) p ())"]) (rule exec_trace)

lemma safe_Stop: "safe mon fin s Stop = fin s"
  by (simp add: safe_def)

lemma safe_step:
  assumes tr: "\<And>t. trace q t \<longleftrightarrow> (\<exists>r u. t = f r # u \<and> trace (k r) u)"
  shows "safe mon fin s q = (\<forall>r. after mon fin (mon s (f r)) (k r))"
proof -
  have "after mon fin (mon s (f r)) (k r) = (\<forall>u. trace (k r) u \<longrightarrow> accepts mon fin s (f r # u))" for r
    using trace_ex [of "k r"] by (cases "mon s (f r)") (auto simp: safe_def)
  moreover have "safe mon fin s q = (\<forall>r u. trace (k r) u \<longrightarrow> accepts mon fin s (f r # u))"
    unfolding safe_def tr by blast
  ultimately show ?thesis by (simp only:)
qed

lemma safe_UCall: "safe mon fin s (UCall c p) = after mon fin (mon s (OU c)) p"
  using safe_step [of "UCall c p" "\<lambda>_::unit. OU c" "\<lambda>_. p"] by (simp add: trace_UCall del: trace.simps)

lemma safe_ECall: "safe mon fin s (ECall c k) = (\<forall>r. after mon fin (mon s (OE c r)) (k r))"
  by (intro safe_step trace_ECall)

lemma safe_SCall: "safe mon fin s (SCall c k) = (\<forall>r. after mon fin (mon s (OS c r)) (k r))"
  by (intro safe_step trace_SCall)

lemma safe_RepoManifest:
  "safe mon fin s (RepoManifest n k) = (\<forall>r. after mon fin (mon s (OManifest n r)) (k r))"
  by (intro safe_step trace_RepoManifest)

lemma safe_RepoSyncState:
  "safe mon fin s (RepoSyncState k) = (\<forall>r. after mon fin (mon s (OSyncState r)) (k r))"
  by (intro safe_step trace_RepoSyncState)

lemma safe_OpenManifestPR:
  "safe mon fin s (OpenManifestPR n c ti b k) =
     (\<forall>r. after mon fin (mon s (OOpenPR n c ti b r)) (k r))"
  by (intro safe_step trace_OpenManifestPR)

lemma safe_WaitChecks:
  "safe mon fin s (WaitChecks n d k) = (\<forall>r. after mon fin (mon s (OWaitChecks n d r)) (k r))"
  by (intro safe_step trace_WaitChecks)

lemma safe_Pause: "safe mon fin s (Pause d k) = (\<forall>r. after mon fin (mon s (OPause d r)) (k r))"
  by (intro safe_step trace_Pause)

lemma safe_Now: "safe mon fin s (Now k) = (\<forall>r. after mon fin (mon s (ONow r)) (k r))"
  by (intro safe_step trace_Now)

lemmas safe_rules = safe_Stop safe_UCall safe_ECall safe_SCall safe_RepoManifest
  safe_RepoSyncState safe_OpenManifestPR safe_WaitChecks safe_Pause safe_Now

lemma safe_accepts: "safe mon fin s p \<Longrightarrow> trace p t \<Longrightarrow> accepts mon fin s t"
  by (simp add: safe_def)

end
