(* ===== verification/Reconcile.thy ===== *)
theory Reconcile
  imports Interaction
begin

text \<open>
  The package \<open>internal/reconcile\<close>: rendering, the applier's fixed sequence of steps, the
  durable installation of a unit file, the probe loop and the container lookup. The template
  engine, the kernel's file operations, \<open>systemctl\<close>, \<open>podman\<close> and the HTTP answers are
  arguments or calls.
\<close>

section \<open>Rendering\<close>

text \<open>The third-party and library functions the manifests go through.\<close>

record externals =
  x_yaml :: "string \<Rightarrow> manifest result"
  x_url :: "string \<Rightarrow> go_url result"
  x_tmpl_parse :: "string \<Rightarrow> go_error option"
  x_tmpl_exec :: "string \<Rightarrow> manifest \<Rightarrow> string result"

record applier =
  ap_Lim :: limits
  ap_ProbeInterval :: int

definition UnitName :: "string \<Rightarrow> string" where
  "UnitName service = service @ ''.container''"

definition Render :: "externals \<Rightarrow> string \<Rightarrow> manifest \<Rightarrow> string result" where
  "Render x tmpl m =
     (case x_tmpl_parse x tmpl of
        Some e \<Rightarrow> Inl (wrap ''parse template: '' e)
      | None \<Rightarrow>
          (case x_tmpl_exec x tmpl m of
             Inl e \<Rightarrow> Inl (wrap ''render template: '' e)
           | Inr text \<Rightarrow> Inr text))"

section \<open>The applier\<close>

definition PhaseRestarting :: string where [simp]: "PhaseRestarting = ''restarting''"
definition PhaseProbing :: string where [simp]: "PhaseProbing = ''probing''"

text \<open>
  \<open>Applier.Apply\<close>. \<open>on_phase\<close> is the caller's phase function put in front of the rest of the
  program, and \<open>k\<close> is what the caller does with the error.
\<close>

definition Apply ::
    "externals \<Rightarrow> applier \<Rightarrow> manifest \<Rightarrow> string \<Rightarrow> (string \<Rightarrow> prog \<Rightarrow> prog) \<Rightarrow>
     (go_error option \<Rightarrow> prog) \<Rightarrow> prog" where
  "Apply x a m tmpl on_phase k =
     (case Validate (x_url x) (ap_Lim a) m of
        Some e \<Rightarrow> k (Some (wrap (''manifest '' @ m_Name m @ '' is invalid: '') e))
      | None \<Rightarrow>
     (case Render x tmpl m of
        Inl e \<Rightarrow> k (Some (wrap (''render '' @ m_Name m @ '': '') e))
      | Inr unit_text \<Rightarrow>
     (case ValidateRendered unit_text of
        Some e \<Rightarrow> k (Some (wrap (''rendered unit for '' @ m_Name m @ '' is unsafe: '') e))
      | None \<Rightarrow>
     ECall (WriteUnit (UnitName (m_Name m)) unit_text) (\<lambda>r. case r of
        Some e \<Rightarrow> k (Some (wrap (''write unit for '' @ m_Name m @ '': '') e))
      | None \<Rightarrow>
     on_phase PhaseRestarting
     (ECall (ReloadAndRestart (m_Name m)) (\<lambda>r. case r of
        Some e \<Rightarrow> k (Some (wrap (''restart '' @ m_Name m @ '': '') e))
      | None \<Rightarrow>
     on_phase PhaseProbing
     (ECall (ProbeHealth (h_URL (m_Health m)) (h_Timeout (m_Health m)) (ap_ProbeInterval a)) (\<lambda>r.
        case r of
          Some e \<Rightarrow> k (Some (wrap (m_Name m @ '' did not become healthy: '') e))
        | None \<Rightarrow> k None))))))))"

text \<open>The unit text the applier lets reach the host.\<close>

definition admissible_unit :: "externals \<Rightarrow> applier \<Rightarrow> manifest \<Rightarrow> string \<Rightarrow> string \<Rightarrow> bool" where
  "admissible_unit x a m tmpl unit_text \<longleftrightarrow>
     Validate (x_url x) (ap_Lim a) m = None \<and> Render x tmpl m = Inr unit_text \<and>
     ValidateRendered unit_text = None"

lemma Apply_admissible:
  "admissible_unit x a m tmpl u \<Longrightarrow>
   Apply x a m tmpl on_phase k =
     ECall (WriteUnit (UnitName (m_Name m)) u) (\<lambda>r. case r of
        Some e \<Rightarrow> k (Some (wrap (''write unit for '' @ m_Name m @ '': '') e))
      | None \<Rightarrow>
     on_phase PhaseRestarting
     (ECall (ReloadAndRestart (m_Name m)) (\<lambda>r. case r of
        Some e \<Rightarrow> k (Some (wrap (''restart '' @ m_Name m @ '': '') e))
      | None \<Rightarrow>
     on_phase PhaseProbing
     (ECall (ProbeHealth (h_URL (m_Health m)) (h_Timeout (m_Health m)) (ap_ProbeInterval a)) (\<lambda>r.
        case r of
          Some e \<Rightarrow> k (Some (wrap (m_Name m @ '' did not become healthy: '') e))
        | None \<Rightarrow> k None)))))"
  unfolding admissible_unit_def Apply_def
  by (elim conjE) (simp only: option.case sum.case)

lemma Apply_refused:
  assumes "\<nexists>u. admissible_unit x a m tmpl u"
  shows "\<exists>e. Apply x a m tmpl on_phase k = k (Some e)"
proof (cases "Validate (x_url x) (ap_Lim a) m")
  case None
  show ?thesis
  proof (cases "Render x tmpl m")
    case (Inr u)
    then obtain e where "ValidateRendered u = Some e"
      using assms None by (auto simp: admissible_unit_def)
    then show ?thesis unfolding Apply_def None Inr option.case sum.case by (simp only: option.case) blast
  qed (unfold Apply_def None option.case, simp only: sum.case, blast)
qed (unfold Apply_def, simp only: option.case, blast)

section \<open>Installing a unit file\<close>

text \<open>
  \<open>userSystemd.WriteUnit\<close> is a sequence of file operations. The directory is a map from names
  to contents; the temporary name is the one \<open>os.CreateTemp\<close> chose. A failing operation ends
  the sequence, and the deferred \<open>os.Remove\<close> runs whatever the outcome. \<open>fails\<close> says which
  operation fails, with its error.
\<close>

datatype fs_op = FsMkdir | FsCreateTemp | FsWrite | FsSync | FsClose | FsChmod | FsRename
  | FsOpenDir | FsSyncDir

type_synonym dir = "string \<rightharpoonup> string"

text \<open>A write may fail half way: \<open>partial\<close> is what has reached the file by then.\<close>

fun fs_effect :: "string \<Rightarrow> string \<Rightarrow> string \<Rightarrow> fs_op \<Rightarrow> dir \<Rightarrow> dir" where
  "fs_effect tmp final content FsCreateTemp d = d(tmp \<mapsto> [])"
| "fs_effect tmp final content FsWrite d = d(tmp \<mapsto> content)"
| "fs_effect tmp final content FsRename d = d(final := d tmp, tmp := None)"
| "fs_effect tmp final content _ d = d"

definition fs_context :: "fs_op \<Rightarrow> string" where
  "fs_context op =
     (case op of
        FsMkdir \<Rightarrow> ''create unit directory: '' | FsCreateTemp \<Rightarrow> ''create temporary unit: ''
      | FsWrite \<Rightarrow> ''write unit: '' | FsSync \<Rightarrow> ''sync unit: '' | FsClose \<Rightarrow> ''close unit: ''
      | FsChmod \<Rightarrow> ''chmod unit: '' | FsRename \<Rightarrow> ''install unit: ''
      | FsOpenDir \<Rightarrow> ''open unit directory: '' | FsSyncDir \<Rightarrow> ''sync unit directory: '')"

definition write_unit_ops :: "fs_op list" where
  "write_unit_ops =
     [FsMkdir, FsCreateTemp, FsWrite, FsSync, FsClose, FsChmod, FsRename, FsOpenDir,
      FsSyncDir]"

definition unit_name_refused :: "string \<Rightarrow> bool" where
  "unit_name_refused name \<longleftrightarrow> Contains name ''/'' \<or> Contains name ''..''"

text \<open>The directories a run of the operations goes through, the failed one's remains included.\<close>

fun run_ops ::
    "string \<Rightarrow> string \<Rightarrow> string \<Rightarrow> (fs_op \<Rightarrow> go_error option) \<Rightarrow> string \<Rightarrow> fs_op list \<Rightarrow> dir \<Rightarrow>
     go_error option \<times> dir list" where
  "run_ops tmp final content fails partial [] d = (None, [d])"
| "run_ops tmp final content fails partial (op # ops) d =
     (case fails op of
        Some e \<Rightarrow> (Some (wrap (fs_context op) e),
                   [d, if op = FsWrite then d(tmp \<mapsto> partial) else d])
      | None \<Rightarrow>
          (case run_ops tmp final content fails partial ops (fs_effect tmp final content op d) of
             (e, ds) \<Rightarrow> (e, d # ds)))"

text \<open>
  The result of \<open>WriteUnit\<close> and every directory a crash could leave behind: those of the run,
  and the last one with the temporary file removed.
\<close>

definition write_unit ::
    "string \<Rightarrow> string \<Rightarrow> string \<Rightarrow> (fs_op \<Rightarrow> go_error option) \<Rightarrow> string \<Rightarrow> dir \<Rightarrow>
     go_error option \<times> dir list" where
  "write_unit tmp name content fails partial d =
     (if unit_name_refused name
      then (Some (errorf (''unit name '' @ quote name @ '' is not a plain file name'')), [d])
      else case run_ops tmp name content fails partial write_unit_ops d of
        (e, ds) \<Rightarrow> (e, if fails FsMkdir \<noteq> None \<or> fails FsCreateTemp \<noteq> None
                        then ds else ds @ [(last ds)(tmp := None)]))"

section \<open>The probe loop\<close>

text \<open>
  One round of \<open>Probe\<close>: what \<open>probeOnce\<close> answered, whether the context was over when it had
  answered, and which arm the \<open>select\<close> took (\<open>True\<close> for the end of the context).
\<close>

datatype probe_answer = NoRequest go_error | NoAnswer go_error | Answered nat

record probe_round =
  pr_answer :: probe_answer
  pr_expired :: bool
  pr_done :: bool

definition probeOnce :: "probe_answer \<Rightarrow> go_error option" where
  "probeOnce answer =
     (case answer of
        NoRequest e \<Rightarrow> Some (wrap ''build probe request: '' e)
      | NoAnswer e \<Rightarrow> Some (wrap ''probe request: '' e)
      | Answered status \<Rightarrow>
          if status < 200 \<or> status > 299
          then Some (errorf (''probe answered '' @ Itoa (int status))) else None)"

definition DefaultProbeInterval :: int where
  "DefaultProbeInterval = 2 * 10 ^ 9"

definition probe_timeout :: "int \<Rightarrow> int" where
  "probe_timeout t = (if t \<le> 0 then DefaultHealthTimeout else t)"

definition probe_interval :: "int \<Rightarrow> int" where
  "probe_interval i = (if i \<le> 0 then DefaultProbeInterval else i)"

text \<open>\<open>Probe\<close> over the rounds there are: \<open>None\<close> while it is still polling.\<close>

fun probe_rounds ::
    "string \<Rightarrow> int \<Rightarrow> go_error option \<Rightarrow> probe_round list \<Rightarrow> go_error option option" where
  "probe_rounds url timeout lst [] = None"
| "probe_rounds url timeout lst (r # rs) =
     (case probeOnce (pr_answer r) of
        None \<Rightarrow> Some None
      | Some e \<Rightarrow>
          let lst' = (if \<not> pr_expired r \<or> lst = None then Some e else lst) in
          if pr_done r
          then Some (Some (wrap (''health probe '' @ url @ '' did not pass within ''
                                 @ Duration_String timeout @ '': '') (the lst')))
          else probe_rounds url timeout lst' rs)"

definition Probe :: "string \<Rightarrow> int \<Rightarrow> probe_round list \<Rightarrow> go_error option option" where
  "Probe url timeout rounds = probe_rounds url (probe_timeout timeout) None rounds"

section \<open>What is running\<close>

definition ContainerNames :: "string \<Rightarrow> string list" where
  "ContainerNames service = [service, ''systemd-'' @ service]"

fun inspect_names ::
    "(string \<Rightarrow> string result) \<Rightarrow> string list \<Rightarrow> go_error option \<Rightarrow> string + go_error option" where
  "inspect_names inspect [] lst = Inr lst"
| "inspect_names inspect (n # ns) lst =
     (case inspect n of
        Inl e \<Rightarrow> inspect_names inspect ns (Some e)
      | Inr out \<Rightarrow>
          if TrimSpace out \<noteq> [] then Inl (TrimSpace out)
          else inspect_names inspect ns
            (Some (errorf (''podman reported no image digest for container '' @ n))))"

text \<open>\<open>userSystemd.RunningImage\<close>; \<open>inspect\<close> is \<open>podman inspect\<close> on one container name.\<close>

definition host_RunningImage :: "(string \<Rightarrow> string result) \<Rightarrow> string \<Rightarrow> string result" where
  "host_RunningImage inspect service =
     (case inspect_names inspect (ContainerNames service) None of
        Inl d \<Rightarrow> Inr d
      | Inr lst \<Rightarrow>
          Inl (wrap (''no container found for '' @ service @ '' (tried ''
                     @ join_with '', '' (ContainerNames service) @ ''): '') (the lst)))"

text \<open>\<open>ReloadAndRestart\<close>: two \<open>systemctl\<close> runs, the second only after the first.\<close>

definition host_ReloadAndRestart ::
    "(string list \<Rightarrow> 'w \<Rightarrow> go_error option \<times> 'w) \<Rightarrow> string \<Rightarrow> 'w \<Rightarrow> go_error option \<times> 'w" where
  "host_ReloadAndRestart systemctl service w =
     (case systemctl [''--user'', ''daemon-reload''] w of
        (Some e, w1) \<Rightarrow> (Some e, w1)
      | (None, w1) \<Rightarrow> systemctl [''--user'', ''restart'', service @ ''.service''] w1)"

section \<open>What the applier guarantees\<close>

text \<open>
  The steps the applier may take on its own, and whether it reports success: nothing for a refused
  manifest; otherwise the admissible unit is written, then the service restarted, then probed,
  each step only after the one before it succeeded.
\<close>

definition applier_steps ::
    "externals \<Rightarrow> applier \<Rightarrow> manifest \<Rightarrow> string \<Rightarrow> obs list \<Rightarrow> bool \<Rightarrow> bool" where
  "applier_steps x a m tmpl steps ok \<longleftrightarrow>
     (\<nexists>u. admissible_unit x a m tmpl u) \<and> steps = [] \<and> \<not> ok \<or>
     (\<exists>u write restart probe. admissible_unit x a m tmpl u \<and>
        write = OE (WriteUnit (UnitName (m_Name m)) u) \<and>
        restart = OE (ReloadAndRestart (m_Name m)) \<and>
        probe = OE (ProbeHealth (h_URL (m_Health m)) (h_Timeout (m_Health m)) (ap_ProbeInterval a)) \<and>
        (\<exists>e. steps = [write (Some e)] \<and> \<not> ok \<or>
             steps = [write None, restart (Some e)] \<and> \<not> ok \<or>
             steps = [write None, restart None, probe (Some e)] \<and> \<not> ok \<or>
             steps = [write None, restart None, probe None] \<and> ok))"

lemma ex_opt: "(\<exists>r. P r) \<longleftrightarrow> P None \<or> (\<exists>e. P (Some e))"
  by (metis not_None_eq)

lemma ex_bool: "(\<exists>b. P b) \<longleftrightarrow> P True \<or> P False"
  by (metis (full_types))

lemma steps_split:
  fixes t :: "'o list"
  shows "(\<exists>e rest. t = w (Some e) # rest \<and> P False rest) \<or>
    (\<exists>e rest. t = w None # s (Some e) # rest \<and> P False rest) \<or>
    (\<exists>e rest. t = w None # s None # p (Some e) # rest \<and> P False rest) \<or>
    (\<exists>rest. t = w None # s None # p None # rest \<and> P True rest) \<longleftrightarrow>
    (\<exists>steps ok rest. t = steps @ rest \<and>
       (\<exists>e. steps = [w (Some e)] \<and> \<not> ok \<or> steps = [w None, s (Some e)] \<and> \<not> ok \<or>
            steps = [w None, s None, p (Some e)] \<and> \<not> ok \<or> steps = [w None, s None, p None] \<and> ok) \<and>
       P ok rest)" (is "?runs \<longleftrightarrow> ?split")
proof
  assume ?runs
  then show ?split by (elim disjE exE conjE) (metis append_Cons append_Nil)+
next
  assume ?split
  then show ?runs by auto
qed

text \<open>
  C9. The applier's order is fixed. Its runs (with the phase reports left out) are exactly the
  steps of \<open>applier_steps\<close>, after which the caller goes on, told of success only when every step
  succeeded: a template that escapes the manifest rules never reaches the unit directory, nothing
  is restarted without a written unit, and nothing is called healthy without a passed probe.
\<close>

theorem apply_order_exact:
  "trace (Apply x a m tmpl (\<lambda>_ p. p) (\<lambda>r. k (r = None))) t \<longleftrightarrow>
     (\<exists>steps ok rest. t = steps @ rest \<and> applier_steps x a m tmpl steps ok \<and> trace (k ok) rest)"
proof (cases "\<exists>u. admissible_unit x a m tmpl u")
  case True
  then obtain u where u: "admissible_unit x a m tmpl u" ..
  then have un: "admissible_unit x a m tmpl v \<longleftrightarrow> v = u" for v
    by (auto simp: admissible_unit_def)
  define w where "w = OE (WriteUnit (UnitName (m_Name m)) u)"
  define s where "s = OE (ReloadAndRestart (m_Name m))"
  define p where
    "p = OE (ProbeHealth (h_URL (m_Health m)) (h_Timeout (m_Health m)) (ap_ProbeInterval a))"
  have verdict: "(None = (None :: go_error option)) = True" "(Some (e :: go_error) = None) = False"
    for e by simp_all
  have "trace (Apply x a m tmpl (\<lambda>_ p. p) (\<lambda>r. k (r = None))) t \<longleftrightarrow>
      (\<exists>e rest. t = w (Some e) # rest \<and> trace (k False) rest) \<or>
      (\<exists>e rest. t = w None # s (Some e) # rest \<and> trace (k False) rest) \<or>
      (\<exists>e rest. t = w None # s None # p (Some e) # rest \<and> trace (k False) rest) \<or>
      (\<exists>rest. t = w None # s None # p None # rest \<and> trace (k True) rest)"
    unfolding Apply_admissible [OF u] trace_ECall ex_opt option.case verdict w_def s_def p_def
    by blast
  moreover have "applier_steps x a m tmpl steps ok \<longleftrightarrow>
      (\<exists>e. steps = [w (Some e)] \<and> \<not> ok \<or> steps = [w None, s (Some e)] \<and> \<not> ok \<or>
        steps = [w None, s None, p (Some e)] \<and> \<not> ok \<or> steps = [w None, s None, p None] \<and> ok)" for steps ok
    unfolding applier_steps_def un w_def s_def p_def by blast
  ultimately show ?thesis unfolding steps_split [of t w "\<lambda>ok rest. trace (k ok) rest"] by simp
next
  case False
  have "Apply x a m tmpl (\<lambda>_ p. p) (\<lambda>r. k (r = None)) = k False"
    using Apply_refused [OF False, of "\<lambda>_ p. p" "\<lambda>r. k (r = None)"] by (elim exE) (simp only: option.distinct)
  with False show ?thesis by (auto simp: applier_steps_def)
qed

section \<open>What the durable write guarantees\<close>

lemma set_write_unit_ops: "op \<in> set write_unit_ops"
  by (cases op) (simp_all add: write_unit_ops_def)

lemma run_ops_ok:
  "fails op = None \<Longrightarrow> run_ops tmp final content fails partial (op # ops) d =
     (fst (run_ops tmp final content fails partial ops (fs_effect tmp final content op d)),
      d # snd (run_ops tmp final content fails partial ops (fs_effect tmp final content op d)))"
  by (simp add: split_beta)

lemma run_ops_failed:
  "fails op = Some e \<Longrightarrow> run_ops tmp final content fails partial (op # ops) d =
     (Some (wrap (fs_context op) e), [d, if op = FsWrite then d(tmp \<mapsto> partial) else d])"
  by simp

lemma run_ops_reports:
  "fst (run_ops tmp final content fails partial ops d) = None \<longleftrightarrow> (\<forall>op \<in> set ops. fails op = None)"
proof (induction ops arbitrary: d)
  case (Cons op ops)
  then show ?case
    by (cases "fails op") (simp_all add: run_ops_ok run_ops_failed del: run_ops.simps(2))
qed simp

lemma run_ops_last:
  "(\<forall>op \<in> set ops. fails op = None) \<Longrightarrow>
   snd (run_ops tmp final content fails partial ops d) \<noteq> [] \<and>
   last (snd (run_ops tmp final content fails partial ops d)) = fold (fs_effect tmp final content) ops d"
  by (induction ops arbitrary: d) (simp_all add: run_ops_ok del: run_ops.simps(2))

lemma run_ops_nonempty: "snd (run_ops tmp final content fails partial ops d) \<noteq> []"
  by (cases ops; cases "fails (hd ops)") (simp_all add: run_ops_ok run_ops_failed del: run_ops.simps(2))

lemma run_ops_invariant:
  assumes step: "\<And>op ops d. I (op # ops) d \<Longrightarrow> I ops (fs_effect tmp final content op d)"
    and torn: "\<And>ops d. I (FsWrite # ops) d \<Longrightarrow> Q (d(tmp \<mapsto> partial))"
    and ok: "\<And>ops d. I ops d \<Longrightarrow> Q d"
  shows "I ops d \<Longrightarrow> \<forall>d' \<in> set (snd (run_ops tmp final content fails partial ops d)). Q d'"
proof (induction ops arbitrary: d)
  case (Cons op ops)
  show ?case
  proof (cases "fails op")
    case None
    with Cons.IH [OF step [OF Cons.prems]] ok [OF Cons.prems] show ?thesis
      by (simp add: run_ops_ok del: run_ops.simps(2))
  next
    case (Some e)
    with ok [OF Cons.prems] torn Cons.prems show ?thesis
      by (auto simp: run_ops_failed simp del: run_ops.simps(2))
  qed
qed (use ok in auto)

text \<open>The directories a write may leave: the unit is old or new, all but the temporary file as before.\<close>

definition unit_old_or_new :: "string \<Rightarrow> string \<Rightarrow> string \<Rightarrow> dir \<Rightarrow> dir \<Rightarrow> bool" where
  "unit_old_or_new tmp name content d d' \<longleftrightarrow>
     (d' name = d name \<or> d' name = Some content) \<and> (\<forall>n. n \<noteq> name \<longrightarrow> n \<noteq> tmp \<longrightarrow> d' n = d n)"

lemma write_ops_suffix:
  "suffix (op # ops) write_unit_ops \<Longrightarrow>
   suffix ops write_unit_ops \<and> (op = FsCreateTemp \<longrightarrow> FsWrite \<in> set ops) \<and>
   (op = FsRename \<longrightarrow> FsWrite \<notin> set ops \<and> FsRename \<notin> set ops)"
  by (auto simp: write_unit_ops_def suffix_Cons)

lemma run_ops_old_or_new:
  assumes "tmp \<noteq> name"
  shows "\<forall>d' \<in> set (snd (run_ops tmp name content fails partial write_unit_ops d)).
           unit_old_or_new tmp name content d d'"
proof (rule run_ops_invariant [where I = "\<lambda>ops d'. suffix ops write_unit_ops \<and>
    unit_old_or_new tmp name content d d' \<and>
    (FsWrite \<notin> set ops \<longrightarrow> FsRename \<in> set ops \<longrightarrow> d' tmp = Some content)"])
  fix op ops d'
  assume I: "suffix (op # ops) write_unit_ops \<and> unit_old_or_new tmp name content d d' \<and>
    (FsWrite \<notin> set (op # ops) \<longrightarrow> FsRename \<in> set (op # ops) \<longrightarrow> d' tmp = Some content)"
  then show "suffix ops write_unit_ops \<and>
      unit_old_or_new tmp name content d (fs_effect tmp name content op d') \<and>
      (FsWrite \<notin> set ops \<longrightarrow> FsRename \<in> set ops \<longrightarrow>
        fs_effect tmp name content op d' tmp = Some content)"
    using write_ops_suffix [of op ops] assms by (cases op) (auto simp: unit_old_or_new_def)
qed (use assms in \<open>auto simp: unit_old_or_new_def write_unit_ops_def\<close>)

lemma tmp_name_differs: "''.'' @ name @ ''.'' @ rnd \<noteq> name"
  by (metis append_Nil append_assoc length_append less_add_same_cancel1 less_irrefl_nat
      list.distinct(1) length_greater_0_conv add.commute not_add_less1)



section \<open>What the probe loop guarantees\<close>

text \<open>A round that saw a 2xx answer, and the last failure before the context was over.\<close>

definition round_healthy :: "probe_round \<Rightarrow> bool" where
  "round_healthy r \<longleftrightarrow> (\<exists>status. pr_answer r = Answered status \<and> 200 \<le> status \<and> status \<le> 299)"

definition last_real :: "probe_round list \<Rightarrow> go_error option" where
  "last_real rs =
     (case filter (\<lambda>r. \<not> pr_expired r) rs of
        [] \<Rightarrow> (case rs of [] \<Rightarrow> None | r # _ \<Rightarrow> probeOnce (pr_answer r))
      | real \<Rightarrow> probeOnce (pr_answer (last real)))"

lemma probeOnce_healthy: "probeOnce (pr_answer r) = None \<longleftrightarrow> round_healthy r"
  by (cases "pr_answer r") (auto simp: probeOnce_def round_healthy_def)

lemma last_real_snoc:
  assumes "\<forall>q \<in> set seen. \<not> round_healthy q" "probeOnce (pr_answer r) = Some e"
  shows "last_real (seen @ [r]) =
    (if \<not> pr_expired r \<or> last_real seen = None then Some e else last_real seen)"
proof -
  have "last_real seen = None \<longleftrightarrow> seen = []"
  proof (cases "filter (\<lambda>r. \<not> pr_expired r) seen")
    case Nil
    then show ?thesis using assms(1) probeOnce_healthy
      by (cases seen) (auto simp: last_real_def)
  next
    case (Cons q qs)
    then have "last (q # qs) \<in> set seen" by (metis filter_is_subset last_in_set list.distinct(1) subsetD)
    then show ?thesis using Cons assms(1) probeOnce_healthy by (auto simp: last_real_def)
  qed
  then show ?thesis
    using assms(2) by (cases "filter (\<lambda>r. \<not> pr_expired r) seen"; cases seen) (auto simp: last_real_def)
qed

definition still_polling :: "probe_round \<Rightarrow> bool" where
  "still_polling r \<longleftrightarrow> \<not> round_healthy r \<and> \<not> pr_done r"

text \<open>What the probe promises of the rounds it sees, the seen ones first.\<close>

definition probe_promise ::
    "string \<Rightarrow> int \<Rightarrow> probe_round list \<Rightarrow> probe_round list \<Rightarrow> go_error option option" where
  "probe_promise url timeout seen rounds =
     (case dropWhile still_polling rounds of
        [] \<Rightarrow> None
      | r # _ \<Rightarrow>
          if round_healthy r then Some None
          else Some (Some (wrap (''health probe '' @ url @ '' did not pass within ''
                                 @ Duration_String timeout @ '': '')
                             (the (last_real (seen @ takeWhile still_polling rounds @ [r]))))))"

lemma probe_rounds_promise:
  "\<forall>q \<in> set seen. \<not> round_healthy q \<Longrightarrow>
   probe_rounds url timeout (last_real seen) rounds = probe_promise url timeout seen rounds"
proof (induction rounds arbitrary: seen)
  case Nil
  show ?case by (simp add: probe_promise_def)
next
  case (Cons r rs)
  show ?case
  proof (cases "probeOnce (pr_answer r)")
    case None
    then show ?thesis using probeOnce_healthy [of r] by (simp add: probe_promise_def still_polling_def)
  next
    case (Some e)
    then have r: "\<not> round_healthy r" using probeOnce_healthy [of r] by auto
    show ?thesis
    proof (cases "pr_done r")
      case True
      then show ?thesis
        using r by (simp add: Some last_real_snoc [OF Cons.prems Some] probe_promise_def still_polling_def Let_def)
    next
      case False
      have "probe_rounds url timeout (last_real seen) (r # rs) =
          probe_rounds url timeout (last_real (seen @ [r])) rs"
        unfolding last_real_snoc [OF Cons.prems Some] using False by (simp add: Some Let_def)
      also have "\<dots> = probe_promise url timeout (seen @ [r]) rs"
        using Cons.IH [of "seen @ [r]"] Cons.prems r by simp
      also have "\<dots> = probe_promise url timeout seen (r # rs)"
      proof -
        have "still_polling r" using False r by (simp add: still_polling_def)
        then show ?thesis
          unfolding probe_promise_def takeWhile.simps dropWhile.simps
          by (simp only: if_True append_assoc append_Cons append_Nil)
      qed
      finally show ?thesis .
    qed
  qed
qed

text \<open>
  The probe loop, exactly. It goes on while no round answered 2xx and the context is not
  over; the first round that answers 2xx makes it succeed, even when the deadline passes in the
  same round; otherwise it fails at the first round in which the end of the context is taken, and
  the reason it gives is the endpoint's own newest failure, not the one the deadline itself
  caused. A timeout of zero or less means the manifest's default.
\<close>

theorem probe_exact:
  "Probe url timeout rounds =
     probe_promise url (if timeout \<le> 0 then DefaultHealthTimeout else timeout) [] rounds"
  using probe_rounds_promise [of "[]" url "probe_timeout timeout" rounds]
  by (simp add: Probe_def probe_timeout_def last_real_def)

section \<open>What the container lookup guarantees\<close>

text \<open>
  The container lookup, exactly: it answers a digest iff that is the non-empty, trimmed answer
  for the bare name, or the one for the \<open>systemd-\<close> name when the bare name has none.
\<close>

theorem host_lookup_exact:
  "host_RunningImage inspect service = Inr d \<longleftrightarrow>
     d \<noteq> [] \<and>
     ((\<exists>out. inspect service = Inr out \<and> d = TrimSpace out) \<or>
      (\<nexists>out. inspect service = Inr out \<and> TrimSpace out \<noteq> []) \<and>
      (\<exists>out. inspect (''systemd-'' @ service) = Inr out \<and> d = TrimSpace out))"
  unfolding host_RunningImage_def ContainerNames_def
  by (cases "inspect service"; cases "inspect (''systemd-'' @ service)") auto

end
