(* ===== verification/Engine.thy ===== *)
theory Engine
  imports Reconcile
begin

text \<open>
  The deploy engine, \<open>internal/deploy\<close>: one run from the click's journal row to its receipt. Each
  method that calls an interface takes what the code does next as its last argument, so the
  methods compose as the code composes them; a method that changes its request hands the changed
  request on. What runs share (the service channels, the merge mutex, the pending map) is in the
  theory on concurrent runs.
\<close>

section \<open>States and options\<close>

definition StateDetected :: string where [simp]: "StateDetected = ''detected''"
definition StatePROpen :: string where [simp]: "StatePROpen = ''pr-open''"
definition StateChecks :: string where [simp]: "StateChecks = ''checks''"
definition StateMerged :: string where [simp]: "StateMerged = ''merged''"
definition StateReconciling :: string where [simp]: "StateReconciling = ''reconciling''"
definition StateProbing :: string where [simp]: "StateProbing = ''probing''"

definition States :: "string list" where
  "States = [StateDetected, StatePROpen, StateChecks, StateMerged, StateReconciling,
             StateProbing, StateHealthy]"

definition isTerminal :: "string \<Rightarrow> bool" where
  "isTerminal state \<longleftrightarrow> state = StateHealthy \<or> state = StateRolledBack \<or> state = StateFailed"

text \<open>
  \<open>Options\<close>: what is behind \<open>Applier\<close> and the parsers is a value, the other interfaces are calls.
  \<open>opt_Notify\<close> says whether a notify function is set.
\<close>

record options =
  opt_ext :: externals
  opt_Applier :: applier
  opt_Notify :: bool
  opt_CheckPoll :: int
  opt_RevertAttempts :: int
  opt_RevertBackoff :: int
  opt_MergeBackoff :: int
  opt_RepoWebURL :: string

definition seconds :: "int \<Rightarrow> int" where
  "seconds n = n * 10 ^ 9"

definition engine_New :: "options \<Rightarrow> options" where
  "engine_New o' = o'\<lparr>
     opt_CheckPoll := if opt_CheckPoll o' \<le> 0 then seconds 15 else opt_CheckPoll o',
     opt_RevertAttempts := if opt_RevertAttempts o' \<le> 0 then 3 else opt_RevertAttempts o',
     opt_RevertBackoff := if opt_RevertBackoff o' \<le> 0 then seconds 30 else opt_RevertBackoff o',
     opt_MergeBackoff := if opt_MergeBackoff o' \<le> 0 then seconds 5 else opt_MergeBackoff o'\<rparr>"

section \<open>Requests and wording\<close>

record run_request =
  rq_id :: int
  rq_action :: string
  rq_service :: string
  rq_oldDigest :: string
  rq_newDigest :: string
  rq_originalRaw :: string
  rq_newContent :: string
  rq_prNumber :: int
  rq_prURL :: string
  rq_mergeURL :: string
  rq_detailPrefix :: string

text \<open>\<open>setDigest\<close>: the one occurrence of the digest is replaced, anything else is refused.\<close>

definition setDigest :: "string \<Rightarrow> string \<Rightarrow> string \<Rightarrow> string result" where
  "setDigest raw oldDigest newDigest =
     (let count = Count raw oldDigest in
      if count \<noteq> 1
      then Inl (errorf (''manifest contains the current digest '' @ Itoa (int count)
                        @ '' times, expected exactly once''))
      else Inr (ReplaceFirst raw oldDigest newDigest))"

definition shortDigest :: "string \<Rightarrow> string" where
  "shortDigest d =
     (let trimmed = TrimPrefix d ''sha256:'' in
      if length trimmed > 12 then take 12 trimmed else trimmed)"

definition prTitle :: "string \<Rightarrow> string \<Rightarrow> string \<Rightarrow> string" where
  "prTitle action service digest =
     (if action = ActionRollback then ''roll back'' else ''deploy'') @ '' '' @ service @ '' to ''
     @ shortDigest digest"

definition prBody :: "string \<Rightarrow> string \<Rightarrow> string \<Rightarrow> string \<Rightarrow> string" where
  "prBody action service oldDigest newDigest =
     ''Authored by snowdeploy ('' @ action @ '').'' @ [CHR 0x0A, CHR 0x0A] @
     ''- service: `'' @ service @ ''`'' @ [CHR 0x0A] @
     ''- from: `'' @ oldDigest @ ''`'' @ [CHR 0x0A] @
     ''- to: `'' @ newDigest @ ''`'' @ [CHR 0x0A, CHR 0x0A] @
     ''This change touches only the service manifest. The host applies it '' @
     ''after this pull request merges.''"

text \<open>\<open>%w\<close> of an error variable that may still be nil, and of two errors at once.\<close>

definition wrap_last :: "string \<Rightarrow> go_error option \<Rightarrow> go_error" where
  "wrap_last pre e = (case e of None \<Rightarrow> errorf (pre @ ''%!w(<nil>)'') | Some e \<Rightarrow> wrap pre e)"

definition wrap_two :: "string \<Rightarrow> go_error \<Rightarrow> string \<Rightarrow> go_error \<Rightarrow> go_error" where
  "wrap_two pre e mid e' =
     \<lparr>err_text = pre @ err_text e @ mid @ err_text e', err_chain = err_chain e @ err_chain e'\<rparr>"

text \<open>The em dash of the messages, in UTF-8.\<close>

definition em_dash :: string where
  "em_dash = [CHR 0xE2, CHR 0x80, CHR 0x94]"

section \<open>Events\<close>

definition event_of :: "run_request \<Rightarrow> string \<Rightarrow> string \<Rightarrow> int \<Rightarrow> event" where
  "event_of req state detail now =
     \<lparr>ev_Service = rq_service req, ev_Action = rq_action req, ev_State = state,
      ev_Detail = detail, ev_JournalID = rq_id req, ev_PRNumber = rq_prNumber req,
      ev_PRURL = rq_prURL req, ev_MergeURL = rq_mergeURL req, ev_At = now\<rparr>"

definition notify :: "options \<Rightarrow> event \<Rightarrow> prog \<Rightarrow> prog" where
  "notify opts ev k = (if opt_Notify opts then UCall (Notify ev) k else k)"

text \<open>The journal's answers to \<open>Progress\<close> and \<open>Finish\<close> are discarded.\<close>

definition emit :: "options \<Rightarrow> run_request \<Rightarrow> string \<Rightarrow> string \<Rightarrow> prog \<Rightarrow> prog" where
  "emit opts req state detail k =
     ECall (JProgress (rq_id req) state (rq_detailPrefix req @ detail)) (\<lambda>_.
     Now (\<lambda>now. notify opts (event_of req state (rq_detailPrefix req @ detail) now) k))"

definition finish :: "options \<Rightarrow> run_request \<Rightarrow> string \<Rightarrow> string \<Rightarrow> prog \<Rightarrow> prog" where
  "finish opts req state detail k =
     ECall (JFinish (rq_id req) state (rq_detailPrefix req @ detail)) (\<lambda>_.
     Now (\<lambda>now. notify opts (event_of req state (rq_detailPrefix req @ detail) now) k))"

definition fail :: "options \<Rightarrow> run_request \<Rightarrow> string \<Rightarrow> prog \<Rightarrow> prog" where
  "fail opts req detail k = finish opts req StateFailed detail k"

definition syncFailure :: "go_error \<Rightarrow> (string \<Rightarrow> prog) \<Rightarrow> prog" where
  "syncFailure err k =
     RepoSyncState (\<lambda>(synced, reason).
       k ((case reason of None \<Rightarrow> ''the configuration repository could not be read''
                        | Some e \<Rightarrow> err_text e)
          @ (if errors_is err ErrCredentialUnavailable
             then ''; re-run once the secret store is unsealed'' else [])))"

section \<open>Locks\<close>

text \<open>\<open>lock\<close> hands the context's error on when it did not get the service's turn.\<close>

definition lockMergeQueue :: "prog \<Rightarrow> prog" where
  "lockMergeQueue k = UCall (QueuedAdd 1) (UCall LockMerge (UCall (QueuedAdd (-1)) k))"

definition lock :: "string \<Rightarrow> (go_error option \<Rightarrow> prog) \<Rightarrow> prog" where
  "lock service k =
     UCall (QueuedAdd 1)
     (ECall (LockService service) (\<lambda>r. UCall (QueuedAdd (-1)) (k r)))"

section \<open>Merging\<close>

definition mergeAttempts :: nat where
  "mergeAttempts = 3"

text \<open>\<open>mergeThroughChecks\<close>, by the number of attempts left.\<close>

primrec merge_loop ::
    "options \<Rightarrow> run_request \<Rightarrow> int \<Rightarrow> nat \<Rightarrow> go_error option \<Rightarrow> (string result \<Rightarrow> prog) \<Rightarrow> prog" where
  "merge_loop opts req pr 0 lst k =
     k (Inl (wrap_last (''merge failed after '' @ Itoa (int mergeAttempts) @ '' attempts: '') lst))"
| "merge_loop opts req pr (Suc left) lst k =
     emit opts req StateChecks
       (if left + 1 = mergeAttempts then ''waiting for the configuration repository's checks''
        else ''main moved underneath the proposal; branch updated, re-running checks (attempt ''
             @ Itoa (int (mergeAttempts - left)) @ '' of '' @ Itoa (int mergeAttempts) @ '')'')
     (WaitChecks pr (opt_CheckPoll opts) (\<lambda>checks. case checks of
        Inl err \<Rightarrow> k (Inl (wrap ''checks could not be read: '' err))
      | Inr (ok, detail) \<Rightarrow>
          if \<not> ok then k (Inl (errorf (detail @ ''; see pull request #'' @ Itoa pr)))
          else SCall (PRMerge pr) (\<lambda>merged. case merged of
            Inr mergeSHA \<Rightarrow> k (Inr mergeSHA)
          | Inl err \<Rightarrow>
              ECall CtxErr (\<lambda>ctx. case ctx of
                Some _ \<Rightarrow> k (Inl (wrap ''merge failed: '' err))
              | None \<Rightarrow>
                  ECall (PRUpdateBranch pr) (\<lambda>updated. case updated of
                    Some updateErr \<Rightarrow>
                      k (Inl (wrap_two ''merge failed ('' err
                                '') and the branch could not be updated: '' updateErr))
                  | None \<Rightarrow>
                      Pause (opt_MergeBackoff opts) (\<lambda>done.
                        if done then k (Inl (wrap ''merge failed: '' err))
                        else merge_loop opts req pr left (Some err) k))))))"

definition mergeThroughChecks ::
    "options \<Rightarrow> run_request \<Rightarrow> int \<Rightarrow> (string result \<Rightarrow> prog) \<Rightarrow> prog" where
  "mergeThroughChecks opts req pr k = merge_loop opts req pr mergeAttempts None k"

section \<open>Applying\<close>

definition phase_events :: "options \<Rightarrow> run_request \<Rightarrow> manifest \<Rightarrow> string \<Rightarrow> prog \<Rightarrow> prog" where
  "phase_events opts req m phase k =
     (if phase = PhaseRestarting
      then emit opts req StateReconciling
             (''restarting '' @ rq_service req @ '' (pulling image)'') k
      else if phase = PhaseProbing
      then emit opts req StateProbing (''probing '' @ h_URL (m_Health m)) k
      else k)"

definition applyManifest ::
    "options \<Rightarrow> run_request \<Rightarrow> manifest \<Rightarrow> (go_error option \<Rightarrow> prog) \<Rightarrow> prog" where
  "applyManifest opts req m k =
     SCall (RepoTemplate (m_Template m)) (\<lambda>r. case r of
       Inl err \<Rightarrow> k (Some err)
     | Inr tmpl \<Rightarrow> Apply (opt_ext opts) (opt_Applier opts) m tmpl (phase_events opts req m) k)"

definition applyMerged :: "options \<Rightarrow> run_request \<Rightarrow> (go_error option \<Rightarrow> prog) \<Rightarrow> prog" where
  "applyMerged opts req k =
     SCall RepoSync (\<lambda>r. case r of
       Inl err \<Rightarrow> syncFailure err (\<lambda>d. k (Some (errorf (''sync merged state: '' @ d))))
     | Inr _ \<Rightarrow>
         RepoManifest (rq_service req) (\<lambda>r. case r of
           Inl err \<Rightarrow> k (Some err)
         | Inr (m, _) \<Rightarrow>
             if digest_of m \<noteq> rq_newDigest req
             then k (Some (errorf (''merged manifest pins '' @ digest_of m
                                   @ '', not the requested '' @ rq_newDigest req)))
             else applyManifest opts req m k))"

text \<open>The second half of \<open>converge\<close>: the pin as main holds it, walked onto the host.\<close>

definition converge_pin :: "options \<Rightarrow> run_request \<Rightarrow> manifest \<Rightarrow> prog \<Rightarrow> prog" where
  "converge_pin opts req m k =
     (let req' = req\<lparr>rq_oldDigest := digest_of m, rq_newDigest := digest_of m\<rparr> in
      emit opts req' StateReconciling
        (''re-rendering the merged manifest, still pinned to '' @ shortDigest (digest_of m))
      (applyManifest opts req' m (\<lambda>r. case r of
         Some err \<Rightarrow>
           fail opts req' (err_text err
             @ ''; a converge has no previous unit to restore '' @ em_dash
             @ '' fix the manifest and converge again, or deploy a known-good digest'') k
       | None \<Rightarrow>
           finish opts req' StateHealthy
             (rq_service req' @ '' converged; healthy on '' @ rq_newDigest req') k)))"

definition converge :: "options \<Rightarrow> run_request \<Rightarrow> prog \<Rightarrow> prog" where
  "converge opts req k =
     SCall RepoSync (\<lambda>r. case r of
       Inl err \<Rightarrow> syncFailure err (\<lambda>d. fail opts req (''sync merged state: '' @ d) k)
     | Inr _ \<Rightarrow>
         RepoManifest (rq_service req) (\<lambda>r. case r of
           Inl err \<Rightarrow>
             fail opts req (''could not re-read the manifest at the front of the queue: ''
                            @ err_text err) k
         | Inr (m, _) \<Rightarrow>
             if digest_of m \<noteq> rq_newDigest req
             then ECall (JSetDigests (rq_id req) (digest_of m) (digest_of m)) (\<lambda>r. case r of
                    Some err \<Rightarrow>
                      fail opts req (''the pin moved to '' @ digest_of m
                        @ '' while queued and the journal could not record it: ''
                        @ err_text err) k
                  | None \<Rightarrow> converge_pin opts req m k)
             else converge_pin opts req m k))"

section \<open>Rolling back\<close>

definition clear_trail :: "run_request \<Rightarrow> run_request" where
  "clear_trail req = req\<lparr>rq_prNumber := 0, rq_prURL := [], rq_mergeURL := []\<rparr>"

definition pull_url :: "options \<Rightarrow> int \<Rightarrow> string \<Rightarrow> string" where
  "pull_url opts pr old =
     (if opt_RepoWebURL opts \<noteq> [] then opt_RepoWebURL opts @ ''/pull/'' @ Itoa pr else old)"

definition restorePrevious ::
    "options \<Rightarrow> run_request \<Rightarrow> (go_error option \<Rightarrow> prog) \<Rightarrow> prog" where
  "restorePrevious opts req k =
     (case Parse (x_yaml (opt_ext opts)) (rq_originalRaw req) of
        Inl err \<Rightarrow> k (Some (wrap ''parse the previous manifest: '' err))
      | Inr m \<Rightarrow>
          SCall (RepoTemplate (m_Template m)) (\<lambda>r. case r of
            Inl err \<Rightarrow> k (Some err)
          | Inr tmpl \<Rightarrow>
              Apply (opt_ext opts) (opt_Applier opts) m tmpl
                (\<lambda>phase p. if phase = PhaseProbing
                           then emit opts req StateProbing (''probing '' @ h_URL (m_Health m)) p
                           else p) k))"

definition revertOnce ::
    "options \<Rightarrow> run_request \<Rightarrow> (run_request \<times> go_error option \<Rightarrow> prog) \<Rightarrow> prog" where
  "revertOnce opts req k =
     lockMergeQueue
     (OpenManifestPR (rq_service req) (rq_originalRaw req)
        (''revert '' @ rq_service req @ '' to '' @ shortDigest (rq_oldDigest req))
        (''Automatic revert: '' @ rq_service req @ '' failed its health probe on ''
         @ rq_newDigest req @ '' and was rolled back to '' @ rq_oldDigest req
         @ '' on the host. This restores the manifest to what is running.'')
      (\<lambda>r. case r of
         Inl err \<Rightarrow> UCall UnlockMerge (k (req, Some err))
       | Inr pr \<Rightarrow>
           let req' = req\<lparr>rq_prNumber := pr, rq_prURL := pull_url opts pr (rq_prURL req)\<rparr> in
           mergeThroughChecks opts req' pr (\<lambda>merged.
             UCall UnlockMerge (case merged of
               Inl err \<Rightarrow> k (req', Some err)
             | Inr _ \<Rightarrow> k (req', None)))))"

text \<open>The loop of \<open>revertMain\<close>, by the number of attempts left.\<close>

primrec revert_loop ::
    "options \<Rightarrow> nat \<Rightarrow> run_request \<Rightarrow> go_error option \<Rightarrow>
     (run_request \<times> go_error option \<Rightarrow> prog) \<Rightarrow> prog" where
  "revert_loop opts 0 req lst k =
     k (req, Some (wrap_last (''after '' @ Itoa (opt_RevertAttempts opts) @ '' attempts: '') lst))"
| "revert_loop opts (Suc left) req lst k =
     emit opts (clear_trail req) StateReconciling
       (''attempt '' @ Itoa (opt_RevertAttempts opts - int left) @ '' of ''
        @ Itoa (opt_RevertAttempts opts))
     (revertOnce opts (clear_trail req) (\<lambda>(req', r). case r of
        None \<Rightarrow> k (req', None)
      | Some err \<Rightarrow>
          ECall CtxErr (\<lambda>ctx. case ctx of
            Some _ \<Rightarrow> k (req', Some err)
          | None \<Rightarrow>
              Pause (opt_RevertBackoff opts * (opt_RevertAttempts opts - int left)) (\<lambda>done.
                if done then k (req', Some err)
                else revert_loop opts left req' (Some err) k))))"

definition revertMain ::
    "options \<Rightarrow> run_request \<Rightarrow> (run_request \<times> go_error option \<Rightarrow> prog) \<Rightarrow> prog" where
  "revertMain opts req k =
     revert_loop opts (nat (opt_RevertAttempts opts))
       (req\<lparr>rq_detailPrefix := ''reverting main: ''\<rparr>) None k"

definition rollback :: "options \<Rightarrow> run_request \<Rightarrow> go_error \<Rightarrow> prog \<Rightarrow> prog" where
  "rollback opts req cause k =
     emit opts (clear_trail req) StateReconciling
       (''probe failed; restoring '' @ shortDigest (rq_oldDigest req) @ '' on the host'')
     (restorePrevious opts (clear_trail req) (\<lambda>restored. case restored of
        Some restoreErr \<Rightarrow>
          finish opts (clear_trail req) StateFailed
            (err_text cause @ ''; the automatic rollback also failed: '' @ err_text restoreErr) k
      | None \<Rightarrow>
          revertMain opts (clear_trail req) (\<lambda>(undo, r).
            finish opts (undo\<lparr>rq_detailPrefix := []\<rparr>) StateRolledBack
              (err_text cause @ ''; rolled back to '' @ rq_oldDigest req @
               (case r of
                  Some err \<Rightarrow> ''; main still pins '' @ rq_newDigest req
                    @ '' and needs a manual revert ('' @ err_text err @ '')''
                | None \<Rightarrow> ''; main reverted'')) k)))"

section \<open>One run\<close>

text \<open>Main already pins the requested digest: the host decides (\<open>engine.go\<close> 372 to 397).\<close>

definition already_pinned :: "options \<Rightarrow> run_request \<Rightarrow> prog \<Rightarrow> prog" where
  "already_pinned opts req k =
     SCall (RunningImage (rq_service req)) (\<lambda>running.
     UCall UnlockMerge
     (if running = Inr (rq_newDigest req)
      then finish opts req StateHealthy
             (rq_service req @ '' was already brought to '' @ rq_newDigest req
              @ '' by an earlier deploy; nothing to do'') k
      else
        emit opts req StateReconciling
          (''main already pins '' @ rq_newDigest req
           @ '' but the host does not run it; applying the merged manifest'')
        (applyMerged opts req (\<lambda>r. case r of
           Some applyErr \<Rightarrow> rollback opts req applyErr k
         | None \<Rightarrow>
             finish opts req StateHealthy
               (rq_service req @ '' is healthy on '' @ rq_newDigest req) k))))"

text \<open>After the merge (437 to 454).\<close>

definition land :: "options \<Rightarrow> run_request \<Rightarrow> string \<Rightarrow> prog \<Rightarrow> prog" where
  "land opts req mergeSHA k =
     ECall (JSetMergeSHA (rq_id req) mergeSHA) (\<lambda>r. case r of
       Some err \<Rightarrow> fail opts req (''could not record the merge: '' @ err_text err) k
     | None \<Rightarrow>
         let req' = req\<lparr>rq_mergeURL :=
               if opt_RepoWebURL opts \<noteq> [] then opt_RepoWebURL opts @ ''/commit/'' @ mergeSHA
               else rq_mergeURL req\<rparr> in
         emit opts req' StateMerged (''merged as '' @ mergeSHA)
         (emit opts req' StateReconciling ''applying the merged manifest''
         (applyMerged opts req' (\<lambda>r. case r of
            None \<Rightarrow>
              finish opts req' StateHealthy
                (rq_service req' @ '' is healthy on '' @ rq_newDigest req') k
          | Some applyErr \<Rightarrow> rollback opts req' applyErr k))))"

text \<open>The proposal from its number on: recorded, checked, merged, landed (419 to 436).\<close>

definition follow_proposal :: "options \<Rightarrow> run_request \<Rightarrow> int \<Rightarrow> prog \<Rightarrow> prog" where
  "follow_proposal opts req pr k =
     ECall (JSetPR (rq_id req) pr) (\<lambda>r. case r of
       Some err \<Rightarrow>
         UCall UnlockMerge
           (fail opts req (''could not record the pull request: '' @ err_text err) k)
     | None \<Rightarrow>
         let req' = req\<lparr>rq_prNumber := pr, rq_prURL := pull_url opts pr (rq_prURL req)\<rparr> in
         emit opts req' StatePROpen (''pull request #'' @ Itoa pr @ '' opened'')
         (mergeThroughChecks opts req' pr (\<lambda>merged.
           UCall UnlockMerge (case merged of
             Inl err \<Rightarrow>
               ECall (PRClose pr (''snowdeploy abandoned this change: '' @ err_text err))
                 (\<lambda>_. fail opts req' (err_text err) k)
           | Inr mergeSHA \<Rightarrow> land opts req' mergeSHA k))))"

text \<open>The proposal, computed against the file as it is at the front of the queue (399 to 418).\<close>

definition propose :: "options \<Rightarrow> run_request \<Rightarrow> manifest \<Rightarrow> string \<Rightarrow> prog \<Rightarrow> prog" where
  "propose opts req current raw k =
     (case setDigest raw (digest_of current) (rq_newDigest req) of
        Inl _ \<Rightarrow>
          UCall UnlockMerge (fail opts req
            (''the manifest changed while this deploy was queued; ''
             @ ''re-run to propose it against the current file'') k)
      | Inr fresh \<Rightarrow>
          let req' = req\<lparr>rq_newContent := fresh, rq_originalRaw := raw,
                         rq_oldDigest := digest_of current\<rparr> in
          OpenManifestPR (rq_service req') (rq_newContent req')
            (prTitle (rq_action req') (rq_service req') (rq_newDigest req'))
            (prBody (rq_action req') (rq_service req') (rq_oldDigest req') (rq_newDigest req'))
          (\<lambda>r. case r of
             Inl err \<Rightarrow>
               UCall UnlockMerge
                 (fail opts req' (''could not open the manifest pull request: '' @ err_text err) k)
           | Inr pr \<Rightarrow> follow_proposal opts req' pr k))"

text \<open>With the service's turn taken (351 to 372).\<close>

definition run_turn :: "options \<Rightarrow> run_request \<Rightarrow> prog \<Rightarrow> prog" where
  "run_turn opts req k =
     (if rq_action req = ActionConverge then converge opts req k
      else
        lockMergeQueue
        (RepoManifest (rq_service req) (\<lambda>r. case r of
           Inl err \<Rightarrow>
             UCall UnlockMerge (fail opts req
               (''could not re-read the manifest at the front of the queue: '' @ err_text err) k)
         | Inr (current, raw) \<Rightarrow>
             if digest_of current = rq_newDigest req then already_pinned opts req k
             else propose opts req current raw k)))"

text \<open>\<open>run\<close>; the deferred \<open>release()\<close> is what every path of \<open>run_turn\<close> ends with.\<close>

definition run :: "options \<Rightarrow> run_request \<Rightarrow> prog" where
  "run opts req =
     emit opts req StateDetected ''reading the configuration repository''
     (SCall RepoSync (\<lambda>r. case r of
        Inl err \<Rightarrow> syncFailure err (\<lambda>d. fail opts req d Stop)
      | Inr _ \<Rightarrow>
          emit opts req StateDetected
            (if rq_action req = ActionConverge then ''queued for the service's turn''
             else ''queued for the merge queue'')
          (lock (rq_service req) (\<lambda>r. case r of
             Some err \<Rightarrow>
               fail opts req
                 (''queued '' @ rq_action req @ '' abandoned: '' @ err_text err @
                  (if errors_is err ContextCanceled
                   then ''; the daemon was restarting; re-run'' else [])) Stop
           | None \<Rightarrow> run_turn opts req (UCall (UnlockService (rq_service req)) Stop)))))"

end
