(* ===== verification/Monitors.thy ===== *)
theory Monitors
  imports Engine
begin

text \<open>
  The interface between the engine and the automata that judge its runs. A monitor that ignores the
  engine's plumbing (\<open>run_monitor\<close>) gets the methods \<open>emit\<close>, \<open>finish\<close>, \<open>syncFailure\<close> and the merge
  loop executed once, here; one that a whole group of calls leaves where it is (\<open>steady\<close>) gets the
  methods built from that group executed too. The protocol, the lock discipline, the counters and
  the event stream are instances.
\<close>

section \<open>The plumbing, for every monitor\<close>

text \<open>
  A monitor that does not mind progress notes on the run's own journal row while the run is live,
  nor reading the clock, notifying, or asking for the safe reason of a failed sync.
\<close>

lemma not_terminal:
  "\<not> isTerminal StateDetected" "\<not> isTerminal StatePROpen" "\<not> isTerminal StateChecks"
  "\<not> isTerminal StateMerged" "\<not> isTerminal StateReconciling" "\<not> isTerminal StateProbing"
  by (simp_all add: isTerminal_def)

definition host_calls :: "obs set" where
  "host_calls = {x. \<exists>n u s url t i r. x = OE (WriteUnit n u) r \<or> x = OE (ReloadAndRestart s) r \<or>
     x = OE (ProbeHealth url t i) r}"

definition mirror_calls :: "obs set" where
  "mirror_calls = {x. \<exists>r n r' t r''. x = OS RepoSync r \<or> x = OManifest n r' \<or>
     x = OS (RepoTemplate t) r''}"

definition merge_calls :: "int \<Rightarrow> obs set" where
  "merge_calls pr = {x. \<exists>d r r' r'' r4 d' r5. x = OWaitChecks pr d r \<or> x = OS (PRMerge pr) r' \<or>
     x = OE (PRUpdateBranch pr) r'' \<or> x = OE CtxErr r4 \<or> x = OPause d' r5}"

locale run_monitor =
  fixes mon :: "'s monitor"
    and live :: "'s \<Rightarrow> bool"
    and jid :: int
  assumes quiet_progress: "live s \<Longrightarrow> \<not> isTerminal st \<Longrightarrow> mon s (OE (JProgress jid st d) r) = Some s"
    and quiet_now: "mon s (ONow n) = Some s"
    and quiet_notify: "mon s (OU (Notify ev)) = Some s"
    and quiet_reason: "mon s (OSyncState v) = Some s"
begin

lemma safe_event:
  "safe mon fin s (Now (\<lambda>now. notify opts (ev now) k)) = safe mon fin s k"
  by (simp add: safe_rules notify_def quiet_now quiet_notify)

lemma safe_emit:
  "live s \<Longrightarrow> rq_id req = jid \<Longrightarrow> \<not> isTerminal st \<Longrightarrow>
   safe mon fin s (emit opts req st d k) = safe mon fin s k"
  unfolding emit_def safe_ECall by (simp only: quiet_progress after_simps safe_event simp_thms)

lemma safe_phase:
  "live s \<Longrightarrow> rq_id req = jid \<Longrightarrow>
   safe mon fin s (phase_events opts req m ph p) = safe mon fin s p"
  unfolding phase_events_def
  using safe_emit [of s req StateReconciling] safe_emit [of s req StateProbing] not_terminal
  by (simp only: if_split simp_thms) blast

lemma safe_finish:
  "safe mon fin s (finish opts req st d k) =
     (\<forall>r. after mon fin (mon s (OE (JFinish (rq_id req) st (rq_detailPrefix req @ d)) r)) k)"
  unfolding finish_def safe_ECall by (simp add: after_def safe_event split: option.split)

lemma safe_syncFailure:
  "(\<And>d. safe mon fin s (k d)) \<Longrightarrow> safe mon fin s (syncFailure err k)"
  by (simp add: syncFailure_def safe_RepoSyncState quiet_reason split_beta)

text \<open>The merge loop, for a monitor that every step of the loop leaves in a state of \<open>I\<close>.\<close>

text \<open>One attempt of the merge loop: after a failed merge, and on the verdict of the checks.\<close>

lemma safe_retry:
  assumes "\<And>r. mon s (OE CtxErr r) = Some s"
    and "\<And>r. mon s (OE (PRUpdateBranch pr) r) = Some s" "\<And>d r. mon s (OPause d r) = Some s"
    and "\<And>e. safe mon fin s (k (Inl e))" "safe mon fin s p"
  shows "safe mon fin s (ECall CtxErr (\<lambda>ctx. case ctx of
      Some _ \<Rightarrow> k (Inl e1)
    | None \<Rightarrow>
        ECall (PRUpdateBranch pr) (\<lambda>updated. case updated of
          Some updateErr \<Rightarrow> k (Inl (e2 updateErr))
        | None \<Rightarrow> Pause d (\<lambda>done. if done then k (Inl e1) else p))))"
  using assms by (auto simp: safe_ECall safe_Pause split: option.split)

lemma safe_verdict:
  assumes "if \<exists>d. checks = Inr (True, d) then G s else I s"
    and merge: "\<And>r. G s \<Longrightarrow> \<exists>s'. mon s (OS (PRMerge pr) r) = Some s' \<and>
        (case r of Inl _ \<Rightarrow> I s' | Inr sha \<Rightarrow> safe mon fin s' (k (Inr sha)))"
    and failed: "\<And>s e. I s \<Longrightarrow> safe mon fin s (k (Inl e))"
    and again: "\<And>s err. I s \<Longrightarrow> safe mon fin s (again err)"
  shows "safe mon fin s (case checks of
      Inl err \<Rightarrow> k (Inl (e1 err))
    | Inr (ok, detail) \<Rightarrow>
        if \<not> ok then k (Inl (e2 detail))
        else SCall (PRMerge pr) (\<lambda>merged. case merged of Inr sha \<Rightarrow> k (Inr sha) | Inl err \<Rightarrow> again err))"
proof (cases "\<exists>d. checks = Inr (True, d)")
  case True
  then obtain d where c: "checks = Inr (True, d)" ..
  have "after mon fin (mon s (OS (PRMerge pr) r)) (case r of Inr sha \<Rightarrow> k (Inr sha) | Inl err \<Rightarrow> again err)" for r
    using merge [of r] assms(1) True again by (cases r) auto
  then show ?thesis unfolding c sum.case prod.case by (simp add: safe_SCall)
next
  case False
  then have i: "I s" using assms(1) by (simp only: if_False)
  show ?thesis using False failed [OF i] by (auto split: sum.split prod.split)
qed

lemma safe_merge_loop:
  assumes checks: "\<And>s r. I s \<Longrightarrow> \<exists>s'. mon s (OWaitChecks pr (opt_CheckPoll opts) r) = Some s' \<and>
        (if \<exists>d. r = Inr (True, d) then G s' else I s')"
    and merge: "\<And>s r. G s \<Longrightarrow> \<exists>s'. mon s (OS (PRMerge pr) r) = Some s' \<and>
        (case r of Inl _ \<Rightarrow> I s' | Inr sha \<Rightarrow> safe mon fin s' (k (Inr sha)))"
    and ctx: "\<And>s r. I s \<Longrightarrow> mon s (OE CtxErr r) = Some s"
    and update: "\<And>s r. I s \<Longrightarrow> mon s (OE (PRUpdateBranch pr) r) = Some s"
    and pause: "\<And>s d r. I s \<Longrightarrow> mon s (OPause d r) = Some s"
    and live: "\<And>s. I s \<Longrightarrow> live s"
    and failed: "\<And>s e. I s \<Longrightarrow> safe mon fin s (k (Inl e))"
    and req: "rq_id req = jid"
  shows "I s \<Longrightarrow> safe mon fin s (merge_loop opts req pr n lst k)"
proof (induction n arbitrary: s lst)
  case 0
  then show ?case by (simp add: failed)
next
  case (Suc n)
  define again where "again = (\<lambda>err. ECall CtxErr (\<lambda>ctx. case ctx of
                Some _ \<Rightarrow> k (Inl (wrap ''merge failed: '' err))
              | None \<Rightarrow>
                  ECall (PRUpdateBranch pr) (\<lambda>updated. case updated of
                    Some updateErr \<Rightarrow>
                      k (Inl (wrap_two ''merge failed ('' err
                                '') and the branch could not be updated: '' updateErr))
                  | None \<Rightarrow>
                      Pause (opt_MergeBackoff opts) (\<lambda>done.
                        if done then k (Inl (wrap ''merge failed: '' err))
                        else merge_loop opts req pr n (Some err) k))))"
  define act where "act = (\<lambda>checks. case checks of
        Inl err \<Rightarrow> k (Inl (wrap ''checks could not be read: '' err))
      | Inr (ok, detail) \<Rightarrow>
          if \<not> ok then k (Inl (errorf (detail @ ''; see pull request #'' @ Itoa pr)))
          else SCall (PRMerge pr) (\<lambda>merged. case merged of
            Inr mergeSHA \<Rightarrow> k (Inr mergeSHA) | Inl err \<Rightarrow> again err))"
  have again: "safe mon fin s1 (again err)" if i: "I s1" for s1 err
    unfolding again_def
    by (rule safe_retry) (rule ctx [OF i] update [OF i] pause [OF i] failed [OF i] Suc.IH [OF i])+
  have act: "safe mon fin s1 (act checks)" if "if \<exists>d. checks = Inr (True, d) then G s1 else I s1" for s1 checks
    unfolding act_def by (rule safe_verdict [where G = G and I = I, OF that merge]) (auto intro: failed again)
  have body: "\<exists>d. merge_loop opts req pr (Suc n) lst k =
      emit opts req StateChecks d (WaitChecks pr (opt_CheckPoll opts) act)"
    unfolding merge_loop.simps act_def again_def by (rule exI) (rule refl)
  then obtain d where body: "merge_loop opts req pr (Suc n) lst k =
      emit opts req StateChecks d (WaitChecks pr (opt_CheckPoll opts) act)" ..
  have "after mon fin (mon s (OWaitChecks pr (opt_CheckPoll opts) r)) (act r)" for r
    using checks [OF Suc.prems, of r] act by (elim exE conjE) (simp only: after_simps)
  then show ?case
    unfolding body safe_emit [OF live [OF Suc.prems] req not_terminal(3)] safe_WaitChecks ..
qed

text \<open>Groups of calls that leave a state where it is.\<close>

definition steady :: "'s \<Rightarrow> obs set \<Rightarrow> bool" where
  "steady s C \<longleftrightarrow> (\<forall>x \<in> C. mon s x = Some s)"

lemma steadyD: "steady s C \<Longrightarrow> x \<in> C \<Longrightarrow> mon s x = Some s"
  by (simp add: steady_def)

lemma safe_Apply_steady:
  assumes s: "steady s host_calls"
    and report: "\<And>ph p. safe mon fin s (on_phase ph p) = safe mon fin s p"
    and k: "\<And>r. safe mon fin s (k r)"
  shows "safe mon fin s (Apply x a m tmpl on_phase k)"
proof (cases "\<exists>u. admissible_unit x a m tmpl u")
  case True
  then obtain u where u: "admissible_unit x a m tmpl u" ..
  have h: "mon s (OE (WriteUnit nm u') r) = Some s" "mon s (OE (ReloadAndRestart sv) r) = Some s"
    "mon s (OE (ProbeHealth url t i) r) = Some s" for nm u' sv url t i r
    by (rule steadyD [OF s], simp add: host_calls_def)+
  show ?thesis
    unfolding Apply_admissible [OF u] by (simp add: safe_ECall h report k split: option.split)
next
  case False
  then show ?thesis using Apply_refused [OF False, of on_phase k] k by auto
qed

lemma safe_applyManifest_steady:
  assumes s: "steady s host_calls" "steady s mirror_calls" "live s" "rq_id req = jid"
    and k: "\<And>r. safe mon fin s (k r)"
  shows "safe mon fin s (applyManifest opts req m k)"
proof -
  have "mon s (OS (RepoTemplate t) r) = Some s" for t r
    by (rule steadyD [OF s(2)]) (simp add: mirror_calls_def)
  moreover have "safe mon fin s
      (Apply (opt_ext opts) (opt_Applier opts) m tmpl (phase_events opts req m) k)" for tmpl
    by (rule safe_Apply_steady [OF s(1) safe_phase [OF s(3,4)] k])
  ultimately show ?thesis
    unfolding applyManifest_def using k by (simp add: safe_SCall split: sum.splits)
qed

lemma safe_applyMerged_steady:
  assumes s: "steady s host_calls" "steady s mirror_calls" "live s" "rq_id req = jid"
    and k: "\<And>r. safe mon fin s (k r)"
  shows "safe mon fin s (applyMerged opts req k)"
proof -
  have "mon s (OS RepoSync r) = Some s" "mon s (OManifest v r') = Some s" for r v r'
    by (rule steadyD [OF s(2)], simp add: mirror_calls_def)+
  then show ?thesis
    unfolding applyMerged_def
    by (auto simp: safe_SCall safe_RepoManifest k safe_applyManifest_steady [OF s k] split: sum.splits
        intro!: safe_syncFailure)
qed

lemma safe_restorePrevious_steady:
  assumes s: "steady s host_calls" "steady s mirror_calls" "live s" "rq_id req = jid"
    and k: "\<And>r. safe mon fin s (k r)"
  shows "safe mon fin s (restorePrevious opts req k)"
proof (cases "Parse (x_yaml (opt_ext opts)) (rq_originalRaw req)")
  case (Inl e)
  then show ?thesis unfolding restorePrevious_def using k by simp
next
  case (Inr m)
  have "safe mon fin s (if ph = PhaseProbing then emit opts req StateProbing d p else p)
      = safe mon fin s p" for ph p d
    using safe_emit [OF s(3,4) not_terminal(6)] by (simp only: if_split simp_thms) blast
  then have "safe mon fin s (Apply (opt_ext opts) (opt_Applier opts) m tmpl
      (\<lambda>ph p. if ph = PhaseProbing
        then emit opts req StateProbing (''probing '' @ h_URL (m_Health m)) p else p) k)" for tmpl
    by (intro safe_Apply_steady [OF s(1) _ k])
  moreover have "mon s (OS (RepoTemplate t) r) = Some s" for t r
    by (rule steadyD [OF s(2)]) (simp add: mirror_calls_def)
  ultimately show ?thesis
    unfolding restorePrevious_def Inr sum.case safe_SCall using k by (simp split: sum.splits)
qed

lemma safe_merge_steady:
  assumes s: "steady s (merge_calls pr)" "live s" "rq_id req = jid"
    and k: "\<And>r. safe mon fin s (k r)"
  shows "safe mon fin s (mergeThroughChecks opts req pr k)"
  unfolding mergeThroughChecks_def
  by (rule safe_merge_loop [where I = "\<lambda>t. t = s" and G = "\<lambda>t. t = s"])
    (use s k in \<open>auto simp: steady_def merge_calls_def split: sum.splits\<close>)

end

end
