(* ===== verification/Secrets.thy ===== *)
theory Secrets
  imports Monitors
begin

text \<open>
  The error of a failed fetch may quote the remote's URL, and with it a credential. What the engine
  says instead is the repository's own safe reason. Here: nothing a run does, says or journals
  depends on the text of such an error. Two environments that differ only in it see the same run.
\<close>

section \<open>Programs that do not look at a fetch error's text\<close>

definition scrub :: "go_error \<Rightarrow> go_error" where
  "scrub e = e\<lparr>err_text := []\<rparr>"

definition scrub_answer :: "scall \<Rightarrow> string result \<Rightarrow> string result" where
  "scrub_answer c r = (case r of Inl e \<Rightarrow> if c = RepoSync then Inl (scrub e) else r | Inr _ \<Rightarrow> r)"

fun scrub_obs :: "obs \<Rightarrow> obs" where
  "scrub_obs (OS c r) = OS c (scrub_answer c r)"
| "scrub_obs x = x"

text \<open>The environment that leaves the texts out.\<close>

definition scrubbed :: "'w handler \<Rightarrow> 'w handler" where
  "scrubbed h = h\<lparr>h_s := (\<lambda>c w. (scrub_answer c (fst (h_s h c w)), snd (h_s h c w)))\<rparr>"

primrec blind :: "prog \<Rightarrow> bool" where
  "blind Stop = True"
| "blind (UCall c p) = blind p"
| "blind (ECall c k) = (\<forall>r. blind (k r))"
| "blind (SCall c k) = (\<forall>r. blind (k r) \<and> k (scrub_answer c r) = k r)"
| "blind (RepoManifest s k) = (\<forall>r. blind (k r))"
| "blind (RepoSyncState k) = (\<forall>r. blind (k r))"
| "blind (OpenManifestPR s c ti b k) = (\<forall>r. blind (k r))"
| "blind (WaitChecks n d k) = (\<forall>r. blind (k r))"
| "blind (Pause d k) = (\<forall>r. blind (k r))"
| "blind (Now k) = (\<forall>r. blind (k r))"

lemma blind_exec:
  "blind p \<Longrightarrow> exec (scrubbed h) p w = map_prod (map scrub_obs) id (exec h p w)"
  by (induction p arbitrary: w) (simp_all add: scrubbed_def split_beta Let_def map_prod_def del: split_paired_All)

section \<open>The engine is such a program\<close>

lemma blind_plumbing [simp]:
  "blind (emit opts req st d k) = blind k"
  "blind (finish opts req st d k) = blind k"
  "blind (fail opts req d k) = blind k"
  "blind (lockMergeQueue k) = blind k"
  by (simp_all add: emit_def finish_def fail_def lockMergeQueue_def notify_def)

lemma scrub_answer_simps [simp]:
  "scrub_answer c (Inr x) = Inr x"
  "scrub_answer RepoSync (Inl e) = Inl (scrub e)"
  "c \<noteq> RepoSync \<Longrightarrow> scrub_answer c r = r"
  by (simp_all add: scrub_answer_def split: sum.split)

text \<open>The wording of a failed fetch keeps only what the error is, not what it says.\<close>

lemma syncFailure_scrub: "syncFailure (scrub e) k = syncFailure e k"
  by (simp add: syncFailure_def errors_is_def scrub_def)

lemma blind_syncFailure: "(\<And>d. blind (k d)) \<Longrightarrow> blind (syncFailure e k)"
  by (simp add: syncFailure_def split_beta)

lemma blind_sync:
  assumes "\<And>x. blind (k (Inr x))" "\<And>d. blind (f d)"
    and "\<And>e. k (Inl e) = syncFailure e f"
  shows "blind (SCall RepoSync k)"
proof -
  have "blind (k r) \<and> k (scrub_answer RepoSync r) = k r" for r
    using assms blind_syncFailure [of f] by (cases r) (simp_all add: syncFailure_scrub)
  then show ?thesis by simp
qed

lemma blind_merge_loop: "(\<And>r. blind (k r)) \<Longrightarrow> blind (merge_loop opts req pr n lst k)"
  by (induction n arbitrary: lst) (auto split: sum.split option.split prod.split)

lemma blind_Apply:
  assumes "\<And>r. blind (k r)" "\<And>ph p. blind p \<Longrightarrow> blind (on_phase ph p)"
  shows "blind (Apply x a m tmpl on_phase k)"
proof (cases "\<exists>u. admissible_unit x a m tmpl u")
  case True
  then obtain u where u: "admissible_unit x a m tmpl u" ..
  show ?thesis unfolding Apply_admissible [OF u] using assms by (simp split: option.split)
next
  case False
  then show ?thesis using Apply_refused [OF False, of on_phase k] assms by auto
qed

lemma blind_applyManifest: "(\<And>r. blind (k r)) \<Longrightarrow> blind (applyManifest opts req m k)"
  by (auto simp: applyManifest_def phase_events_def split: sum.split intro!: blind_Apply)

lemma blind_applyMerged:
  assumes k: "\<And>r. blind (k r)"
  shows "blind (applyMerged opts req k)"
  unfolding applyMerged_def
  by (rule blind_sync [where f = "\<lambda>d. k (Some (errorf (''sync merged state: '' @ d)))"])
    (auto simp: k blind_applyManifest split: sum.split)

lemma blind_restorePrevious: "(\<And>r. blind (k r)) \<Longrightarrow> blind (restorePrevious opts req k)"
  by (auto simp: restorePrevious_def split: sum.split intro!: blind_Apply)

lemma blind_revertOnce: "(\<And>r. blind (k r)) \<Longrightarrow> blind (revertOnce opts req k)"
  by (auto simp: revertOnce_def mergeThroughChecks_def Let_def split: sum.split intro!: blind_merge_loop)

lemma blind_revert_loop: "(\<And>r. blind (k r)) \<Longrightarrow> blind (revert_loop opts n req lst k)"
  by (induction n arbitrary: req lst)
    (auto split: option.split prod.split intro!: blind_revertOnce)

lemma blind_rollback: "blind k \<Longrightarrow> blind (rollback opts req cause k)"
  by (auto simp: rollback_def revertMain_def split: option.split
      intro!: blind_restorePrevious blind_revert_loop)

lemma blind_converge:
  assumes k: "blind k"
  shows "blind (converge opts req k)"
proof -
  have pin: "blind (converge_pin opts req m k)" for m
    unfolding converge_pin_def Let_def by (auto simp: k split: option.split intro!: blind_applyManifest)
  show ?thesis
    unfolding converge_def
    by (rule blind_sync [where f = "\<lambda>d. fail opts req (''sync merged state: '' @ d) k"])
      (auto simp: k pin split: sum.split option.split)
qed

lemma blind_land: "blind k \<Longrightarrow> blind (land opts req sha k)"
  by (auto simp: land_def Let_def split: option.split intro!: blind_applyMerged blind_rollback)

lemma blind_propose: "blind k \<Longrightarrow> blind (propose opts req m raw k)"
  by (auto simp: propose_def follow_proposal_def mergeThroughChecks_def Let_def
      split: sum.split option.split intro!: blind_merge_loop blind_land)

lemma blind_already_pinned: "blind k \<Longrightarrow> blind (already_pinned opts req k)"
  by (auto simp: already_pinned_def split: option.split intro!: blind_applyMerged blind_rollback)

lemma blind_run: "blind (run opts req)"
proof -
  have turn: "blind (run_turn opts req (UCall (UnlockService (rq_service req)) Stop))"
    by (auto simp: run_turn_def split: sum.split
        intro!: blind_converge blind_already_pinned blind_propose)
  show ?thesis
    unfolding run_def blind_plumbing
    by (rule blind_sync [where f = "\<lambda>d. fail opts req d Stop"])
      (auto simp: lock_def turn split: option.split)
qed

text \<open>
  C30. No credential in the record. Take the text of every fetch error away: the run makes the same
  calls with the same arguments, so every journal detail, event and pull request reads the same.
  Nothing in a fetch error's text, and so no credential in the URL it quotes, reaches any of them.
\<close>

theorem fetch_errors_stay_inside:
  "exec (scrubbed h) (run opts req) w =
     (map scrub_obs (fst (exec h (run opts req) w)), snd (exec h (run opts req) w))"
  using blind_exec [OF blind_run, of h opts req w] by (simp add: map_prod_def split_beta)

end
