(* ===== verification/Config_File.thy ===== *)
theory Config_File
  imports Manifest "HOL-Library.Multiset"
begin

text \<open>
  The daemon's configuration, \<open>config/config.go\<close>: defaults, validation, loading. The YAML decoder
  and the file are arguments, and so is the order in which Go ranges over the map of required fields.
\<close>

section \<open>The configuration\<close>

record config =
  cf_Listen :: string
  cf_MetricsListen :: string
  cf_RepoURL :: string
  cf_RepoBranch :: string
  cf_ManifestDir :: string
  cf_TemplateDir :: string
  cf_CacheDir :: string
  cf_UnitDir :: string
  cf_JournalPath :: string
  cf_GitHubAppID :: int
  cf_GitHubInstallID :: int
  cf_GitHubKeyFile :: string
  cf_GitHubOwner :: string
  cf_GitHubRepo :: string
  cf_CLITokenHashFile :: string
  cf_ProxySecretFile :: string
  cf_ProxyAllowedUsers :: "string list"
  cf_PollInterval :: int
  cf_DriftInterval :: int
  cf_CheckPollInterval :: int
  cf_ProbeInterval :: int
  cf_VolumePrefixes :: "string list"
  cf_EnvFilePrefixes :: "string list"

definition second_ns :: int where
  "second_ns = 10 ^ 9"

definition DefaultListen :: string where
  "DefaultListen = ''127.0.0.1:8092''"

definition DefaultMetricsListen :: string where
  "DefaultMetricsListen = ''127.0.0.1:9105''"

definition DefaultBranch :: string where
  "DefaultBranch = ''main''"

definition DefaultManifestDir :: string where
  "DefaultManifestDir = ''deploy/manifests''"

definition DefaultTemplateDir :: string where
  "DefaultTemplateDir = ''deploy/templates''"

definition DefaultPollInterval :: int where
  "DefaultPollInterval = 5 * 60 * second_ns"

definition DefaultDriftInterval :: int where
  "DefaultDriftInterval = 5 * 60 * second_ns"

definition DefaultCheckPollInterval :: int where
  "DefaultCheckPollInterval = 15 * second_ns"

definition DefaultConfigProbeInterval :: int where
  "DefaultConfigProbeInterval = 2 * second_ns"

definition loopbackPrefixes :: "string list" where
  "loopbackPrefixes = [''127.0.0.1:'', ''[::1]:'']"

definition config_Limits :: "config \<Rightarrow> limits" where
  "config_Limits c =
     \<lparr>lim_VolumePrefixes = cf_VolumePrefixes c, lim_EnvFilePrefixes = cf_EnvFilePrefixes c\<rparr>"

section \<open>Defaults\<close>

definition setString :: "string \<Rightarrow> string \<Rightarrow> string" where
  "setString field fallback = (if TrimSpace field = [] then fallback else field)"

definition setDuration :: "int \<Rightarrow> int \<Rightarrow> int" where
  "setDuration field fallback = (if field \<le> 0 then fallback else field)"

definition config_applyDefaults :: "config \<Rightarrow> config" where
  "config_applyDefaults c = c\<lparr>
     cf_Listen := setString (cf_Listen c) DefaultListen,
     cf_MetricsListen := setString (cf_MetricsListen c) DefaultMetricsListen,
     cf_RepoBranch := setString (cf_RepoBranch c) DefaultBranch,
     cf_ManifestDir := setString (cf_ManifestDir c) DefaultManifestDir,
     cf_TemplateDir := setString (cf_TemplateDir c) DefaultTemplateDir,
     cf_PollInterval := setDuration (cf_PollInterval c) DefaultPollInterval,
     cf_DriftInterval := setDuration (cf_DriftInterval c) DefaultDriftInterval,
     cf_CheckPollInterval := setDuration (cf_CheckPollInterval c) DefaultCheckPollInterval,
     cf_ProbeInterval := setDuration (cf_ProbeInterval c) DefaultConfigProbeInterval\<rparr>"

section \<open>Validation\<close>

definition checkLoopback :: "string \<Rightarrow> string \<Rightarrow> go_error option" where
  "checkLoopback field addr =
     (if list_ex (HasPrefix addr) loopbackPrefixes then None
      else Some (errorf (field @ '' '' @ quote addr @ '' is not loopback (it must start with ''
             @ quote (loopbackPrefixes ! 0) @ '' or '' @ quote (loopbackPrefixes ! 1) @ '')'')))"

definition required_fields :: "config \<Rightarrow> (string \<times> string) list" where
  "required_fields c =
     [(''repo_url'', cf_RepoURL c), (''github_key_file'', cf_GitHubKeyFile c),
      (''github_owner'', cf_GitHubOwner c), (''github_repo'', cf_GitHubRepo c)]"

definition prefix_errs :: "string \<Rightarrow> string list \<Rightarrow> go_error list" where
  "prefix_errs field ps =
     map (\<lambda>p. errorf (field @ '' entry '' @ quote p @ '' is not an absolute path''))
         (filter (\<lambda>p. \<not> HasPrefix p ''/'') ps)"

definition proxy_errs :: "config \<Rightarrow> go_error list" where
  "proxy_errs c =
     (let hasSecret = (cf_ProxySecretFile c \<noteq> []); hasUsers = (cf_ProxyAllowedUsers c \<noteq> []) in
      (if hasSecret \<noteq> hasUsers
       then [errorf ''proxy_secret_file and proxy_allowed_users must be set together''] else []) @
      (if hasSecret \<and> \<not> HasPrefix (cf_ProxySecretFile c) ''/''
       then [errorf (''proxy_secret_file '' @ quote (cf_ProxySecretFile c) @ '' is not an absolute path'')]
       else []))"

definition opt_list :: "'a option \<Rightarrow> 'a list" where
  "opt_list x = (case x of None \<Rightarrow> [] | Some y \<Rightarrow> [y])"

text \<open>\<open>ranged\<close> is the order of the range over the map.\<close>

definition config_errs ::
    "((string \<times> string) list \<Rightarrow> (string \<times> string) list) \<Rightarrow> config \<Rightarrow> go_error list" where
  "config_errs ranged c =
     opt_list (checkLoopback ''listen'' (cf_Listen c)) @
     opt_list (checkLoopback ''metrics_listen'' (cf_MetricsListen c)) @
     (if cf_Listen c = cf_MetricsListen c
      then [errorf (''listen and metrics_listen must differ (both '' @ cf_Listen c @ '')'')] else []) @
     map (\<lambda>(field, _). errorf (field @ '' is required''))
       (filter (\<lambda>(_, value). TrimSpace value = []) (ranged (required_fields c))) @
     (if cf_GitHubAppID c = 0 then [errorf ''github_app_id is required''] else []) @
     (if cf_GitHubInstallID c = 0 then [errorf ''github_install_id is required''] else []) @
     proxy_errs c @
     prefix_errs ''volume_prefixes'' (cf_VolumePrefixes c) @
     prefix_errs ''env_file_prefixes'' (cf_EnvFilePrefixes c)"

definition config_validate ::
    "((string \<times> string) list \<Rightarrow> (string \<times> string) list) \<Rightarrow> config \<Rightarrow> go_error option" where
  "config_validate ranged c = errors_join (config_errs ranged c)"

definition Load ::
    "((string \<times> string) list \<Rightarrow> (string \<times> string) list) \<Rightarrow> (string \<Rightarrow> config result) \<Rightarrow>
     (string \<Rightarrow> string result) \<Rightarrow> string \<Rightarrow> config result" where
  "Load ranged decode read path =
     (case read path of
        Inl e \<Rightarrow> Inl (wrap ''read configuration: '' e)
      | Inr data \<Rightarrow>
     (case decode data of
        Inl e \<Rightarrow> Inl (wrap (''parse configuration '' @ path @ '': '') e)
      | Inr c \<Rightarrow>
          let cfg = config_applyDefaults c in
          (case config_validate ranged cfg of
             Some e \<Rightarrow> Inl (wrap (''configuration '' @ path @ '': '') e)
           | None \<Rightarrow> Inr cfg)))"

section \<open>What a loaded configuration is\<close>

definition loopback :: "string \<Rightarrow> bool" where
  "loopback addr \<longleftrightarrow> HasPrefix addr ''127.0.0.1:'' \<or> HasPrefix addr ''[::1]:''"

definition absolute :: "string \<Rightarrow> bool" where
  "absolute p \<longleftrightarrow> HasPrefix p ''/''"

definition given :: "string \<Rightarrow> bool" where
  "given s \<longleftrightarrow> TrimSpace s \<noteq> []"

definition well_formed :: "config \<Rightarrow> bool" where
  "well_formed c \<longleftrightarrow>
     loopback (cf_Listen c) \<and> loopback (cf_MetricsListen c) \<and> cf_Listen c \<noteq> cf_MetricsListen c \<and>
     given (cf_RepoURL c) \<and> given (cf_GitHubKeyFile c) \<and> given (cf_GitHubOwner c) \<and>
     given (cf_GitHubRepo c) \<and> cf_GitHubAppID c \<noteq> 0 \<and> cf_GitHubInstallID c \<noteq> 0 \<and>
     (cf_ProxySecretFile c = [] \<and> cf_ProxyAllowedUsers c = [] \<or>
      absolute (cf_ProxySecretFile c) \<and> cf_ProxyAllowedUsers c \<noteq> []) \<and>
     list_all absolute (cf_VolumePrefixes c) \<and> list_all absolute (cf_EnvFilePrefixes c)"

definition defaulted :: "config \<Rightarrow> bool" where
  "defaulted c \<longleftrightarrow>
     given (cf_Listen c) \<and> given (cf_MetricsListen c) \<and> given (cf_RepoBranch c) \<and>
     given (cf_ManifestDir c) \<and> given (cf_TemplateDir c) \<and>
     0 < cf_PollInterval c \<and> 0 < cf_DriftInterval c \<and> 0 < cf_CheckPollInterval c \<and>
     0 < cf_ProbeInterval c"

lemma opt_list_Nil [simp]: "opt_list x = [] \<longleftrightarrow> x = None"
  by (simp add: opt_list_def split: option.split)

lemma checkLoopback_None: "checkLoopback field addr = None \<longleftrightarrow> loopback addr"
  by (simp add: checkLoopback_def loopbackPrefixes_def loopback_def)

lemma prefix_errs_Nil: "prefix_errs field ps = [] \<longleftrightarrow> list_all absolute ps"
  by (simp add: prefix_errs_def absolute_def filter_empty_conv list_all_iff)

lemma proxy_errs_Nil:
  "proxy_errs c = [] \<longleftrightarrow>
     cf_ProxySecretFile c = [] \<and> cf_ProxyAllowedUsers c = [] \<or>
     absolute (cf_ProxySecretFile c) \<and> cf_ProxyAllowedUsers c \<noteq> []"
  by (auto simp: proxy_errs_def absolute_def HasPrefix_def Let_def)

lemma config_errs_Nil:
  assumes "mset (ranged (required_fields c)) = mset (required_fields c)"
  shows "config_errs ranged c = [] \<longleftrightarrow> well_formed c"
proof -
  have "set (ranged (required_fields c)) = set (required_fields c)"
    using assms by (rule mset_eq_setD)
  then have "filter (\<lambda>(_, v). TrimSpace v = []) (ranged (required_fields c)) = [] \<longleftrightarrow>
      given (cf_RepoURL c) \<and> given (cf_GitHubKeyFile c) \<and> given (cf_GitHubOwner c) \<and>
      given (cf_GitHubRepo c)"
    by (auto simp: filter_empty_conv required_fields_def given_def)
  then show ?thesis
    unfolding config_errs_def well_formed_def
    by (auto simp: checkLoopback_None prefix_errs_Nil proxy_errs_Nil)
qed

lemma not_blank:
  "given DefaultListen" "given DefaultMetricsListen" "given DefaultBranch" "given DefaultManifestDir"
  "given DefaultTemplateDir"
  by (simp_all add: given_def DefaultListen_def DefaultMetricsListen_def DefaultBranch_def
      DefaultManifestDir_def DefaultTemplateDir_def TrimSpace_def space_len_def space_len_end_def
      space_runes_def TrimLeftSpace.simps TrimRightSpace.simps)

lemma setString_given: "given fallback \<Longrightarrow> given (setString field fallback)"
  by (simp add: setString_def given_def)

lemma setDuration_positive: "0 < fallback \<Longrightarrow> 0 < setDuration field fallback"
  by (simp add: setDuration_def)

lemma defaulted_applyDefaults: "defaulted (config_applyDefaults c)"
  by (simp add: defaulted_def config_applyDefaults_def setString_given setDuration_positive not_blank
      DefaultPollInterval_def DefaultDriftInterval_def DefaultCheckPollInterval_def
      DefaultConfigProbeInterval_def second_ns_def)

lemma Load_exact:
  assumes "\<And>xs. mset (ranged xs) = mset xs"
  shows "Load ranged decode read path = Inr c \<longleftrightarrow>
    (\<exists>data c0. read path = Inr data \<and> decode data = Inr c0 \<and> c = config_applyDefaults c0 \<and>
       well_formed c \<and> defaulted c)"
proof -
  have valid: "well_formed d \<longleftrightarrow> config_validate ranged d = None" for d
    using config_errs_Nil assms by (simp add: config_validate_def)
  have "(case config_validate ranged d of Some e \<Rightarrow> Inl (wrap x e) | None \<Rightarrow> Inr d) = Inr c \<longleftrightarrow>
      well_formed d \<and> d = c" for d x
    by (cases "config_validate ranged d") (simp_all add: valid)
  then show ?thesis
    using defaulted_applyDefaults
    by (cases "read path"; cases "decode (projr (read path))") (auto simp: Load_def Let_def)
qed

text \<open>
  C36. The daemon runs on a well-formed configuration. A configuration is loaded exactly when the file
  could be read, decoded without an unknown key, and is well formed once the defaults are in: both
  listeners on loopback and different, the repository and the App identified, the browser path either
  closed or opened with an absolute secret file and users, every allowlist entry absolute; and what is
  loaded has a branch, the directories and positive intervals. The order in which the required fields
  are looked at plays no part.
\<close>

theorem loaded_configuration:
  assumes "\<And>xs. mset (ranged xs) = mset xs"
  shows "Load ranged decode read path = Inr c \<longleftrightarrow>
    (\<exists>data c0. read path = Inr data \<and> decode data = Inr c0 \<and> c = config_applyDefaults c0 \<and>
       well_formed c \<and> defaulted c)"
  using assms by (rule Load_exact)

definition sample_config_file :: config where
  "sample_config_file =
     \<lparr>cf_Listen = [], cf_MetricsListen = [], cf_RepoURL = ''https://h/r'', cf_RepoBranch = [],
      cf_ManifestDir = [], cf_TemplateDir = [], cf_CacheDir = ''/c'', cf_UnitDir = ''/u'',
      cf_JournalPath = ''/j'', cf_GitHubAppID = 1, cf_GitHubInstallID = 2, cf_GitHubKeyFile = ''/k'',
      cf_GitHubOwner = ''o'', cf_GitHubRepo = ''r'', cf_CLITokenHashFile = [], cf_ProxySecretFile = [],
      cf_ProxyAllowedUsers = [], cf_PollInterval = 0, cf_DriftInterval = 0, cf_CheckPollInterval = 0,
      cf_ProbeInterval = 0, cf_VolumePrefixes = [''/srv''], cf_EnvFilePrefixes = []\<rparr>"

lemma sample_well_formed: "well_formed (config_applyDefaults sample_config_file)"
  by (simp add: well_formed_def config_applyDefaults_def sample_config_file_def loopback_def
      absolute_def given_def setString_def DefaultListen_def DefaultMetricsListen_def HasPrefix_def
      TrimSpace_def space_len_def space_len_end_def space_runes_def TrimLeftSpace.simps
      TrimRightSpace.simps)

lemma sample_loads: "Load rev (\<lambda>_. Inr sample_config_file) (\<lambda>_. Inr []) path = Inr (config_applyDefaults sample_config_file)"
  using Load_exact [of rev "\<lambda>_. Inr sample_config_file" "\<lambda>_. Inr []"]
    defaulted_applyDefaults sample_well_formed by simp

theorem loaded_configuration_witness:
  "Load rev (\<lambda>_. Inr sample_config_file) (\<lambda>_. Inr []) ''/etc'' = Inr (config_applyDefaults sample_config_file)"
  using loaded_configuration [of rev "\<lambda>_. Inr sample_config_file" "\<lambda>_. Inr []"]
    defaulted_applyDefaults sample_well_formed by simp

end
