(* ===== verification/Repo.thy ===== *)
theory Repo
  imports Manifest "HOL-Library.List_Lexorder" "HOL-Library.Char_ord"
begin

text \<open>
  The mirror of the configuration repository, \<open>gitops/repo.go\<close>: bringing it to the head of the
  merged branch, what it says of a failed attempt, and reading manifests and templates out of it.
  go-git is a record of operations on a world; the files are an argument.
\<close>

section \<open>Fallible operations on a world\<close>

type_synonym ('w, 'a) act = "'w \<Rightarrow> 'a result \<times> 'w"
type_synonym 'w check_act = "'w \<Rightarrow> go_error option \<times> 'w"

definition done_with :: "'a \<Rightarrow> ('w, 'a) act" where
  "done_with x w = (Inr x, w)"

definition failing_with :: "go_error \<Rightarrow> ('w, 'a) act" where
  "failing_with e w = (Inl e, w)"

text \<open>\<open>x, err := f(); if err != nil { return wrapped }\<close>, and the same for a call with only an error.\<close>

definition try_val :: "('w, 'a) act \<Rightarrow> (go_error \<Rightarrow> go_error) \<Rightarrow> ('a \<Rightarrow> ('w, 'b) act) \<Rightarrow> ('w, 'b) act" where
  "try_val f wr k w = (case f w of (Inl e, w') \<Rightarrow> (Inl (wr e), w') | (Inr x, w') \<Rightarrow> k x w')"

definition try_ok :: "'w check_act \<Rightarrow> (go_error \<Rightarrow> go_error) \<Rightarrow> ('w, 'b) act \<Rightarrow> ('w, 'b) act" where
  "try_ok f wr k w = (case f w of (Some e, w') \<Rightarrow> (Inl (wr e), w') | (None, w') \<Rightarrow> k w')"

lemmas act_defs = done_with_def failing_with_def try_val_def try_ok_def

lemma try_val_Inr:
  "try_val f wr k w = (Inr x, w') \<longleftrightarrow> (\<exists>y w1. f w = (Inr y, w1) \<and> k y w1 = (Inr x, w'))"
  by (auto simp: try_val_def split: prod.splits sum.splits)

lemma try_ok_Inr:
  "try_ok f wr k w = (Inr x, w') \<longleftrightarrow> (\<exists>w1. f w = (None, w1) \<and> k w1 = (Inr x, w'))"
  by (auto simp: try_ok_def split: prod.splits option.splits)

lemma done_with_Inr: "done_with y w = (Inr x, w') \<longleftrightarrow> y = x \<and> w = w'"
  by (simp add: done_with_def)

section \<open>The vocabulary of sync failures\<close>

definition err_CredentialUnavailable :: go_error where
  "err_CredentialUnavailable =
     \<lparr>err_text = ''github app credential unavailable'', err_chain = [ErrCredentialUnavailable]\<rparr>"

definition err_NeverSynced :: go_error where
  "err_NeverSynced =
     \<lparr>err_text = ''the daemon has not read the configuration repository yet, ''
                 @ ''so it does not know which services exist'',
      err_chain = [ErrNeverSynced]\<rparr>"

definition err_CredentialUnreadable :: go_error where
  "err_CredentialUnreadable =
     \<lparr>err_text = err_text err_CredentialUnavailable
                 @ '': the daemon has no copy of the merged manifests and cannot tell ''
                 @ ''which services exist; the secret store is probably sealed'',
      err_chain = [ErrCredentialUnreadable, ErrCredentialUnavailable]\<rparr>"

definition err_RemoteUnreachable :: go_error where
  "err_RemoteUnreachable =
     \<lparr>err_text = ''the configuration repository could not be fetched, ''
                 @ ''so the daemon has no current copy of the merged manifests'',
      err_chain = [ErrRemoteUnreachable]\<rparr>"

definition classifySyncFailure :: "go_error \<Rightarrow> go_error" where
  "classifySyncFailure err =
     (if errors_is err ErrCredentialUnavailable then err_CredentialUnreadable
      else err_RemoteUnreachable)"

section \<open>The mirror\<close>

record 'w repo_config =
  rc_URL :: string
  rc_Branch :: string
  rc_CacheDir :: string
  rc_ManifestDir :: string
  rc_TemplateDir :: string
  rc_TokenFn :: "('w, string) act option"

record basic_auth =
  ba_Username :: string
  ba_Password :: string

text \<open>The go-git calls, on the repository in the cache directory.\<close>

record 'w git =
  git_PlainOpen :: "string \<Rightarrow> 'w check_act"
  git_PlainClone :: "string \<Rightarrow> string \<Rightarrow> basic_auth option \<Rightarrow> string \<Rightarrow> 'w check_act"
  git_Fetch :: "string \<Rightarrow> basic_auth option \<Rightarrow> 'w check_act"
  git_Reference :: "string \<Rightarrow> ('w, string) act"
  git_Worktree :: "'w check_act"
  git_Reset :: "string \<Rightarrow> 'w check_act"
  git_Clean :: "'w check_act"

record mirror =
  mr_synced :: bool
  mr_failure :: "go_error option"

definition NewRepo :: "'w repo_config \<Rightarrow> 'w repo_config \<times> mirror" where
  "NewRepo cfg =
     (cfg\<lparr>rc_Branch := if rc_Branch cfg = [] then ''main'' else rc_Branch cfg\<rparr>,
      \<lparr>mr_synced = False, mr_failure = None\<rparr>)"

definition ManifestPath :: "'w repo_config \<Rightarrow> string \<Rightarrow> string" where
  "ManifestPath cfg service = PathJoin [rc_ManifestDir cfg, service @ ''.yaml'']"

definition auth :: "'w repo_config \<Rightarrow> ('w, basic_auth option) act" where
  "auth cfg =
     (case rc_TokenFn cfg of
        None \<Rightarrow> done_with None
      | Some token \<Rightarrow>
          if \<not> HasPrefix (rc_URL cfg) ''http'' then done_with None
          else try_val token (\<lambda>e. e) (\<lambda>t.
                 done_with (Some \<lparr>ba_Username = ''x-access-token'', ba_Password = t\<rparr>)))"

definition openOrClone :: "'w git \<Rightarrow> 'w repo_config \<Rightarrow> ('w, unit) act" where
  "openOrClone g cfg w =
     (case git_PlainOpen g (rc_CacheDir cfg) w of
        (None, w1) \<Rightarrow> (Inr (), w1)
      | (Some err, w1) \<Rightarrow>
          if \<not> errors_is err ErrRepositoryNotExists
          then (Inl (wrap (''open cache '' @ rc_CacheDir cfg @ '': '') err), w1)
          else try_val (auth cfg) (\<lambda>e. e) (\<lambda>a.
                 try_ok (git_PlainClone g (rc_CacheDir cfg) (rc_URL cfg) a
                           (''refs/heads/'' @ rc_Branch cfg))
                   (wrap (''clone '' @ rc_URL cfg @ '': ''))
                 (done_with ())) w1)"

text \<open>A fetch that found nothing new is no failure.\<close>

definition fetch_ok :: "go_error option \<times> 'w \<Rightarrow> go_error option \<times> 'w" where
  "fetch_ok rw =
     (case rw of
        (Some e, w) \<Rightarrow> (if errors_is e NoErrAlreadyUpToDate then None else Some e, w)
      | (None, w) \<Rightarrow> (None, w))"

definition fetchAndReset :: "'w git \<Rightarrow> 'w repo_config \<Rightarrow> ('w, string) act" where
  "fetchAndReset g cfg =
     try_val (openOrClone g cfg) (\<lambda>e. e) (\<lambda>_.
     try_val (auth cfg) (\<lambda>e. e) (\<lambda>a.
     try_ok (\<lambda>w. fetch_ok (git_Fetch g
               (''+refs/heads/'' @ rc_Branch cfg @ '':refs/remotes/origin/'' @ rc_Branch cfg) a w))
       (wrap (''fetch '' @ rc_Branch cfg @ '': ''))
     (try_val (git_Reference g (''refs/remotes/origin/'' @ rc_Branch cfg))
       (wrap (''resolve origin/'' @ rc_Branch cfg @ '': '')) (\<lambda>hash.
     try_ok (git_Worktree g) (wrap ''open worktree: '')
     (try_ok (git_Reset g hash) (wrap (''reset to origin/'' @ rc_Branch cfg @ '': ''))
     (try_ok (git_Clean g) (wrap ''clean worktree: '')
     (done_with hash)))))))"

text \<open>What \<open>Sync\<close> records of an attempt, and \<open>Sync\<close> itself.\<close>

definition record_sync :: "string result \<Rightarrow> mirror \<Rightarrow> mirror" where
  "record_sync r m =
     (case r of
        Inl err \<Rightarrow> m\<lparr>mr_failure := Some (classifySyncFailure err)\<rparr>
      | Inr _ \<Rightarrow> m\<lparr>mr_synced := True, mr_failure := None\<rparr>)"

definition Sync :: "'w git \<Rightarrow> 'w repo_config \<Rightarrow> mirror \<Rightarrow> 'w \<Rightarrow> string result \<times> mirror \<times> 'w" where
  "Sync g cfg m w = (case fetchAndReset g cfg w of (r, w') \<Rightarrow> (r, record_sync r m, w'))"

definition SyncState :: "mirror \<Rightarrow> bool \<times> go_error option" where
  "SyncState m =
     (if \<not> mr_synced m \<and> mr_failure m = None then (False, Some err_NeverSynced)
      else (mr_synced m, mr_failure m))"

section \<open>Reading\<close>

definition requireSyncedLocked :: "mirror \<Rightarrow> go_error option" where
  "requireSyncedLocked m =
     (if \<not> mr_synced m \<and> mr_failure m = None then Some err_NeverSynced
      else if \<not> mr_synced m then mr_failure m else None)"

definition checkName :: "string \<Rightarrow> go_error option" where
  "checkName name =
     (if name = [] then Some (errorf ''name is empty'')
      else if name = ''.'' \<or> name = ''..'' \<or> Contains name ''/'' \<or> Contains name [CHR 0x5C]
              \<or> Contains name ''..''
      then Some (errorf (''name '' @ quote name @ '' is not a plain file name''))
      else None)"

definition readRelative ::
    "'w repo_config \<Rightarrow> mirror \<Rightarrow> (string \<Rightarrow> string result) \<Rightarrow> string \<Rightarrow> string \<Rightarrow> string \<Rightarrow> string result" where
  "readRelative cfg m files dir file nameForCheck =
     (case requireSyncedLocked m of
        Some e \<Rightarrow> Inl e
      | None \<Rightarrow>
     (case checkName nameForCheck of
        Some e \<Rightarrow> Inl e
      | None \<Rightarrow>
     (case files (PathJoin [rc_CacheDir cfg, dir, file]) of
        Inl e \<Rightarrow> Inl (wrap (''read '' @ PathJoin [dir, file] @ '': '') e)
      | Inr raw \<Rightarrow> Inr raw)))"

definition repo_Manifest ::
    "(string \<Rightarrow> manifest result) \<Rightarrow> 'w repo_config \<Rightarrow> mirror \<Rightarrow> (string \<Rightarrow> string result) \<Rightarrow> string \<Rightarrow>
     (manifest \<times> string) result" where
  "repo_Manifest decode cfg m files service =
     (case readRelative cfg m files (rc_ManifestDir cfg) (service @ ''.yaml'') service of
        Inl e \<Rightarrow> Inl e
      | Inr raw \<Rightarrow>
          (case Parse decode raw of
             Inl e \<Rightarrow> Inl (wrap (''manifest '' @ service @ '': '') e)
           | Inr mf \<Rightarrow> Inr (mf, raw)))"

definition repo_Template ::
    "'w repo_config \<Rightarrow> mirror \<Rightarrow> (string \<Rightarrow> string result) \<Rightarrow> string \<Rightarrow> string result" where
  "repo_Template cfg m files name = readRelative cfg m files (rc_TemplateDir cfg) name name"

text \<open>\<open>filepath.Ext\<close> of a file name: from its last dot on, nothing when it has none.\<close>

definition Ext :: "string \<Rightarrow> string" where
  "Ext name = (if CHR ''.'' \<in> set name
               then CHR ''.'' # rev (takeWhile (\<lambda>c. c \<noteq> CHR ''.'') (rev name)) else [])"

text \<open>The directory listing is entries with a flag for directories.\<close>

definition repo_Services :: "mirror \<Rightarrow> (string \<times> bool) list result \<Rightarrow> string list result" where
  "repo_Services m listing =
     (case requireSyncedLocked m of
        Some e \<Rightarrow> Inl e
      | None \<Rightarrow>
     (case listing of
        Inl e \<Rightarrow> Inl (wrap ''list manifests: '' e)
      | Inr entries \<Rightarrow>
          Inr (sort (map (\<lambda>(n, _). TrimSuffix n ''.yaml'')
                     (filter (\<lambda>(n, is_dir). \<not> is_dir \<and> Ext n = ''.yaml'') entries)))))"

section \<open>What the mirror guarantees\<close>

text \<open>
  A successful sync is the remote's head. When \<open>Sync\<close> answers a commit, the branch was fetched
  (or found up to date), the commit is what the remote-tracking branch then resolved to, the working
  tree was reset hard to it and cleaned, all without error and in this order, and the mirror is
  marked synced with no failure.
\<close>

theorem sync_success_exact:
  "Sync g cfg m w = (Inr head, m', w') \<longleftrightarrow>
     m' = m\<lparr>mr_synced := True, mr_failure := None\<rparr> \<and>
     (\<exists>w1 a w2 w3 w4 w5 w6.
        openOrClone g cfg w = (Inr (), w1) \<and> auth cfg w1 = (Inr a, w2) \<and>
        fetch_ok (git_Fetch g (''+refs/heads/'' @ rc_Branch cfg @ '':refs/remotes/origin/''
                               @ rc_Branch cfg) a w2) = (None, w3) \<and>
        git_Reference g (''refs/remotes/origin/'' @ rc_Branch cfg) w3 = (Inr head, w4) \<and>
        git_Worktree g w4 = (None, w5) \<and> git_Reset g head w5 = (None, w6) \<and>
        git_Clean g w6 = (None, w'))"
proof -
  have "Sync g cfg m w = (Inr head, m', w') \<longleftrightarrow>
      m' = m\<lparr>mr_synced := True, mr_failure := None\<rparr> \<and> fetchAndReset g cfg w = (Inr head, w')"
    by (auto simp: Sync_def record_sync_def split: prod.splits)
  then show ?thesis
    unfolding fetchAndReset_def try_val_Inr try_ok_Inr done_with_Inr by auto
qed

text \<open>What the last attempt left to say, and whether any succeeded.\<close>

definition attempts :: "string result list \<Rightarrow> mirror \<Rightarrow> mirror" where
  "attempts rs m = fold record_sync rs m"

lemma attempts_snoc: "attempts (rs @ [r]) m = record_sync r (attempts rs m)"
  by (simp add: attempts_def)

lemma attempts_synced:
  "mr_synced (attempts rs (snd (NewRepo cfg))) \<longleftrightarrow> (\<exists>h. Inr h \<in> set rs)"
  by (induction rs rule: rev_induct)
    (auto simp: attempts_snoc record_sync_def NewRepo_def attempts_def split: sum.split)

lemma attempts_failure:
  "mr_failure (attempts rs (snd (NewRepo cfg))) =
     (if rs = [] then None
      else case last rs of Inl e \<Rightarrow> Some (classifySyncFailure e) | Inr _ \<Rightarrow> None)"
  by (induction rs rule: rev_induct)
    (auto simp: attempts_snoc record_sync_def NewRepo_def attempts_def split: sum.split)

text \<open>
  C32. The mirror's own words. After any attempts, what \<open>SyncState\<close> says is this: never synced
  before the first one; otherwise whether some attempt succeeded, and of the last one nothing if it
  succeeded, else one of two fixed sentences, chosen by whether the credential was unavailable. No
  text of any error takes part.
\<close>

theorem sync_state_exact:
  "SyncState (attempts rs (snd (NewRepo cfg))) =
     (if rs = [] then (False, Some err_NeverSynced)
      else (\<exists>h. Inr h \<in> set rs,
            case last rs of
              Inr _ \<Rightarrow> None
            | Inl e \<Rightarrow> Some (if ErrCredentialUnavailable \<in> set (err_chain e)
                            then err_CredentialUnreadable else err_RemoteUnreachable)))"
proof (cases "rs = []")
  case False
  have "\<exists>h. Inr h \<in> set rs" if "last rs = Inr h'" for h'
    using that False last_in_set by metis
  then show ?thesis
    unfolding SyncState_def attempts_synced attempts_failure
    using False by (auto simp: classifySyncFailure_def errors_is_def split: sum.split)
qed (simp add: SyncState_def attempts_def NewRepo_def)

lemma checkName_plain: "checkName n = None \<Longrightarrow> plain_elem n"
proof -
  assume a: "checkName n = None"
  have "slash \<in> set n \<Longrightarrow> sublist [slash] n"
    by (auto simp: in_set_conv_decomp sublist_def)
  then show ?thesis using a by (auto simp: checkName_def plain_elem_def Contains_def split: if_splits)
qed

lemma plain_yaml: "plain_elem n \<Longrightarrow> plain_elem (n @ ''.yaml'')"
  by (auto simp: plain_elem_def append_eq_Cons_conv Cons_eq_append_conv)

text \<open>
  C33. Manifests are read from their directory. When a manifest is served, its bytes are those of one
  file, whose path below the cache consists of the manifest directory and the single name
  \<open>service.yaml\<close>, whatever the client sent as a service; the mirror had been synced; and the
  manifest is those bytes parsed.
\<close>

theorem manifest_read_confined:
  assumes "is_rooted (rc_CacheDir cfg)"
    and "list_all plain_elem (split_on slash (rc_ManifestDir cfg))"
    and "repo_Manifest decode cfg m files service = Inr (mf, raw)"
  shows "\<exists>p. files p = Inr raw \<and>
    path_elems p = path_elems (rc_CacheDir cfg) @ split_on slash (rc_ManifestDir cfg) @ [service @ ''.yaml''] \<and>
    plain_elem (service @ ''.yaml'') \<and> mr_synced m \<and> Parse decode raw = Inr mf"
proof -
  let ?p = "PathJoin [rc_CacheDir cfg, rc_ManifestDir cfg, service @ ''.yaml'']"
  have r: "readRelative cfg m files (rc_ManifestDir cfg) (service @ ''.yaml'') service = Inr raw"
    and p: "Parse decode raw = Inr mf"
    using assms(3) by (auto simp: repo_Manifest_def split: sum.splits)
  have s: "requireSyncedLocked m = None" and c: "checkName service = None" and f: "files ?p = Inr raw"
    using r by (simp_all add: readRelative_def split: option.splits sum.splits)
  have pl: "plain_elem (service @ ''.yaml'')" using plain_yaml [OF checkName_plain [OF c]] .
  have "mr_synced m" using s by (auto simp: requireSyncedLocked_def split: if_splits)
  moreover have "path_elems ?p =
      path_elems (rc_CacheDir cfg) @ split_on slash (rc_ManifestDir cfg) @ [service @ ''.yaml'']"
    using assms(1,2) pl by (intro path_elems_Join_plain) (simp_all add: list_all_iff)
  ultimately show ?thesis using f pl p by blast
qed

definition sample_config :: "unit repo_config" where
  "sample_config =
     \<lparr>rc_URL = ''http://git.acme.example/config'', rc_Branch = ''main'', rc_CacheDir = ''/var/cache'',
      rc_ManifestDir = ''deploy/manifests'', rc_TemplateDir = ''deploy/templates'',
      rc_TokenFn = Some (done_with ''ghs_secret'')\<rparr>"

definition sample_files :: "string \<Rightarrow> string result" where
  "sample_files p = (if p = ''/var/cache/deploy/manifests/web.yaml'' then Inr ''name: web''
                     else Inl (errorf ''no such file''))"

lemma manifest_read_confined_witness:
  "\<exists>p. sample_files p = Inr ''name: web'' \<and>
     path_elems p = [''var'', ''cache'', ''deploy'', ''manifests'', ''web.yaml'']"
proof -
  have "\<exists>p. sample_files p = Inr ''name: web'' \<and>
    path_elems p = path_elems (rc_CacheDir sample_config)
      @ split_on slash (rc_ManifestDir sample_config) @ [''web'' @ ''.yaml''] \<and>
    plain_elem (''web'' @ ''.yaml'') \<and> mr_synced \<lparr>mr_synced = True, mr_failure = None\<rparr> \<and>
    Parse (\<lambda>_. Inr sample_manifest) ''name: web'' = Inr (applyDefaults sample_manifest)"
  proof (rule manifest_read_confined)
    show "is_rooted (rc_CacheDir sample_config)" by code_simp
    show "list_all plain_elem (split_on slash (rc_ManifestDir sample_config))" by code_simp
    have f: "sample_files (PathJoin [rc_CacheDir sample_config, rc_ManifestDir sample_config,
        ''web'' @ ''.yaml'']) = Inr ''name: web''" by code_simp
    have c: "checkName ''web'' = None" by code_simp
    show "repo_Manifest (\<lambda>_. Inr sample_manifest) sample_config \<lparr>mr_synced = True, mr_failure = None\<rparr>
        sample_files ''web'' = Inr (applyDefaults sample_manifest, ''name: web'')"
      unfolding repo_Manifest_def readRelative_def f c
      by (simp add: requireSyncedLocked_def Parse_def)
  qed
  moreover have "path_elems (rc_CacheDir sample_config) @ split_on slash (rc_ManifestDir sample_config)
      @ [''web'' @ ''.yaml''] = [''var'', ''cache'', ''deploy'', ''manifests'', ''web.yaml'']"
    by code_simp
  ultimately show ?thesis by (simp only:) blast
qed

text \<open>
  Who gets the token. The mirror presents a credential exactly when it has a token function and
  the remote's URL starts with \<open>http\<close>; the token is then fetched anew, and its failure is the
  failure of the operation. That includes a plain \<open>http://\<close> remote.
\<close>

theorem token_exact:
  "(fst (auth cfg w) = Inr (Some a) \<longleftrightarrow>
      HasPrefix (rc_URL cfg) ''http'' \<and> ba_Username a = ''x-access-token'' \<and>
      (\<exists>token. rc_TokenFn cfg = Some token \<and> fst (token w) = Inr (ba_Password a))) \<and>
   fst (auth sample_config ()) =
     Inr (Some \<lparr>ba_Username = ''x-access-token'', ba_Password = ''ghs_secret''\<rparr>) \<and>
   HasPrefix (rc_URL sample_config) ''http://''"
proof -
  have "fst (auth sample_config ()) =
      Inr (Some \<lparr>ba_Username = ''x-access-token'', ba_Password = ''ghs_secret''\<rparr>)"
    and "HasPrefix (rc_URL sample_config) ''http://''"
    by (simp_all add: auth_def sample_config_def HasPrefix_def act_defs)
  moreover have "fst (auth cfg w) = Inr (Some a) \<longleftrightarrow>
      HasPrefix (rc_URL cfg) ''http'' \<and> ba_Username a = ''x-access-token'' \<and>
      (\<exists>token. rc_TokenFn cfg = Some token \<and> fst (token w) = Inr (ba_Password a))"
    by (cases a) (auto simp: auth_def act_defs split: option.splits prod.splits sum.splits)
  ultimately show ?thesis by blast
qed

end
