(* ===== verification/Forge.thy ===== *)
theory Forge
  imports Repo
begin

text \<open>
  The pull-request client, \<open>gitops/github.go\<close>: opening a proposal, waiting for its checks,
  updating, merging and closing it. The GitHub API, the key file and the App transport are a record
  of operations on a world; their errors keep the shape the client looks into.
\<close>

section \<open>The API\<close>

text \<open>The dynamic type of an API error: the intentional 202, a response, anything else.\<close>

datatype api_shape = AcceptedError | ErrorResponse "nat option" string "string list" | OtherError

record api_error =
  ae_error :: go_error
  ae_shape :: api_shape

type_synonym ('w, 'a) api = "'w \<Rightarrow> (api_error + 'a) \<times> 'w"

text \<open>
  \<open>GetContents\<close> answers with a file's blob, a directory (\<open>None\<close>), or an error with the response's
  status when there was a response.
\<close>

datatype contents = FileSHA string | NotAFile | ContentsError "nat option" api_error

record check_run =
  ck_Name :: string
  ck_Status :: string
  ck_Conclusion :: string

record check_runs =
  cr_Total :: int
  cr_Runs :: "check_run list"

record merge_result =
  mg_Merged :: bool
  mg_SHA :: string
  mg_Message :: string

record 'w forge =
  fg_ReadKey :: "string \<Rightarrow> ('w, string) act"
  fg_NewTransport :: "string \<Rightarrow> 'w check_act"
  fg_Token :: "('w, string) act"
  fg_NewClient :: "'w check_act"
  gh_GetRef :: "string \<Rightarrow> ('w, string) api"
  gh_CreateRef :: "string \<Rightarrow> string \<Rightarrow> ('w, unit) api"
  gh_GetContents :: "string \<Rightarrow> string \<Rightarrow> 'w \<Rightarrow> contents \<times> 'w"
  gh_CreateFile :: "string \<Rightarrow> string \<Rightarrow> string \<Rightarrow> string \<Rightarrow> string option \<Rightarrow> ('w, unit) api"
  gh_CreatePR :: "string \<Rightarrow> string \<Rightarrow> string \<Rightarrow> string \<Rightarrow> ('w, int) api"
  gh_ListPRs :: "string \<Rightarrow> string \<Rightarrow> string \<Rightarrow> ('w, int list) api"
  gh_UpdateBranch :: "int \<Rightarrow> ('w, unit) api"
  gh_Merge :: "int \<Rightarrow> string \<Rightarrow> string \<Rightarrow> ('w, merge_result) api"
  gh_CreateComment :: "int \<Rightarrow> string \<Rightarrow> ('w, unit) api"
  gh_EditState :: "int \<Rightarrow> string \<Rightarrow> ('w, unit) api"

record app_config =
  app_AppID :: int
  app_InstallationID :: int
  app_KeyPath :: string
  app_Owner :: string
  app_Repo :: string
  app_ManifestDir :: string
  app_BaseBranch :: string
  app_BaseURL :: string

definition NewGitHubApp :: "app_config \<Rightarrow> app_config result" where
  "NewGitHubApp cfg =
     (if app_AppID cfg = 0 then Inl (errorf ''github app id is required'')
      else if app_InstallationID cfg = 0 then Inl (errorf ''github installation id is required'')
      else if app_KeyPath cfg = [] then Inl (errorf ''github app key file is required'')
      else if app_Owner cfg = [] then Inl (errorf ''github owner is required'')
      else if app_Repo cfg = [] then Inl (errorf ''github repository is required'')
      else Inr (cfg\<lparr>app_BaseBranch := if app_BaseBranch cfg = [] then ''main'' else app_BaseBranch cfg,
                    app_ManifestDir := if app_ManifestDir cfg = [] then ''deploy/manifests''
                                       else app_ManifestDir cfg\<rparr>))"

section \<open>Credentials\<close>

text \<open>\<open>fmt.Errorf("%w: ... %w")\<close> around the unavailable credential.\<close>

definition unavailable :: "string \<Rightarrow> go_error \<Rightarrow> go_error" where
  "unavailable mid e =
     \<lparr>err_text = err_text err_CredentialUnavailable @ mid @ err_text e,
      err_chain = ErrCredentialUnavailable # err_chain e\<rparr>"

text \<open>The key is read anew for every operation.\<close>

definition transport :: "'w forge \<Rightarrow> app_config \<Rightarrow> ('w, unit) act" where
  "transport f cfg =
     try_val (fg_ReadKey f (app_KeyPath cfg))
       (unavailable ('': cannot read '' @ app_KeyPath cfg @ '' (secret store sealed?): '')) (\<lambda>key.
     try_ok (fg_NewTransport f key) (unavailable '': '')
     (done_with ()))"

definition token :: "'w forge \<Rightarrow> app_config \<Rightarrow> ('w, string) act" where
  "token f cfg =
     try_val (transport f cfg) (\<lambda>e. e) (\<lambda>_.
     try_val (fg_Token f) (unavailable '': mint installation token: '') done_with)"

definition client :: "'w forge \<Rightarrow> app_config \<Rightarrow> ('w, unit) act" where
  "client f cfg =
     try_val (transport f cfg) (\<lambda>e. e) (\<lambda>_.
     try_ok (fg_NewClient f) (wrap ''build github client: '') (done_with ()))"

section \<open>Opening a proposal\<close>

text \<open>An API call whose error is wrapped.\<close>

definition call :: "('w, 'a) api \<Rightarrow> string \<Rightarrow> ('w, 'a) act" where
  "call f ctx w =
     (case f w of (Inl e, w') \<Rightarrow> (Inl (wrap ctx (ae_error e)), w') | (Inr x, w') \<Rightarrow> (Inr x, w'))"

definition manifestPath :: "app_config \<Rightarrow> string \<Rightarrow> string result" where
  "manifestPath cfg service =
     (case checkName service of
        Some e \<Rightarrow> Inl e
      | None \<Rightarrow> Inr (PathJoin [app_ManifestDir cfg, service @ ''.yaml'']))"

definition branchPrefix :: string where
  "branchPrefix = ''snowdeploy/''"

text \<open>\<open>hex_sum\<close> is the hexadecimal SHA-256 of the content.\<close>

definition branchFor :: "(string \<Rightarrow> string) \<Rightarrow> string \<Rightarrow> string \<Rightarrow> string" where
  "branchFor hex_sum service content = branchPrefix @ service @ ''-'' @ take 12 (hex_sum content)"

definition mentions_existing :: "string \<Rightarrow> bool" where
  "mentions_existing msg \<longleftrightarrow> Contains (ToLower msg) ''already exists''"

definition isAlreadyExists :: "api_error \<Rightarrow> bool" where
  "isAlreadyExists e =
     (case ae_shape e of
        ErrorResponse status msg entries \<Rightarrow>
          status = Some 422 \<and> (mentions_existing msg \<or> list_ex mentions_existing entries)
      | _ \<Rightarrow> False)"

definition blobSHA :: "'w forge \<Rightarrow> string \<Rightarrow> string \<Rightarrow> ('w, string) act" where
  "blobSHA f filePath branch w =
     (case gh_GetContents f filePath branch w of
        (ContentsError status e, w') \<Rightarrow>
          (if status = Some 404 then Inr [] else Inl (wrap (''read '' @ filePath @ '': '') (ae_error e)), w')
      | (NotAFile, w') \<Rightarrow> (Inr [], w')
      | (FileSHA sha, w') \<Rightarrow> (Inr sha, w'))"

definition openPRForBranch :: "'w forge \<Rightarrow> app_config \<Rightarrow> string \<Rightarrow> ('w, int) act" where
  "openPRForBranch f cfg branch =
     try_val (call (gh_ListPRs f ''open'' (app_Owner cfg @ '':'' @ branch) (app_BaseBranch cfg))
                (''list open pull requests for '' @ branch @ '': '')) (\<lambda>e. e)
       (\<lambda>prs. done_with (case prs of [] \<Rightarrow> 0 | n # _ \<Rightarrow> n))"

text \<open>A branch that is there already is used as it is.\<close>

definition ensure_branch :: "'w forge \<Rightarrow> string \<Rightarrow> string \<Rightarrow> 'w check_act" where
  "ensure_branch f branch sha w =
     (case gh_CreateRef f (''refs/heads/'' @ branch) sha w of
        (Inl e, w') \<Rightarrow>
          (if isAlreadyExists e then None
           else Some (wrap (''create branch '' @ branch @ '': '') (ae_error e)), w')
      | (Inr _, w') \<Rightarrow> (None, w'))"

text \<open>The pull request, or the open one of this branch when there is one already.\<close>

definition create_or_adopt ::
    "'w forge \<Rightarrow> app_config \<Rightarrow> string \<Rightarrow> string \<Rightarrow> string \<Rightarrow> ('w, int) act" where
  "create_or_adopt f cfg title branch body w =
     (case gh_CreatePR f title branch (app_BaseBranch cfg) body w of
        (Inr n, w') \<Rightarrow> (Inr n, w')
      | (Inl e, w') \<Rightarrow>
          if isAlreadyExists e
          then (case openPRForBranch f cfg branch w' of
                  (Inr adopted, w'') \<Rightarrow>
                    (if adopted \<noteq> 0 then Inr adopted
                     else Inl (wrap ''open pull request: '' (ae_error e)), w'')
                | (Inl _, w'') \<Rightarrow> (Inl (wrap ''open pull request: '' (ae_error e)), w''))
          else (Inl (wrap ''open pull request: '' (ae_error e)), w'))"

definition forge_OpenManifestPR ::
    "'w forge \<Rightarrow> (string \<Rightarrow> string) \<Rightarrow> app_config \<Rightarrow> string \<Rightarrow> string \<Rightarrow> string \<Rightarrow> string \<Rightarrow> ('w, int) act" where
  "forge_OpenManifestPR f hex_sum cfg service newContent title body =
     (case manifestPath cfg service of
        Inl e \<Rightarrow> failing_with e
      | Inr filePath \<Rightarrow>
          let branch = branchFor hex_sum service newContent in
          try_val (client f cfg) (\<lambda>e. e) (\<lambda>_.
          try_val (call (gh_GetRef f (''heads/'' @ app_BaseBranch cfg))
                     (''read base ref '' @ app_BaseBranch cfg @ '': '')) (\<lambda>e. e) (\<lambda>baseSHA.
          try_ok (ensure_branch f branch baseSHA) (\<lambda>e. e)
          (try_val (blobSHA f filePath branch) (\<lambda>e. e) (\<lambda>existingSHA.
           try_val (call (gh_CreateFile f filePath title newContent branch
                            (if existingSHA \<noteq> [] then Some existingSHA else None))
                      (''write '' @ filePath @ '': '')) (\<lambda>e. e) (\<lambda>_.
           create_or_adopt f cfg title branch body))))))"

section \<open>Checks\<close>

text \<open>\<open>summarizeChecks\<close>: done, ok, and what to say. The loop is a recursion over the runs.\<close>

fun check_loop :: "check_run list \<Rightarrow> bool \<times> bool \<times> string" where
  "check_loop [] = (True, True, ''all checks passed'')"
| "check_loop (r # rs) =
     (if ck_Status r \<noteq> ''completed''
      then (False, False, ''check '' @ quote (ck_Name r) @ '' is '' @ ck_Status r)
      else if ck_Conclusion r \<in> {''success'', ''neutral'', ''skipped''} then check_loop rs
      else (True, False, ''check '' @ quote (ck_Name r) @ '' concluded '' @ ck_Conclusion r))"

definition summarizeChecks :: "check_runs option \<Rightarrow> bool \<times> bool \<times> string" where
  "summarizeChecks runs =
     (case runs of
        None \<Rightarrow> (False, False, ''no checks reported yet'')
      | Some c \<Rightarrow>
          if cr_Total c = 0 \<or> cr_Runs c = [] then (False, False, ''no checks reported yet'')
          else check_loop (cr_Runs c))"

text \<open>
  One round of \<open>WaitChecks\<close>: the pull request's head, the listing of the runs of that head, and
  which arm the \<open>select\<close> took (\<open>Some\<close> of the context's error when it was over).
\<close>

record check_round =
  rd_head :: "api_error + string"
  rd_runs :: "string \<Rightarrow> api_error + check_runs option"
  rd_done :: "go_error option"

text \<open>\<open>WaitChecks\<close> over the rounds there are: \<open>None\<close> while it is still polling.\<close>

fun wait_rounds :: "int \<Rightarrow> check_round list \<Rightarrow> (bool \<times> string \<times> go_error option) option" where
  "wait_rounds pr [] = None"
| "wait_rounds pr (r # rs) =
     (case rd_head r of
        Inl e \<Rightarrow> Some (False, [], Some (wrap (''read pull request '' @ Itoa pr @ '': '') (ae_error e)))
      | Inr head \<Rightarrow>
     (case rd_runs r head of
        Inl e \<Rightarrow> Some (False, [], Some (wrap (''list check runs for '' @ head @ '': '') (ae_error e)))
      | Inr runs \<Rightarrow>
     (case summarizeChecks runs of
        (finished, ok, detail) \<Rightarrow>
          if finished then Some (ok, detail, None)
          else (case rd_done r of
                  Some e \<Rightarrow> Some (False, ''checks did not conclude in time'',
                    Some (wrap (''wait for checks on pull request '' @ Itoa pr @ '': '') e))
                | None \<Rightarrow> wait_rounds pr rs))))"

definition forge_WaitChecks ::
    "'w forge \<Rightarrow> app_config \<Rightarrow> int \<Rightarrow> check_round list \<Rightarrow> 'w \<Rightarrow> (bool \<times> string \<times> go_error option) option" where
  "forge_WaitChecks f cfg pr rounds w =
     (case client f cfg w of
        (Inl e, _) \<Rightarrow> Some (False, [], Some e)
      | (Inr _, _) \<Rightarrow> wait_rounds pr rounds)"

section \<open>Updating, merging, closing\<close>

definition mergeMethod :: string where
  "mergeMethod = ''squash''"

definition branch_is_current :: "api_error \<Rightarrow> bool" where
  "branch_is_current e \<longleftrightarrow>
     (case ae_shape e of
        AcceptedError \<Rightarrow> True
      | ErrorResponse status msg _ \<Rightarrow> status = Some 422 \<and> Contains (ToLower msg) ''no new commits''
      | OtherError \<Rightarrow> False)"

definition forge_UpdateBranch :: "'w forge \<Rightarrow> app_config \<Rightarrow> int \<Rightarrow> 'w check_act" where
  "forge_UpdateBranch f cfg pr w =
     (case client f cfg w of
        (Inl e, w1) \<Rightarrow> (Some e, w1)
      | (Inr _, w1) \<Rightarrow>
          (case gh_UpdateBranch f pr w1 of
             (Inr _, w2) \<Rightarrow> (None, w2)
           | (Inl e, w2) \<Rightarrow>
               (if branch_is_current e then None
                else Some (wrap (''update branch of pull request '' @ Itoa pr @ '': '') (ae_error e)), w2)))"

text \<open>The second argument of the merge call is the head it is pinned to: none.\<close>

definition forge_Merge :: "'w forge \<Rightarrow> app_config \<Rightarrow> int \<Rightarrow> ('w, string) act" where
  "forge_Merge f cfg pr =
     try_val (client f cfg) (\<lambda>e. e) (\<lambda>_.
     try_val (call (gh_Merge f pr [] mergeMethod) (''merge pull request '' @ Itoa pr @ '': '')) (\<lambda>e. e) (\<lambda>res.
     if \<not> mg_Merged res
     then failing_with (errorf (''pull request '' @ Itoa pr @ '' did not merge: '' @ mg_Message res))
     else done_with (mg_SHA res)))"

definition forge_ClosePR :: "'w forge \<Rightarrow> app_config \<Rightarrow> int \<Rightarrow> string \<Rightarrow> ('w, unit) act" where
  "forge_ClosePR f cfg pr comment =
     try_val (client f cfg) (\<lambda>e. e) (\<lambda>_.
     let close = call (gh_EditState f pr ''closed'') (''close pull request '' @ Itoa pr @ '': '') in
     if comment \<noteq> []
     then try_val (call (gh_CreateComment f pr comment) (''comment on pull request '' @ Itoa pr @ '': ''))
            (\<lambda>e. e) (\<lambda>_. close)
     else close)"

section \<open>What the checks are worth\<close>

definition passed_run :: "check_run \<Rightarrow> bool" where
  "passed_run r \<longleftrightarrow> ck_Status r = ''completed'' \<and> ck_Conclusion r \<in> {''success'', ''neutral'', ''skipped''}"

definition all_green :: "check_runs \<Rightarrow> bool" where
  "all_green c \<longleftrightarrow> cr_Total c \<noteq> 0 \<and> cr_Runs c \<noteq> [] \<and> list_all passed_run (cr_Runs c)"

lemma check_loop_first:
  "check_loop rs = (case dropWhile passed_run rs of
     [] \<Rightarrow> (True, True, ''all checks passed'')
   | r # _ \<Rightarrow>
       if ck_Status r \<noteq> ''completed''
       then (False, False, ''check '' @ quote (ck_Name r) @ '' is '' @ ck_Status r)
       else (True, False, ''check '' @ quote (ck_Name r) @ '' concluded '' @ ck_Conclusion r))"
proof (induction rs)
  case (Cons r rs)
  show ?case
  proof (cases "passed_run r")
    case True
    then have "check_loop (r # rs) = check_loop rs" "dropWhile passed_run (r # rs) = dropWhile passed_run rs"
      unfolding passed_run_def by (simp_all only: check_loop.simps dropWhile.simps simp_thms if_True if_False passed_run_def)
    then show ?thesis using Cons.IH by simp
  next
    case False
    then have "dropWhile passed_run (r # rs) = r # rs" by simp
    moreover have "\<not> (ck_Status r = ''completed'' \<and> ck_Conclusion r \<in> {''success'', ''neutral'', ''skipped''})"
      using False unfolding passed_run_def .
    ultimately show ?thesis unfolding check_loop.simps by (simp only: list.case simp_thms split: if_split) blast
  qed
qed simp

text \<open>
  What a verdict on the checks means, exactly. The checks have passed iff runs were reported and
  every listed one completed with success, neutral or skipped. They have failed iff the first listed
  run that is not of this kind has completed. Otherwise, so when nothing is reported yet or the
  first such run is still going, the verdict is open.
\<close>

theorem checks_verdict_exact:
  "(\<exists>d. summarizeChecks runs = (True, True, d)) = (\<exists>c. runs = Some c \<and> all_green c) \<and>
   (\<exists>d. summarizeChecks runs = (True, False, d)) =
     (\<exists>c r rest. runs = Some c \<and> cr_Total c \<noteq> 0 \<and>
        dropWhile passed_run (cr_Runs c) = r # rest \<and> ck_Status r = ''completed'') \<and>
   fst (snd (summarizeChecks runs)) = (\<exists>c. runs = Some c \<and> all_green c)"
proof (cases runs)
  case (Some c)
  have ne: "dropWhile passed_run (cr_Runs c) = r # rest \<Longrightarrow> cr_Runs c \<noteq> []" for r rest by auto
  have green: "list_all passed_run (cr_Runs c) \<longleftrightarrow> dropWhile passed_run (cr_Runs c) = []"
    by (simp add: list_all_iff)
  show ?thesis
    unfolding Some summarizeChecks_def option.case check_loop_first all_green_def green
    using ne by (cases "dropWhile passed_run (cr_Runs c)") (auto simp: green simp del: dropWhile_eq_Nil_conv)
qed (simp add: summarizeChecks_def)

lemma summarize_green: "summarizeChecks runs = (fin, True, d) \<Longrightarrow> \<exists>c. runs = Some c \<and> all_green c"
proof -
  assume "summarizeChecks runs = (fin, True, d)"
  moreover have "fst (snd (summarizeChecks runs)) = True \<Longrightarrow> \<exists>c. runs = Some c \<and> all_green c"
  proof (cases runs)
    case (Some c)
    assume "fst (snd (summarizeChecks runs)) = True"
    then show ?thesis
      unfolding Some summarizeChecks_def option.case check_loop_first
      by (cases "dropWhile passed_run (cr_Runs c)") (auto simp: all_green_def list_all_iff split: if_splits)
  qed (simp add: summarizeChecks_def)
  ultimately show ?thesis by simp
qed

text \<open>
  C34. Nothing merges on a red check it was shown. When the wait reports success, some round read the
  pull request's head and a listing of the runs of exactly that head in which runs were reported and
  all had passed.
\<close>

theorem wait_success_saw_green:
  assumes "forge_WaitChecks f cfg pr rounds w = Some (True, detail, err)"
  shows "err = None \<and> (\<exists>r head c. r \<in> set rounds \<and> rd_head r = Inr head \<and>
    rd_runs r head = Inr (Some c) \<and> all_green c)"
proof -
  have "wait_rounds pr rs = Some (True, detail, err) \<Longrightarrow> err = None \<and> (\<exists>r head c. r \<in> set rs \<and>
      rd_head r = Inr head \<and> rd_runs r head = Inr (Some c) \<and> all_green c)" for rs
  proof (induction rs)
    case (Cons r rs)
    obtain head where head: "rd_head r = Inr head" using Cons.prems by (cases "rd_head r") auto
    obtain runs where runs: "rd_runs r head = Inr runs"
      using Cons.prems head by (cases "rd_runs r head") auto
    obtain fin ok d where s: "summarizeChecks runs = (fin, ok, d)" by (cases "summarizeChecks runs") auto
    show ?case
    proof (cases fin)
      case True
      then have "ok" "err = None" using Cons.prems head runs s by simp_all
      then show ?thesis using summarize_green [of runs fin d] s head runs by auto
    next
      case False
      then have "wait_rounds pr rs = Some (True, detail, err)"
        using Cons.prems head runs s by (auto split: option.splits)
      then show ?thesis using Cons.IH by auto
    qed
  qed simp
  then show ?thesis using assms by (auto simp: forge_WaitChecks_def split: prod.splits sum.splits)
qed

definition sample_run :: check_run where
  "sample_run = \<lparr>ck_Name = ''verify'', ck_Status = ''completed'', ck_Conclusion = ''success''\<rparr>"

text \<open>A forge whose every call succeeds.\<close>

definition sample_forge :: "unit forge" where
  "sample_forge =
     \<lparr>fg_ReadKey = (\<lambda>p. done_with ''pem''), fg_NewTransport = (\<lambda>k. Pair None),
      fg_Token = done_with ''t'', fg_NewClient = Pair None,
      gh_GetRef = (\<lambda>r. Pair (Inr ''b0'')), gh_CreateRef = (\<lambda>r s. Pair (Inr ())),
      gh_GetContents = (\<lambda>p b. Pair NotAFile), gh_CreateFile = (\<lambda>p m c b s. Pair (Inr ())),
      gh_CreatePR = (\<lambda>t b base body. Pair (Inr 7)), gh_ListPRs = (\<lambda>s h b. Pair (Inr [])),
      gh_UpdateBranch = (\<lambda>n. Pair (Inr ())),
      gh_Merge = (\<lambda>n m k. Pair (Inr \<lparr>mg_Merged = True, mg_SHA = ''c1'', mg_Message = []\<rparr>)),
      gh_CreateComment = (\<lambda>n b. Pair (Inr ())), gh_EditState = (\<lambda>n s. Pair (Inr ()))\<rparr>"

definition sample_app :: app_config where
  "sample_app = \<lparr>app_AppID = 1, app_InstallationID = 2, app_KeyPath = ''/k'', app_Owner = ''o'',
     app_Repo = ''r'', app_ManifestDir = ''m'', app_BaseBranch = ''main'', app_BaseURL = []\<rparr>"

definition sample_rounds :: "check_round list" where
  "sample_rounds =
     [\<lparr>rd_head = Inr ''h0'', rd_runs = (\<lambda>h. Inr None), rd_done = None\<rparr>,
      \<lparr>rd_head = Inr ''h1'', rd_runs = (\<lambda>h. Inr (Some \<lparr>cr_Total = 1, cr_Runs = [sample_run]\<rparr>)), rd_done = None\<rparr>]"

theorem wait_success_saw_green_witness:
  "\<exists>detail r head c. forge_WaitChecks sample_forge sample_app 7 sample_rounds () = Some (True, detail, None) \<and>
     r \<in> set sample_rounds \<and> rd_head r = Inr head \<and> rd_runs r head = Inr (Some c) \<and> all_green c"
proof -
  have run: "forge_WaitChecks sample_forge sample_app 7 sample_rounds () =
      Some (True, ''all checks passed'', None)"
    by (simp add: forge_WaitChecks_def client_def transport_def sample_forge_def sample_rounds_def
        sample_run_def summarizeChecks_def act_defs)
  show ?thesis using wait_success_saw_green [OF run] run by blast
qed

text \<open>
  The checks it is not shown. The listing asks for one page of a hundred runs and the total is
  compared with zero only: with a hundred and one runs of which the first hundred passed, the
  verdict is that all checks passed, whatever the last one says.
\<close>

theorem checks_beyond_the_page:
  "summarizeChecks (Some \<lparr>cr_Total = 101, cr_Runs = replicate 100 sample_run\<rparr>) =
     (True, True, ''all checks passed'')"
proof -
  have "dropWhile passed_run (replicate n sample_run) = []" for n
    by (simp add: passed_run_def sample_run_def)
  then show ?thesis unfolding summarizeChecks_def check_loop_first by simp
qed

section \<open>What a proposal touches\<close>

datatype forge_write =
    WCreateRef string string
  | WCreateFile string string string
  | WCreatePR string string
  | WOther

text \<open>The same API with a log of the writes.\<close>

definition tell :: "forge_write \<Rightarrow> ('w, 'a) api \<Rightarrow> ('w \<times> forge_write list, 'a) api" where
  "tell x f w = (case f (fst w) of (r, w') \<Rightarrow> (r, w', snd w @ [x]))"

definition silent :: "('w \<Rightarrow> 'r \<times> 'w) \<Rightarrow> 'w \<times> forge_write list \<Rightarrow> 'r \<times> 'w \<times> forge_write list" where
  "silent f w = (case f (fst w) of (r, w') \<Rightarrow> (r, w', snd w))"

definition logged :: "'w forge \<Rightarrow> ('w \<times> forge_write list) forge" where
  "logged f =
     \<lparr>fg_ReadKey = (\<lambda>p. silent (fg_ReadKey f p)), fg_NewTransport = (\<lambda>k. silent (fg_NewTransport f k)),
      fg_Token = silent (fg_Token f), fg_NewClient = silent (fg_NewClient f),
      gh_GetRef = (\<lambda>r. silent (gh_GetRef f r)),
      gh_CreateRef = (\<lambda>r s. tell (WCreateRef r s) (gh_CreateRef f r s)),
      gh_GetContents = (\<lambda>p b. silent (gh_GetContents f p b)),
      gh_CreateFile = (\<lambda>p m c b s. tell (WCreateFile p b c) (gh_CreateFile f p m c b s)),
      gh_CreatePR = (\<lambda>t h b d. tell (WCreatePR h b) (gh_CreatePR f t h b d)),
      gh_ListPRs = (\<lambda>s h b. silent (gh_ListPRs f s h b)),
      gh_UpdateBranch = (\<lambda>n. tell WOther (gh_UpdateBranch f n)),
      gh_Merge = (\<lambda>n s m. tell WOther (gh_Merge f n s m)),
      gh_CreateComment = (\<lambda>n c. tell WOther (gh_CreateComment f n c)),
      gh_EditState = (\<lambda>n s. tell WOther (gh_EditState f n s))\<rparr>"

text \<open>What an operation adds to the log, with its outcome.\<close>

definition writes ::
    "('w \<times> forge_write list \<Rightarrow> 'r \<times> 'w \<times> forge_write list) \<Rightarrow> ('r \<Rightarrow> forge_write list \<Rightarrow> bool) \<Rightarrow> bool" where
  "writes p Q \<longleftrightarrow> (\<forall>w l. \<exists>r w' l'. p (w, l) = (r, w', l @ l') \<and> Q r l')"

lemma writes_silent: "(\<And>r. Q r []) \<Longrightarrow> writes (silent f) Q"
  by (auto simp: writes_def silent_def split: prod.split)

lemma writes_tell: "(\<And>r. Q r [x]) \<Longrightarrow> writes (tell x f) Q"
  by (auto simp: writes_def tell_def split: prod.split)

lemma writes_try_val:
  assumes "writes f A" and "\<And>e l. A (Inl e) l \<Longrightarrow> Q (Inl (wr e)) l"
    and "\<And>x l. A (Inr x) l \<Longrightarrow> writes (k x) (\<lambda>r l'. Q r (l @ l'))"
  shows "writes (try_val f wr k) Q"
  unfolding writes_def
proof (intro allI)
  fix w l
  obtain r w1 l1 where f: "f (w, l) = (r, w1, l @ l1)" "A r l1" using assms(1) unfolding writes_def by blast
  show "\<exists>r w' l'. try_val f wr k (w, l) = (r, w', l @ l') \<and> Q r l'"
  proof (cases r)
    case (Inl e)
    then show ?thesis using f assms(2) by (auto simp: try_val_def)
  next
    case (Inr x)
    then obtain r' w' l' where "k x (w1, l @ l1) = (r', w', (l @ l1) @ l')" "Q r' (l1 @ l')"
      using assms(3) [of x l1] f(2) unfolding writes_def by blast
    then show ?thesis using f Inr by (auto simp: try_val_def)
  qed
qed

lemma writes_try_ok:
  assumes "writes f A" and "\<And>e l. A (Some e) l \<Longrightarrow> Q (Inl (wr e)) l"
    and "\<And>l. A None l \<Longrightarrow> writes k (\<lambda>r l'. Q r (l @ l'))"
  shows "writes (try_ok f wr k) Q"
  unfolding writes_def
proof (intro allI)
  fix w l
  obtain r w1 l1 where f: "f (w, l) = (r, w1, l @ l1)" "A r l1" using assms(1) unfolding writes_def by blast
  show "\<exists>r w' l'. try_ok f wr k (w, l) = (r, w', l @ l') \<and> Q r l'"
  proof (cases r)
    case (Some e)
    then show ?thesis using f assms(2) by (auto simp: try_ok_def)
  next
    case None
    then obtain r' w' l' where "k (w1, l @ l1) = (r', w', (l @ l1) @ l')" "Q r' (l1 @ l')"
      using assms(3) [of l1] f(2) unfolding writes_def by blast
    then show ?thesis using f None by (auto simp: try_ok_def)
  qed
qed

lemma writes_call:
  assumes "writes f (\<lambda>r l. Q (map_sum (\<lambda>e. wrap ctx (ae_error e)) id r) l)"
  shows "writes (call f ctx) Q"
  unfolding writes_def
proof (intro allI)
  fix w l
  obtain r w' l' where "f (w, l) = (r, w', l @ l')" "Q (map_sum (\<lambda>e. wrap ctx (ae_error e)) id r) l'"
    using assms unfolding writes_def by blast
  then show "\<exists>r w' l'. call f ctx (w, l) = (r, w', l @ l') \<and> Q r l'"
    by (cases r) (auto simp: call_def)
qed

lemma writes_done: "Q (Inr x) [] \<Longrightarrow> writes (done_with x) Q"
  by (auto simp: writes_def done_with_def)

lemma writes_mono: "writes p A \<Longrightarrow> (\<And>r l. A r l \<Longrightarrow> B r l) \<Longrightarrow> writes p B"
  unfolding writes_def by blast

lemma writes_transport:
  "writes (transport (logged f) cfg) (\<lambda>r l. l = [])"
  unfolding transport_def
  by (rule writes_try_val [where A = "\<lambda>r l. l = []"] writes_try_ok [where A = "\<lambda>r l. l = []"] writes_done
      | simp add: logged_def writes_silent)+

lemma writes_client: "writes (client (logged f) cfg) (\<lambda>r l. l = [])"
  unfolding client_def
  by (rule writes_try_val [where A = "\<lambda>r l. l = []"] writes_try_ok [where A = "\<lambda>r l. l = []"]
        writes_done writes_transport
      | simp add: logged_def writes_silent)+

lemma writes_ensure_branch:
  "writes (ensure_branch (logged f) b sha) (\<lambda>r l. l = [WCreateRef (''refs/heads/'' @ b) sha])"
  by (auto simp: writes_def ensure_branch_def logged_def tell_def split: prod.split sum.split)

lemma writes_blobSHA: "writes (blobSHA (logged f) p b) (\<lambda>r l. l = [])"
  by (auto simp: writes_def blobSHA_def logged_def silent_def split: prod.split contents.split)

lemma writes_create_or_adopt:
  "writes (create_or_adopt (logged f) cfg t b d) (\<lambda>r l. l = [WCreatePR b (app_BaseBranch cfg)])"
  by (auto simp: writes_def create_or_adopt_def openPRForBranch_def logged_def tell_def silent_def
      try_val_def call_def done_with_def split: prod.split sum.split)

definition proposal_writes :: "(string \<Rightarrow> string) \<Rightarrow> app_config \<Rightarrow> string \<Rightarrow> string \<Rightarrow> string \<Rightarrow> forge_write list" where
  "proposal_writes hex_sum cfg service content base =
     (let branch = ''snowdeploy/'' @ service @ ''-'' @ take 12 (hex_sum content) in
      [WCreateRef (''refs/heads/'' @ branch) base,
       WCreateFile (PathJoin [app_ManifestDir cfg, service @ ''.yaml'']) branch content,
       WCreatePR branch (app_BaseBranch cfg)])"

lemma writes_open:
  assumes c: "checkName service = None"
  shows "writes (forge_OpenManifestPR (logged f) hex_sum cfg service content title body)
    (\<lambda>r l. \<exists>base. if \<exists>n. r = Inr n then l = proposal_writes hex_sum cfg service content base
                  else prefix l (proposal_writes hex_sum cfg service content base))"
proof -
  let ?p = "PathJoin [app_ManifestDir cfg, service @ ''.yaml'']"
  let ?b = "branchFor hex_sum service content"
  have path: "manifestPath cfg service = Inr ?p" by (simp add: manifestPath_def c)
  have ref: "writes (call (gh_GetRef (logged f) r) ctx) (\<lambda>_ l. l = [])" for r ctx
    by (rule writes_call) (simp add: logged_def writes_silent)
  have put: "writes (call (gh_CreateFile (logged f) ?p title content ?b s) ctx)
      (\<lambda>_ l. l = [WCreateFile ?p ?b content])" for s ctx
    by (rule writes_call) (simp add: logged_def writes_tell)
  have pw: "proposal_writes hex_sum cfg service content base =
      [WCreateRef (''refs/heads/'' @ ?b) base, WCreateFile ?p ?b content, WCreatePR ?b (app_BaseBranch cfg)]"
    for base by (simp add: proposal_writes_def branchFor_def branchPrefix_def Let_def)
  show ?thesis
    unfolding forge_OpenManifestPR_def path sum.case Let_def pw
    apply (rule writes_try_val [OF writes_client], simp)
    apply (rule writes_try_val [OF ref], simp)
    apply (rule writes_try_ok [OF writes_ensure_branch], simp)
    apply (rule writes_try_val [OF writes_blobSHA], simp)
    apply (rule writes_try_val [OF put], simp)
    apply (rule writes_mono [OF writes_create_or_adopt])
    apply auto
    done
qed

text \<open>
  One proposal, one manifest. Whatever the forge answers, opening a proposal writes at most
  these three things, in this order, and all of them when it returns a number: the branch
  \<open>snowdeploy/<service>-<12 digits of the content's hash>\<close> at the base's head, the service's
  manifest on that branch, and the pull request from that branch into the base. A service that is
  not a plain file name writes nothing at all.
\<close>

theorem proposal_touches_one_manifest:
  "\<exists>r w' log base.
     forge_OpenManifestPR (logged f) hex_sum cfg service content title body (w, []) = (r, w', log) \<and>
     (if checkName service \<noteq> None then log = []
      else if \<exists>n. r = Inr n then log = proposal_writes hex_sum cfg service content base
      else prefix log (proposal_writes hex_sum cfg service content base))"
proof (cases "checkName service")
  case None
  then show ?thesis
    using writes_open [OF None, of f hex_sum cfg content title body] unfolding writes_def
    by (metis append_Nil)
next
  case (Some e)
  then have "forge_OpenManifestPR (logged f) hex_sum cfg service content title body (w, []) = (Inl e, w, [])"
    by (simp add: forge_OpenManifestPR_def manifestPath_def failing_with_def)
  then show ?thesis using Some by auto
qed

section \<open>What a merge is\<close>

text \<open>
  A merge is GitHub's word for it, and of whatever the head is then: the answer is a commit
  exactly when the squash merge call, which is pinned to no head, reported merged with that commit.
\<close>

theorem merge_exact:
  "fst (forge_Merge f cfg pr w) = Inr sha \<longleftrightarrow>
     (\<exists>w1 w2 res. client f cfg w = (Inr (), w1) \<and>
        gh_Merge f pr [] ''squash'' w1 = (Inr res, w2) \<and> mg_Merged res \<and> mg_SHA res = sha)"
  by (auto simp: forge_Merge_def try_val_def call_def mergeMethod_def failing_with_def done_with_def
      split: prod.splits sum.splits if_splits)

end
