(* ===== verification/Text_Io.thy ===== *)
theory Text_Io
  imports Go_Prelude
begin

text \<open>
  Text as the program's readers take it apart: \<open>bufio.Scanner\<close> over lines with its limit on a
  line's length, HTTP headers with repeated fields, and what is left of a text after its white
  space is trimmed.
\<close>

named_theorems scan_facts \<open>facts on scanned lines\<close>

section \<open>Lines\<close>

definition line_end :: char where
  "line_end = CHR 0x0A"

text \<open>\<open>bufio.ScanLines\<close>: the last line need not be terminated, and one carriage return goes.\<close>

definition drop_cr :: "string \<Rightarrow> string" where
  "drop_cr l = (if l \<noteq> [] \<and> last l = CHR 0x0D then butlast l else l)"

definition raw_lines :: "string \<Rightarrow> string list" where
  "raw_lines text = (let ps = split_on line_end text in if last ps = [] then butlast ps else ps)"

definition max_scan_token :: nat where
  "max_scan_token = 65536"

definition fits :: "string \<Rightarrow> bool" where
  "fits l \<longleftrightarrow> length l < max_scan_token"

text \<open>The lines \<open>Scan\<close> yields, and the error it stops with at a line that is too long.\<close>

definition scan_lines :: "string \<Rightarrow> string list \<times> go_error option" where
  "scan_lines text =
     (map drop_cr (takeWhile fits (raw_lines text)),
      if list_all fits (raw_lines text) then None else Some (errorf ''bufio.Scanner: token too long''))"

text \<open>A text made of terminated lines is scanned back into them.\<close>

definition unlines :: "string list \<Rightarrow> string" where
  "unlines ls = concat (map (\<lambda>l. l @ [line_end]) ls)"

lemma split_on_unlines: "\<forall>l \<in> set ls. line_end \<notin> set l \<Longrightarrow> split_on line_end (unlines ls) = ls @ [[]]"
  by (induction ls) (simp_all add: unlines_def split_on_append)

lemma raw_lines_unlines [scan_facts]: "\<forall>l \<in> set ls. line_end \<notin> set l \<Longrightarrow> raw_lines (unlines ls) = ls"
  by (simp add: raw_lines_def split_on_unlines)

lemma scan_unlines [scan_facts]:
  assumes "\<forall>l \<in> set ls. line_end \<notin> set l \<and> fits l"
  shows "scan_lines (unlines ls) = (map drop_cr ls, None)"
proof -
  have "takeWhile fits ls = ls" unfolding takeWhile_eq_all_conv using assms by blast
  moreover have "list_all fits ls" using assms by (simp add: list_all_iff)
  moreover have "raw_lines (unlines ls) = ls" using assms by (simp add: raw_lines_unlines)
  ultimately show ?thesis by (simp only: scan_lines_def) simp
qed

lemma drop_cr_same: "l = [] \<or> last l \<noteq> CHR 0x0D \<Longrightarrow> drop_cr l = l"
  by (auto simp: drop_cr_def)

section \<open>Headers\<close>

text \<open>The values of each field, in order; \<open>Get\<close> is the first or nothing.\<close>

type_synonym header = "string \<Rightarrow> string list"

definition header_Get :: "header \<Rightarrow> string \<Rightarrow> string" where
  "header_Get h name = (case h name of [] \<Rightarrow> [] | v # _ \<Rightarrow> v)"

section \<open>White space\<close>

lemma rune_len_zero: "[] \<notin> set rs \<Longrightarrow> rune_len rs s = 0 \<longleftrightarrow> (\<forall>r \<in> set rs. \<not> prefix r s)"
  by (induction rs) auto

lemma rune_len_prefix: "rune_len rs s \<noteq> 0 \<Longrightarrow> \<exists>r \<in> set rs. prefix r s \<and> rune_len rs s = length r"
  by (induction rs) (auto split: if_splits)

lemma no_empty_rune: "[] \<notin> set space_runes" "[] \<notin> set (map rev space_runes)"
  by (simp_all add: space_runes_def)

lemma space_len_Nil [simp]: "space_len [] = 0"
  by (simp add: space_len_def rune_len_zero no_empty_rune) (use no_empty_rune in \<open>auto simp: prefix_def\<close>)

text \<open>A text that is nothing but white space is a sequence of spaces.\<close>

lemma all_space:
  "TrimLeftSpace s = [] \<Longrightarrow> \<exists>rs. set rs \<subseteq> set space_runes \<and> s = concat rs"
proof (induction s rule: TrimLeftSpace.induct)
  case (1 s)
  show ?case
  proof (cases "s \<noteq> [] \<and> space_len s \<noteq> 0")
    case True
    then obtain r where r: "r \<in> set space_runes" "prefix r s" "space_len s = length r"
      using rune_len_prefix unfolding space_len_def by blast
    have "TrimLeftSpace (drop (space_len s) s) = []"
      using "1.prems" True by (subst (asm) TrimLeftSpace.simps) simp
    then obtain rs where "set rs \<subseteq> set space_runes" "drop (length r) s = concat rs"
      using "1.IH" True r(3) by auto
    moreover have "s = r @ drop (length r) s" using r(2) by (auto simp: prefix_def)
    ultimately have "set (r # rs) \<subseteq> set space_runes \<and> s = concat (r # rs)" using r(1) by simp
    then show ?thesis by blast
  next
    case False
    then have "s = []" using "1.prems" by (subst (asm) TrimLeftSpace.simps) (auto split: if_splits)
    then have "set [] \<subseteq> set space_runes \<and> s = concat []" by simp
    then show ?thesis by blast
  qed
qed

lemma TrimRightSpace_done: "TrimRightSpace s = [] \<or> space_len_end (TrimRightSpace s) = 0"
proof (induction s rule: TrimRightSpace.induct)
  case (1 s)
  show ?case
  proof (cases "s \<noteq> [] \<and> space_len_end s \<noteq> 0")
    case True
    then show ?thesis using "1.IH" by (subst (1 2) TrimRightSpace.simps) simp
  next
    case False
    then show ?thesis by (subst (1 2) TrimRightSpace.simps) auto
  qed
qed

lemma space_at_end:
  assumes "r \<in> set space_runes" "suffix r s"
  shows "space_len_end s \<noteq> 0"
proof -
  have "rev r \<in> set (map rev space_runes)" "prefix (rev r) (rev s)"
    using assms by (simp_all add: suffix_to_prefix)
  then show ?thesis unfolding space_len_end_def using rune_len_zero [OF no_empty_rune(2)] by blast
qed

text \<open>What trimming leaves over is never white space alone.\<close>

lemma TrimSpace_not_space:
  assumes "TrimLeftSpace (TrimSpace s) = []"
  shows "TrimSpace s = []"
proof (rule ccontr)
  assume ne: "TrimSpace s \<noteq> []"
  obtain rs where rs: "set rs \<subseteq> set space_runes" "TrimSpace s = concat rs"
    using all_space [OF assms] by blast
  then have "rs \<noteq> []" using ne by auto
  then have "last rs \<in> set space_runes" "suffix (last rs) (TrimSpace s)"
    using rs by (auto simp: rs(2) suffix_def intro!: exI [of _ "concat (butlast rs)"])
       (metis append_butlast_last_id concat.simps concat_append append_Nil2)
  then have "space_len_end (TrimSpace s) \<noteq> 0" by (rule space_at_end)
  then show False using TrimRightSpace_done [of "TrimLeftSpace s"] ne by (simp add: TrimSpace_def)
qed

lemma fields_from_Nil: "fields_from cur s = [] \<Longrightarrow> cur = [] \<and> TrimLeftSpace s = []"
proof (induction cur s rule: fields_from.induct)
  case (1 cur s)
  show ?case
  proof (cases "s = []")
    case True
    then show ?thesis
      using "1.prems" by (subst (asm) fields_from.simps, subst TrimLeftSpace.simps) (auto split: if_splits)
  next
    case ne: False
    show ?thesis
    proof (cases "space_len s = 0")
      case True
      then have "fields_from (hd s # cur) (tl s) = []"
        using "1.prems" ne by (subst (asm) fields_from.simps) simp
      then show ?thesis using "1.IH"(2) ne True by auto
    next
      case False
      then have "cur = []" "fields_from [] (drop (space_len s) s) = []"
        using "1.prems" ne by (subst (asm) fields_from.simps, auto split: if_splits)+
      then show ?thesis using "1.IH"(1) ne False by (subst TrimLeftSpace.simps) simp
    qed
  qed
qed

text \<open>A trimmed text that is not empty has a first field.\<close>

lemma Fields_TrimSpace: "TrimSpace s \<noteq> [] \<Longrightarrow> Fields (TrimSpace s) \<noteq> []"
  unfolding Fields_def using fields_from_Nil TrimSpace_not_space by blast

end
