(* ===== verification/Access.thy ===== *)
theory Access
  imports Text_Io
begin

text \<open>
  Who is asking and what they may do, \<open>api/auth.go\<close> and \<open>api/proxy.go\<close>: the token hash file with
  its scope fields, bearer tokens, and the identity a fronting proxy asserts beside its secret.
  SHA-256 and the file are arguments. An index out of range is the error value
  \<open>index_panic\<close>, which no call produces.
\<close>

section \<open>Actions and scopes\<close>

type_synonym action = string

definition actionDeploy :: action where
  "actionDeploy = ''deploy''"

definition actionRollback :: action where
  "actionRollback = ''rollback''"

definition actionConverge :: action where
  "actionConverge = ''converge''"

definition knownActions :: "action set" where
  "knownActions = {actionDeploy, actionRollback, actionConverge}"

text \<open>The nil scope allows everything.\<close>

type_synonym scope = "action set option"

definition allows :: "scope \<Rightarrow> action \<Rightarrow> bool" where
  "allows s a \<longleftrightarrow> (case s of None \<Rightarrow> True | Some A \<Rightarrow> a \<in> A)"

section \<open>The token hash file\<close>

record token_line =
  tl_hash :: string
  tl_label :: string
  tl_allowed :: scope

definition cliActorFallback :: string where
  "cliActorFallback = ''cli''"

definition scopePrefix :: string where
  "scopePrefix = ''scope=''"

fun scope_names :: "string list \<Rightarrow> action set \<Rightarrow> action set result" where
  "scope_names [] allowed = Inr allowed"
| "scope_names (name # names) allowed =
     (if name \<notin> knownActions
      then Inl (errorf (quote name @ '' is not an action this daemon offers''))
      else scope_names names (insert name allowed))"

definition parseScope :: "string \<Rightarrow> action set result" where
  "parseScope field = (if field = [] then Inr {} else scope_names (split_on (CHR '','') field) {})"

text \<open>The loop over the fields after the hash: the scope, and the fields before it.\<close>

definition scope_like :: "string \<Rightarrow> bool" where
  "scope_like field \<longleftrightarrow> HasPrefix (ToLower field) ''scope''"

fun scope_loop :: "string list \<Rightarrow> string list \<Rightarrow> (scope \<times> string list) result" where
  "scope_loop seen [] = Inr (None, seen)"
| "scope_loop seen (field # rest) =
     (if \<not> scope_like field then scope_loop (seen @ [field]) rest
      else if rest \<noteq> []
      then Inl (errorf (quote field @ '' is not the last field; a scope field follows the label''))
      else if \<not> HasPrefix field scopePrefix
      then Inl (errorf (quote field @ '' is not a scope field; write scope=<action>[,<action>]''))
      else (case parseScope (TrimPrefix field scopePrefix) of
              Inl e \<Rightarrow> Inl e
            | Inr allowed \<Rightarrow> Inr (Some allowed, seen)))"

definition index_panic :: go_error where
  "index_panic = errorf ''runtime error: index out of range [0] with length 0''"

definition label_of :: "string list \<Rightarrow> string" where
  "label_of rest =
     (if join_with '' '' rest \<noteq> [] then join_with '' '' rest else cliActorFallback)"

definition parseTokenLine :: "string \<Rightarrow> token_line result" where
  "parseTokenLine text =
     (case Fields text of
        [] \<Rightarrow> Inl index_panic
      | hash # rest \<Rightarrow>
          (case scope_loop [] rest of
             Inl e \<Rightarrow> Inl e
           | Inr (allowed, rest') \<Rightarrow>
               Inr \<lparr>tl_hash = ToLower hash, tl_label = label_of rest', tl_allowed = allowed\<rparr>))"

definition skipped_line :: "string \<Rightarrow> bool" where
  "skipped_line text \<longleftrightarrow> text = [] \<or> HasPrefix text ''#''"

fun token_lines :: "int \<Rightarrow> string list \<Rightarrow> token_line list result" where
  "token_lines number [] = Inr []"
| "token_lines number (l # ls) =
     (if skipped_line (TrimSpace l) then token_lines (number + 1) ls
      else (case parseTokenLine (TrimSpace l) of
              Inl e \<Rightarrow> Inl (wrap (''line '' @ Itoa number @ '': '') e)
            | Inr line \<Rightarrow>
                (case token_lines (number + 1) ls of
                   Inl e \<Rightarrow> Inl e
                 | Inr lines \<Rightarrow> Inr (line # lines))))"

definition parseTokenHashFile :: "string \<Rightarrow> token_line list result" where
  "parseTokenHashFile data =
     (case scan_lines data of (ls, err) \<Rightarrow>
        (case token_lines 1 ls of
           Inl e \<Rightarrow> Inl e
         | Inr lines \<Rightarrow> (case err of Some e \<Rightarrow> Inl e | None \<Rightarrow> Inr lines)))"

definition ValidateCLITokenHashFile :: "(string \<Rightarrow> string result) \<Rightarrow> string \<Rightarrow> go_error option" where
  "ValidateCLITokenHashFile read path =
     (if path = [] then None
      else (case read path of
              Inl _ \<Rightarrow> None
            | Inr data \<Rightarrow>
                (case parseTokenHashFile data of
                   Inl e \<Rightarrow> Some (wrap (''cli_token_hash_file '' @ path @ '': '') e)
                 | Inr _ \<Rightarrow> None)))"

section \<open>The proxy boundary\<close>

definition remoteUserHeader :: string where
  "remoteUserHeader = ''Remote-User''"

definition ProxySecretHeader :: string where
  "ProxySecretHeader = ''X-Snowdeploy-Proxy-Secret''"

definition MinProxySecretBytes :: nat where
  "MinProxySecretBytes = 32"

record proxy_boundary =
  pb_allowed :: "string set"
  pb_secretDigest :: string

definition unusable_identity :: "string \<Rightarrow> bool" where
  "unusable_identity u \<longleftrightarrow> u = [] \<or> u \<noteq> TrimSpace u \<or> Contains u '',''"

fun allow_identities :: "string list \<Rightarrow> string set \<Rightarrow> string set result" where
  "allow_identities [] allowed = Inr allowed"
| "allow_identities (u # us) allowed =
     (if unusable_identity u
      then Inl (errorf (''proxy boundary: '' @ quote u @ '' is not a usable identity''))
      else allow_identities us (insert u allowed))"

definition NewProxyBoundary ::
    "(string \<Rightarrow> string) \<Rightarrow> string \<Rightarrow> string list \<Rightarrow> proxy_boundary result" where
  "NewProxyBoundary sha secret allowed =
     (if length secret < MinProxySecretBytes
      then Inl (errorf (''proxy boundary: the secret is '' @ Itoa (int (length secret))
                        @ '' bytes, want at least '' @ Itoa (int MinProxySecretBytes)))
      else if allowed = [] then Inl (errorf ''proxy boundary: the identity allowlist is empty'')
      else (case allow_identities allowed {} of
              Inl e \<Rightarrow> Inl e
            | Inr us \<Rightarrow> Inr \<lparr>pb_allowed = us, pb_secretDigest = sha secret\<rparr>))"

text \<open>\<open>strings.TrimRight\<close> of line endings.\<close>

definition trim_line_ends :: "string \<Rightarrow> string" where
  "trim_line_ends s = rev (dropWhile (\<lambda>c. c = CHR 0x0D \<or> c = CHR 0x0A) (rev s))"

definition LoadProxySecret :: "(string \<Rightarrow> string result) \<Rightarrow> string \<Rightarrow> string result" where
  "LoadProxySecret read path =
     (case read path of
        Inl e \<Rightarrow> Inl e
      | Inr raw \<Rightarrow>
          let secret = trim_line_ends raw in
          if length secret < MinProxySecretBytes
          then Inl (errorf (path @ '' holds a '' @ Itoa (int (length secret))
                            @ ''-byte secret, want at least '' @ Itoa (int MinProxySecretBytes)))
          else Inr secret)"

text \<open>The identity, and the reason of a refusal that is logged.\<close>

definition identity ::
    "(string \<Rightarrow> string) \<Rightarrow> proxy_boundary \<Rightarrow> header \<Rightarrow> string option \<times> string option" where
  "identity sha b h =
     (let identities = h remoteUserHeader; secrets = h ProxySecretHeader;
          refuse = (\<lambda>reason. (None, Some reason)) in
      if identities = [] \<and> secrets = [] then (None, None)
      else if length secrets \<noteq> 1 then refuse ''the proxy secret is not present exactly once''
      else if sha (secrets ! 0) \<noteq> pb_secretDigest b then refuse ''the proxy secret does not match''
      else if length identities \<noteq> 1 then refuse ''the identity is not present exactly once''
      else if identities ! 0 \<notin> pb_allowed b then refuse ''the identity is not on the allowlist''
      else (Some (identities ! 0), None))"

section \<open>The authenticator\<close>

record authenticator =
  au_tokenHashFile :: string
  au_proxy :: "proxy_boundary option"
  au_loggedReason :: string

text \<open>A malformed file is logged when its reason is new.\<close>

definition logRefusal :: "go_error \<Rightarrow> authenticator \<Rightarrow> authenticator" where
  "logRefusal err a =
     (if au_loggedReason a = err_text err then a else a\<lparr>au_loggedReason := err_text err\<rparr>)"

definition bearerToken :: "header \<Rightarrow> string option" where
  "bearerToken h =
     (let v = header_Get h ''Authorization'' in
      if \<not> HasPrefix v ''Bearer '' then None
      else let token = TrimSpace (TrimPrefix v ''Bearer '') in
           if token = [] then None else Some token)"

definition matchToken ::
    "(string \<Rightarrow> string) \<Rightarrow> (string \<Rightarrow> string result) \<Rightarrow> authenticator \<Rightarrow> string \<Rightarrow>
     (string \<times> scope) option \<times> authenticator" where
  "matchToken hex_sha read a token =
     (if au_tokenHashFile a = [] then (None, a)
      else (case read (au_tokenHashFile a) of
              Inl _ \<Rightarrow> (None, a)
            | Inr data \<Rightarrow>
                (case parseTokenHashFile data of
                   Inl err \<Rightarrow> (None, logRefusal err a)
                 | Inr lines \<Rightarrow>
                     (case find (\<lambda>line. tl_hash line = hex_sha token) lines of
                        Some line \<Rightarrow> (Some (tl_label line, tl_allowed line), a)
                      | None \<Rightarrow> (None, a)))))"

definition actor ::
    "(string \<Rightarrow> string) \<Rightarrow> (string \<Rightarrow> string) \<Rightarrow> (string \<Rightarrow> string result) \<Rightarrow> authenticator \<Rightarrow> header \<Rightarrow>
     (string \<times> scope) option \<times> authenticator" where
  "actor hex_sha sha read a h =
     (case bearerToken h of
        Some token \<Rightarrow> matchToken hex_sha read a token
      | None \<Rightarrow>
          (case au_proxy a of
             None \<Rightarrow> (None, a)
           | Some b \<Rightarrow> (map_option (\<lambda>user. (user, None)) (fst (identity sha b h)), a)))"

section \<open>What a hash line means\<close>

lemma case_result_Inr:
  "(case r of Inl e \<Rightarrow> Inl (f e) | Inr x \<Rightarrow> g x) = Inr y \<longleftrightarrow> (\<exists>x. r = Inr x \<and> g x = Inr y)"
  by (cases r) auto

text \<open>
  The grammar: a hash, an optional label, and an optional last field \<open>scope=a,b\<close> of actions the
  daemon offers. No other field may start like a scope field, in any case.
\<close>

definition line_means :: "string \<Rightarrow> token_line \<Rightarrow> bool" where
  "line_means text l \<longleftrightarrow>
     (\<exists>hash words.
        tl_hash l = ToLower hash \<and> tl_label l = label_of words \<and> list_all (\<lambda>w. \<not> scope_like w) words \<and>
        (Fields text = hash # words \<and> tl_allowed l = None \<or>
         (\<exists>names. Fields text = hash # words @ [scopePrefix @ names] \<and>
            tl_allowed l = Some (if names = [] then {} else set (split_on (CHR '','') names)) \<and>
            (names = [] \<or> set (split_on (CHR '','') names) \<subseteq> knownActions))))"

lemma scope_names_exact:
  "scope_names ns A = Inr B \<longleftrightarrow> set ns \<subseteq> knownActions \<and> B = A \<union> set ns"
  by (induction ns A rule: scope_names.induct) auto

lemma parseScope_exact:
  "parseScope f = Inr A \<longleftrightarrow> (if f = [] then A = {} else
     set (split_on (CHR '','') f) \<subseteq> knownActions \<and> A = set (split_on (CHR '','') f))"
  by (auto simp: parseScope_def scope_names_exact)

lemma scope_prefix_like: "scope_like (scopePrefix @ names)"
proof -
  have "ToLower (scopePrefix @ names) = ''scope'' @ ToLower (CHR ''='' # names)"
    by (simp add: ToLower_def scopePrefix_def ascii_lower_def)
  then show ?thesis by (simp only: scope_like_def HasPrefix_def prefixI)
qed

lemma HasPrefix_split: "HasPrefix s p \<longleftrightarrow> (\<exists>t. s = p @ t)"
  by (simp add: HasPrefix_def prefix_def)

lemma TrimPrefix_append: "TrimPrefix (p @ t) p = t"
  by (simp add: TrimPrefix_def HasPrefix_def)

text \<open>How the fields after the hash divide into label words and a scope field.\<close>

definition scope_split :: "string list \<Rightarrow> string list \<Rightarrow> scope \<Rightarrow> bool" where
  "scope_split rest words sc \<longleftrightarrow>
     list_all (\<lambda>w. \<not> scope_like w) words \<and>
     (rest = words \<and> sc = None \<or>
      (\<exists>names A. rest = words @ [scopePrefix @ names] \<and> parseScope names = Inr A \<and> sc = Some A))"

lemma scope_split_plain:
  "\<not> scope_like f \<Longrightarrow> scope_split (f # rest) words sc \<longleftrightarrow> (\<exists>ws. words = f # ws \<and> scope_split rest ws sc)"
  using scope_prefix_like by (cases words) (auto simp: scope_split_def)

lemma scope_split_scope:
  "scope_like f \<Longrightarrow> scope_split (f # rest) words sc \<longleftrightarrow>
     words = [] \<and> rest = [] \<and> (\<exists>names A. f = scopePrefix @ names \<and> parseScope names = Inr A \<and> sc = Some A)"
  by (cases words) (auto simp: scope_split_def)

lemma scope_loop_exact:
  "scope_loop seen rest = Inr (sc, words) \<longleftrightarrow> (\<exists>ws. words = seen @ ws \<and> scope_split rest ws sc)"
proof (induction seen rest rule: scope_loop.induct)
  case (2 seen field rest)
  show ?case
  proof (cases "scope_like field")
    case False
    then show ?thesis using "2.IH" by (auto simp: scope_split_plain)
  next
    case True
    then show ?thesis
      by (auto simp: scope_split_scope HasPrefix_split TrimPrefix_append split: sum.splits)
  qed
qed (auto simp: scope_split_def)

lemma parseTokenLine_exact: "parseTokenLine text = Inr l \<longleftrightarrow> line_means text l"
proof -
  have "parseTokenLine text = Inr l \<longleftrightarrow>
      (\<exists>hash rest sc words. Fields text = hash # rest \<and> scope_loop [] rest = Inr (sc, words) \<and>
         tl_hash l = ToLower hash \<and> tl_label l = label_of words \<and> tl_allowed l = sc)"
    by (cases l) (auto simp: parseTokenLine_def split: list.splits sum.splits)
  then show ?thesis
    unfolding scope_loop_exact scope_split_def parseScope_exact line_means_def
    by (auto split: if_splits)
qed

section \<open>What a hash file and a request mean\<close>

definition meaningful_lines :: "string \<Rightarrow> string list" where
  "meaningful_lines data = filter (\<lambda>t. \<not> skipped_line t) (map TrimSpace (fst (scan_lines data)))"

lemma token_lines_exact:
  "token_lines n ls = Inr tls \<longleftrightarrow>
     list_all2 line_means (filter (\<lambda>t. \<not> skipped_line t) (map TrimSpace ls)) tls"
proof (induction n ls arbitrary: tls rule: token_lines.induct)
  case (2 n l ls)
  show ?case
  proof (cases "skipped_line (TrimSpace l)")
    case True
    then show ?thesis using "2.IH"(1) by simp
  next
    case False
    show ?thesis
    proof (cases "parseTokenLine (TrimSpace l)")
      case (Inl e)
      then have "\<not> line_means (TrimSpace l) x" for x
        using parseTokenLine_exact [of "TrimSpace l" x] by simp
      then show ?thesis using False Inl by (auto simp: list_all2_Cons1)
    next
      case (Inr x)
      then have "line_means (TrimSpace l) y \<longleftrightarrow> y = x" for y
        using parseTokenLine_exact [of "TrimSpace l" y] by auto
      moreover have "token_lines (n + 1) ls = Inr ys \<longleftrightarrow>
          list_all2 line_means (filter (\<lambda>t. \<not> skipped_line t) (map TrimSpace ls)) ys" for ys
        using "2.IH"(2) [OF False Inr] by simp
      moreover have "token_lines n (l # ls) = Inr tls \<longleftrightarrow>
          (\<exists>ys. token_lines (n + 1) ls = Inr ys \<and> tls = x # ys)"
        using False Inr by (cases "token_lines (n + 1) ls") auto
      ultimately show ?thesis
        using False by (auto simp: list_all2_Cons1 simp del: token_lines.simps)
    qed
  qed
qed auto

lemma no_index_panic: "\<not> skipped_line (TrimSpace l) \<Longrightarrow> Fields (TrimSpace l) \<noteq> []"
  using Fields_TrimSpace by (auto simp: skipped_line_def)

lemma parse_file_lines:
  "parseTokenHashFile data = Inr tls \<longleftrightarrow>
     list_all fits (raw_lines data) \<and> list_all2 line_means (meaningful_lines data) tls"
proof -
  have "parseTokenHashFile data = Inr tls \<longleftrightarrow>
      list_all fits (raw_lines data) \<and> token_lines 1 (fst (scan_lines data)) = Inr tls"
    by (auto simp: parseTokenHashFile_def scan_lines_def split: sum.splits if_splits)
  then show ?thesis unfolding token_lines_exact meaningful_lines_def .
qed


lemma allow_identities_exact:
  "allow_identities us A = Inr B \<longleftrightarrow> list_all (\<lambda>u. \<not> unusable_identity u) us \<and> B = A \<union> set us"
  by (induction us A rule: allow_identities.induct) auto

lemma NewProxyBoundary_exact:
  "NewProxyBoundary sha secret us = Inr b \<longleftrightarrow>
     MinProxySecretBytes \<le> length secret \<and> us \<noteq> [] \<and> list_all (\<lambda>u. \<not> unusable_identity u) us \<and>
     b = \<lparr>pb_allowed = set us, pb_secretDigest = sha secret\<rparr>"
  by (auto simp: NewProxyBoundary_def case_result_Inr allow_identities_exact)

lemma identity_exact:
  "fst (identity sha b h) = Some u \<longleftrightarrow>
     h remoteUserHeader = [u] \<and> u \<in> pb_allowed b \<and>
     (\<exists>secret. h ProxySecretHeader = [secret] \<and> sha secret = pb_secretDigest b)"
  by (auto simp: identity_def Let_def length_Suc_conv split: if_splits)

lemma matchToken_exact:
  "fst (matchToken hex_sha read a token) = Some p \<longleftrightarrow>
     au_tokenHashFile a \<noteq> [] \<and>
     (\<exists>data tls l. read (au_tokenHashFile a) = Inr data \<and> parseTokenHashFile data = Inr tls \<and>
        find (\<lambda>l. tl_hash l = hex_sha token) tls = Some l \<and> p = (tl_label l, tl_allowed l))"
  by (auto simp: matchToken_def split: sum.splits option.splits)

text \<open>
  C16. Who a request is. With a bearer token the request is the label of the first hash line of that
  token, with that line's scope, and nothing else about it counts; without one it is the single
  \<open>Remote-User\<close> value, unscoped, when that user is on the allowlist and the single secret presented
  has the digest of the secret the boundary was built from. Everything else is nobody.
\<close>

theorem actor_exact:
  assumes "au_proxy a = None \<or> (\<exists>b. au_proxy a = Some b \<and> NewProxyBoundary sha secret users = Inr b)"
  shows "fst (actor hex_sha sha read a h) = Some (who, sc) \<longleftrightarrow>
    (case bearerToken h of
       Some token \<Rightarrow>
         au_tokenHashFile a \<noteq> [] \<and>
         (\<exists>data tls l. read (au_tokenHashFile a) = Inr data \<and>
            list_all fits (raw_lines data) \<and> list_all2 line_means (meaningful_lines data) tls \<and>
            find (\<lambda>l. tl_hash l = hex_sha token) tls = Some l \<and> who = tl_label l \<and> sc = tl_allowed l)
     | None \<Rightarrow>
         sc = None \<and> au_proxy a \<noteq> None \<and> h remoteUserHeader = [who] \<and> who \<in> set users \<and>
         (\<exists>s. h ProxySecretHeader = [s] \<and> sha s = sha secret \<and> MinProxySecretBytes \<le> length secret))"
proof (cases "bearerToken h")
  case None
  then show ?thesis
    using assms by (auto simp: actor_def identity_exact NewProxyBoundary_exact split: option.splits)
next
  case (Some token)
  then show ?thesis by (simp add: actor_def matchToken_exact parse_file_lines conj_assoc)
qed

text \<open>A boundary with the identity as digest, a user, and a request of that user.\<close>

definition sample_secret :: string where
  "sample_secret = replicate 32 (CHR ''k'')"

definition sample_auth :: authenticator where
  "sample_auth = \<lparr>au_tokenHashFile = [],
     au_proxy = Some \<lparr>pb_allowed = {''ana''}, pb_secretDigest = sample_secret\<rparr>, au_loggedReason = []\<rparr>"

definition sample_header :: header where
  "sample_header = (\<lambda>_. [])(remoteUserHeader := [''ana''], ProxySecretHeader := [sample_secret])"

theorem actor_exact_witness:
  "fst (actor (\<lambda>t. t) (\<lambda>s. s) (\<lambda>_. Inl index_panic) sample_auth sample_header) = Some (''ana'', None)"
proof -
  have no_bearer: "bearerToken sample_header = None"
    by (simp add: bearerToken_def header_Get_def sample_header_def remoteUserHeader_def
        ProxySecretHeader_def HasPrefix_def Let_def)
  have ok: "\<not> unusable_identity ''ana''"
    by (simp add: unusable_identity_def Contains_def TrimSpace_def space_len_def space_len_end_def
        space_runes_def sublist_Cons_right TrimLeftSpace.simps TrimRightSpace.simps)
  have built: "NewProxyBoundary (\<lambda>s. s) sample_secret [''ana''] =
      Inr \<lparr>pb_allowed = {''ana''}, pb_secretDigest = sample_secret\<rparr>"
    using ok by (simp add: NewProxyBoundary_exact sample_secret_def MinProxySecretBytes_def)
  have boundary: "au_proxy sample_auth = None \<or>
      (\<exists>b. au_proxy sample_auth = Some b \<and> NewProxyBoundary (\<lambda>s. s) sample_secret [''ana''] = Inr b)"
    using built by (simp add: sample_auth_def)
  show ?thesis
    unfolding actor_exact [OF boundary] no_bearer
    by (simp add: sample_auth_def sample_header_def remoteUserHeader_def ProxySecretHeader_def
        sample_secret_def MinProxySecretBytes_def)
qed

end
