(* ===== verification/Watch.thy ===== *)
theory Watch
  imports Repo
begin

text \<open>
  The registry watcher, \<open>registry/registry.go\<close>: which digest each repository's tag last resolved to
  and how the last attempt went. The registry, the clock, the ticker and the observer are a record of
  operations on a world.
\<close>

record poll_status =
  ps_At :: int
  ps_Err :: "go_error option"

record watcher =
  wt_interval :: int
  wt_tag :: string
  wt_latest :: "string \<rightharpoonup> string"
  wt_polls :: "string \<rightharpoonup> poll_status"
  wt_observed :: bool

definition DefaultTag :: string where
  "DefaultTag = ''latest''"

definition NewWatcher :: "int \<Rightarrow> watcher" where
  "NewWatcher interval =
     \<lparr>wt_interval = if interval \<le> 0 then 5 * 60 * 10 ^ 9 else interval, wt_tag = DefaultTag,
      wt_latest = Map.empty, wt_polls = Map.empty, wt_observed = False\<rparr>"

definition SetObserver :: "bool \<Rightarrow> watcher \<Rightarrow> watcher" where
  "SetObserver is_set wt = wt\<lparr>wt_observed := is_set\<rparr>"

definition Latest :: "watcher \<Rightarrow> string \<Rightarrow> string option" where
  "Latest wt repository = wt_latest wt repository"

definition LastPoll :: "watcher \<Rightarrow> string \<Rightarrow> poll_status option" where
  "LastPoll wt repository = wt_polls wt repository"

definition All :: "watcher \<Rightarrow> string \<rightharpoonup> string" where
  "All wt = wt_latest wt"

section \<open>Asking a registry\<close>

text \<open>\<open>ResolveDigest\<close>: a reference is parsed, then its manifest is asked for.\<close>

record 'w oci =
  oci_NewTag :: "string \<Rightarrow> string result"
  oci_Head :: "string \<Rightarrow> ('w, string) act"

definition ResolveDigest :: "'w oci \<Rightarrow> string \<Rightarrow> string \<Rightarrow> ('w, string) act" where
  "ResolveDigest o' repository tag w =
     (case oci_NewTag o' (repository @ '':'' @ tag) of
        Inl e \<Rightarrow> (Inl (wrap (''parse reference '' @ repository @ '':'' @ tag @ '': '') e), w)
      | Inr ref \<Rightarrow>
          (case oci_Head o' ref w of
             (Inl e, w') \<Rightarrow> (Inl (wrap (''head '' @ ref @ '': '') e), w')
           | (Inr digest, w') \<Rightarrow> (Inr digest, w')))"

section \<open>Polling\<close>

text \<open>
  \<open>rg_Done\<close>: the context is over. \<open>rg_Tick\<close>: which arm of the \<open>select\<close> was taken, true for the end.
  \<open>rg_Observe\<close> sees the watcher as it stands.
\<close>

record 'w registry_env =
  rg_Done :: "'w \<Rightarrow> bool"
  rg_Resolve :: "string \<Rightarrow> string \<Rightarrow> ('w, string) act"
  rg_Now :: "'w \<Rightarrow> int \<times> 'w"
  rg_Observe :: "watcher \<Rightarrow> string \<Rightarrow> go_error option \<Rightarrow> 'w \<Rightarrow> 'w"
  rg_Repositories :: "'w \<Rightarrow> string list \<times> 'w"
  rg_Tick :: "'w \<Rightarrow> bool \<times> 'w"

definition error_of :: "'a result \<Rightarrow> go_error option" where
  "error_of r = (case r of Inl e \<Rightarrow> Some e | Inr _ \<Rightarrow> None)"

definition store_poll :: "string \<Rightarrow> string result \<Rightarrow> int \<Rightarrow> watcher \<Rightarrow> watcher" where
  "store_poll repo r at wt =
     (let wt1 = (case r of Inr digest \<Rightarrow> wt\<lparr>wt_latest := (wt_latest wt)(repo \<mapsto> digest)\<rparr> | Inl _ \<Rightarrow> wt)
      in wt1\<lparr>wt_polls := (wt_polls wt1)(repo \<mapsto> \<lparr>ps_At = at, ps_Err = error_of r\<rparr>)\<rparr>)"

definition report :: "'w registry_env \<Rightarrow> watcher \<Rightarrow> string \<Rightarrow> go_error option \<Rightarrow> 'w \<Rightarrow> 'w" where
  "report g wt repo err w = (if wt_observed wt then rg_Observe g wt repo err w else w)"

fun poll :: "'w registry_env \<Rightarrow> string list \<Rightarrow> watcher \<Rightarrow> 'w \<Rightarrow> watcher \<times> 'w" where
  "poll g [] wt w = (wt, w)"
| "poll g (repo # repos) wt w =
     (if rg_Done g w then (wt, w)
      else (case rg_Resolve g repo (wt_tag wt) w of (r, w1) \<Rightarrow>
           (case rg_Now g w1 of (at, w2) \<Rightarrow>
              let wt' = store_poll repo r at wt in
              poll g repos wt' (report g wt' repo (error_of r) w2))))"

text \<open>\<open>Run\<close> over the first \<open>n\<close> ticks: the flag says that the context ended it.\<close>

fun watch_ticks :: "'w registry_env \<Rightarrow> nat \<Rightarrow> watcher \<Rightarrow> 'w \<Rightarrow> bool \<times> watcher \<times> 'w" where
  "watch_ticks g 0 wt w = (False, wt, w)"
| "watch_ticks g (Suc n) wt w =
     (case rg_Tick g w of (done, w1) \<Rightarrow>
        if done then (True, wt, w1)
        else (case rg_Repositories g w1 of (repos, w2) \<Rightarrow>
             (case poll g repos wt w2 of (wt', w3) \<Rightarrow> watch_ticks g n wt' w3)))"

definition watcher_Run :: "'w registry_env \<Rightarrow> nat \<Rightarrow> watcher \<Rightarrow> 'w \<Rightarrow> bool \<times> watcher \<times> 'w" where
  "watcher_Run g n wt w =
     (case rg_Repositories g w of (repos, w1) \<Rightarrow>
     (case poll g repos wt w1 of (wt', w2) \<Rightarrow> watch_ticks g n wt' w2))"

section \<open>What the watcher remembers\<close>

text \<open>An attempt: the repository, the answer, and when. The watcher is the fold of its attempts.\<close>

type_synonym attempt = "string \<times> string result \<times> int"

definition remember :: "attempt list \<Rightarrow> watcher \<Rightarrow> watcher" where
  "remember log wt = fold (\<lambda>(repo, r, at). store_poll repo r at) log wt"

text \<open>The attempts a poll makes, those of the first \<open>n\<close> ticks, and those of a run.\<close>

fun poll_attempts :: "'w registry_env \<Rightarrow> string list \<Rightarrow> watcher \<Rightarrow> 'w \<Rightarrow> attempt list" where
  "poll_attempts g [] wt w = []"
| "poll_attempts g (repo # repos) wt w =
     (if rg_Done g w then []
      else (case rg_Resolve g repo (wt_tag wt) w of (r, w1) \<Rightarrow>
           (case rg_Now g w1 of (at, w2) \<Rightarrow>
              let wt' = store_poll repo r at wt in
              (repo, r, at) # poll_attempts g repos wt' (report g wt' repo (error_of r) w2))))"

fun tick_attempts :: "'w registry_env \<Rightarrow> nat \<Rightarrow> watcher \<Rightarrow> 'w \<Rightarrow> attempt list" where
  "tick_attempts g 0 wt w = []"
| "tick_attempts g (Suc n) wt w =
     (case rg_Tick g w of (done, w1) \<Rightarrow>
        if done then []
        else (case rg_Repositories g w1 of (repos, w2) \<Rightarrow>
             (case poll g repos wt w2 of (wt', w3) \<Rightarrow>
                poll_attempts g repos wt w2 @ tick_attempts g n wt' w3)))"

definition run_attempts :: "'w registry_env \<Rightarrow> nat \<Rightarrow> watcher \<Rightarrow> 'w \<Rightarrow> attempt list" where
  "run_attempts g n wt w =
     (case rg_Repositories g w of (repos, w1) \<Rightarrow>
     (case poll g repos wt w1 of (wt', w2) \<Rightarrow> poll_attempts g repos wt w1 @ tick_attempts g n wt' w2))"

lemma remember_append: "remember (xs @ ys) wt = remember ys (remember xs wt)"
  by (simp add: remember_def)

lemma remember_single: "remember [(repo, r, at)] wt = store_poll repo r at wt"
  by (simp add: remember_def)

text \<open>Only the two maps change.\<close>

lemma store_poll_keeps [simp]:
  "wt_observed (store_poll repo r at wt) = wt_observed wt"
  "wt_tag (store_poll repo r at wt) = wt_tag wt"
  "wt_interval (store_poll repo r at wt) = wt_interval wt"
  by (simp_all add: store_poll_def Let_def split: sum.splits)

lemma store_poll_maps:
  "wt_latest (store_poll repo r at wt) x =
     (case r of Inr d \<Rightarrow> if x = repo then Some d else wt_latest wt x | Inl _ \<Rightarrow> wt_latest wt x)"
  "wt_polls (store_poll repo r at wt) x =
     (if x = repo then Some \<lparr>ps_At = at, ps_Err = error_of r\<rparr> else wt_polls wt x)"
  by (simp_all add: store_poll_def Let_def split: sum.splits)

text \<open>The digest a log last resolved a repository to, and the last attempt on it.\<close>

definition last_success :: "attempt list \<Rightarrow> string \<Rightarrow> string option" where
  "last_success log repo =
     (case filter (\<lambda>(x, r, _). x = repo \<and> \<not> isl r) (rev log) of
        [] \<Rightarrow> None
      | (_, r, _) # _ \<Rightarrow> Some (projr r))"

definition last_attempt :: "attempt list \<Rightarrow> string \<Rightarrow> poll_status option" where
  "last_attempt log repo =
     (case filter (\<lambda>(x, _, _). x = repo) (rev log) of
        [] \<Rightarrow> None
      | (_, r, at) # _ \<Rightarrow> Some \<lparr>ps_At = at, ps_Err = error_of r\<rparr>)"

lemma remember_maps:
  assumes "wt_latest wt = Map.empty" "wt_polls wt = Map.empty"
  shows "wt_latest (remember log wt) repo = last_success log repo \<and>
         wt_polls (remember log wt) repo = last_attempt log repo"
proof (induction log rule: rev_induct)
  case Nil
  then show ?case by (simp add: remember_def last_success_def last_attempt_def assms)
next
  case (snoc x log)
  obtain y r at where x: "x = (y, r, at)" by (cases x)
  show ?case
    using snoc
    by (cases r) (simp_all add: x remember_append remember_single store_poll_maps last_success_def
        last_attempt_def)
qed

lemma poll_remembers: "fst (poll g repos wt w) = remember (poll_attempts g repos wt w) wt"
  by (induction g repos wt w rule: poll.induct) (simp_all add: remember_def Let_def split: prod.split)

lemma ticks_remember:
  "fst (snd (watch_ticks g n wt w)) = remember (tick_attempts g n wt w) wt"
proof (induction g n wt w rule: watch_ticks.induct)
  case (2 g n wt w)
  show ?case
    using "2.IH" by (auto simp: remember_append split: prod.split)
      (metis fst_conv poll_remembers remember_append remember_def fold_simps(1))+
qed (simp add: remember_def)

lemma run_remembers: "fst (snd (watcher_Run g n wt w)) = remember (run_attempts g n wt w) wt"
  unfolding watcher_Run_def run_attempts_def
  by (auto simp: remember_append ticks_remember split: prod.split) (metis fst_conv poll_remembers)

definition fresh_watcher :: "int \<Rightarrow> bool \<Rightarrow> watcher" where
  "fresh_watcher interval observed = SetObserver observed (NewWatcher interval)"

text \<open>
  C18. A registry outage never looks like an image that disappeared. Whatever the registry, the clock
  and the ticks do, after any number of polling rounds the digest offered for a repository is the one
  its last successful resolve gave, however many failed ones came after it, and the status reported
  is that of the very last attempt.
\<close>

theorem watcher_exact:
  "Latest (fst (snd (watcher_Run g n (fresh_watcher interval observed) w))) repo =
     last_success (run_attempts g n (fresh_watcher interval observed) w) repo \<and>
   LastPoll (fst (snd (watcher_Run g n (fresh_watcher interval observed) w))) repo =
     last_attempt (run_attempts g n (fresh_watcher interval observed) w) repo"
proof -
  have "wt_latest (fresh_watcher interval observed) = Map.empty"
    "wt_polls (fresh_watcher interval observed) = Map.empty"
    by (simp_all add: fresh_watcher_def SetObserver_def NewWatcher_def)
  then show ?thesis by (simp add: Latest_def LastPoll_def run_remembers remember_maps)
qed

end
