(* ===== verification/Provenance.thy ===== *)
theory Provenance
  imports Repo
begin

text \<open>
  From an image digest back to its commit, \<open>revision/revision.go\<close>: what the labels of an image say,
  the commit's subject, and the cache in front of both with one background fill per digest. The
  registry, the URL parser and the GitHub answer are arguments; the goroutines are steps.
\<close>

record revision =
  rv_SHA :: string
  rv_URL :: string
  rv_Subject :: string

definition no_revision :: revision where
  "no_revision = \<lparr>rv_SHA = [], rv_URL = [], rv_Subject = []\<rparr>"

definition revisionLabel :: string where
  "revisionLabel = ''org.opencontainers.image.revision''"

definition sourceLabel :: string where
  "sourceLabel = ''org.opencontainers.image.source''"

definition subjectLimit :: nat where
  "subjectLimit = 100"

definition failureRetry :: int where
  "failureRetry = 10 * 60 * 10 ^ 9"

definition maxEntries :: nat where
  "maxEntries = 512"

section \<open>Characters\<close>

text \<open>
  The length of the UTF-8 character a text starts with, 0 when it starts with none. The bounds on the
  second byte are those that rule out surrogates, overlong forms and what is beyond Unicode.
\<close>

definition lead_width :: "nat \<Rightarrow> nat" where
  "lead_width b =
     (if b < 0x80 then 1 else if 0xC2 \<le> b \<and> b \<le> 0xDF then 2
      else if 0xE0 \<le> b \<and> b \<le> 0xEF then 3 else if 0xF0 \<le> b \<and> b \<le> 0xF4 then 4 else 0)"

definition second_byte :: "nat \<Rightarrow> nat \<times> nat" where
  "second_byte b =
     (if b = 0xE0 then (0xA0, 0xBF) else if b = 0xED then (0x80, 0x9F)
      else if b = 0xF0 then (0x90, 0xBF) else if b = 0xF4 then (0x80, 0x8F) else (0x80, 0xBF))"

definition byte_in :: "nat \<times> nat \<Rightarrow> char \<Rightarrow> bool" where
  "byte_in bounds c \<longleftrightarrow> fst bounds \<le> (of_char c :: nat) \<and> of_char c \<le> snd bounds"

definition tail_ok :: "nat \<Rightarrow> nat \<Rightarrow> string \<Rightarrow> bool" where
  "tail_ok b n t \<longleftrightarrow>
     n < length t \<and> byte_in (second_byte b) (hd t) \<and> list_all (byte_in (0x80, 0xBF)) (take n (tl t))"

definition rune_width :: "string \<Rightarrow> nat" where
  "rune_width s =
     (case s of
        [] \<Rightarrow> 0
      | c # t \<Rightarrow>
          let w = lead_width (of_char c) in
          if w \<le> 1 then w else if tail_ok (of_char c) (w - 2) t then w else 0)"

text \<open>
  \<open>[]rune(s)\<close>, each character in its encoding: a byte that starts none becomes the replacement
  character.
\<close>

definition rune_error :: string where
  "rune_error = [CHR 0xEF, CHR 0xBF, CHR 0xBD]"

function runes :: "string \<Rightarrow> string list" where
  "runes s =
     (if s = [] then []
      else if rune_width s = 0 then rune_error # runes (tl s)
      else take (rune_width s) s # runes (drop (rune_width s) s))"
  by pat_completeness auto
termination
  by (relation "measure length") auto

declare runes.simps [simp del]

section \<open>One lookup against the registry\<close>

text \<open>
  \<open>commitSubject\<close>, given the answer of the GitHub API: the status and the decoded message, or
  nothing when the request could not be made.
\<close>

definition subject_endpoint :: "string \<Rightarrow> string \<Rightarrow> string \<Rightarrow> string \<Rightarrow> string" where
  "subject_endpoint api owner repo sha =
     api @ ''/repos/'' @ owner @ ''/'' @ repo @ ''/commits/'' @ sha"

definition commitSubject :: "(nat \<times> string result) option \<Rightarrow> string" where
  "commitSubject answer =
     (case answer of
        None \<Rightarrow> []
      | Some (status, body) \<Rightarrow>
          if status \<noteq> 200 then []
          else (case body of
                  Inl _ \<Rightarrow> []
                | Inr message \<Rightarrow>
                    let subject = TrimSuffix (fst (Cut message (CHR 0x0A))) [CHR 0x0D] in
                    if length (runes subject) > subjectLimit
                    then concat (take subjectLimit (runes subject)) else subject))"

text \<open>\<open>strings.Trim(p, "/")\<close>; \<open>parse\<close> is \<open>url.Parse\<close>: the host and the path, or no URL.\<close>

definition trim_slashes :: "string \<Rightarrow> string" where
  "trim_slashes p =
     (let front = dropWhile (\<lambda>c. c = CHR ''/'') p in rev (dropWhile (\<lambda>c. c = CHR ''/'') (rev front)))"

definition githubRepository ::
    "(string \<Rightarrow> (string \<times> string) option) \<Rightarrow> string \<Rightarrow> (string \<times> string) option" where
  "githubRepository parse source =
     (case parse source of
        None \<Rightarrow> None
      | Some (host, path) \<Rightarrow>
          if host \<noteq> ''github.com'' then None
          else (case split_on (CHR ''/'') (trim_slashes path) of
                  [owner, repo] \<Rightarrow> if owner = [] \<or> repo = [] then None else Some (owner, repo)
                | _ \<Rightarrow> None))"

text \<open>\<open>github\<close> answers an endpoint. \<open>None\<close> is the answer that nothing is known.\<close>

definition resolve ::
    "(string \<Rightarrow> (string \<times> string) option) \<Rightarrow> (string \<Rightarrow> (nat \<times> string result) option) \<Rightarrow> string \<Rightarrow>
     (string \<rightharpoonup> string) result \<Rightarrow> revision option" where
  "resolve parse github api fetched =
     (case fetched of
        Inl _ \<Rightarrow> None
      | Inr labels \<Rightarrow>
          let sha = (case labels revisionLabel of None \<Rightarrow> [] | Some v \<Rightarrow> v);
              source = TrimSuffix (TrimSuffix (case labels sourceLabel of None \<Rightarrow> [] | Some v \<Rightarrow> v) ''/'') ''.git''
          in if sha = [] then None
             else if source = [] then Some \<lparr>rv_SHA = sha, rv_URL = [], rv_Subject = []\<rparr>
             else Some \<lparr>rv_SHA = sha, rv_URL = source @ ''/commit/'' @ sha,
                        rv_Subject = (case githubRepository parse source of
                                        None \<Rightarrow> []
                                      | Some (owner, repo) \<Rightarrow>
                                          commitSubject (github (subject_endpoint api owner repo sha)))\<rparr>)"

section \<open>The cache\<close>

record cache_entry =
  ce_rev :: revision
  ce_ok :: bool
  ce_at :: int

record cache =
  ca_entries :: "string \<rightharpoonup> cache_entry"
  ca_fills :: "string set"

definition newCached :: cache where
  "newCached = \<lparr>ca_entries = Map.empty, ca_fills = {}\<rparr>"

text \<open>
  \<open>cachedOrFilling\<close>: decided, or wait for the fill in flight; the last component says that this call
  starts the fill.
\<close>

datatype consult = Decided revision bool | AwaitFill

definition cachedOrFilling :: "int \<Rightarrow> string \<Rightarrow> cache \<Rightarrow> consult \<times> cache \<times> bool" where
  "cachedOrFilling now key s =
     (let wait = (AwaitFill, s\<lparr>ca_fills := insert key (ca_fills s)\<rparr>, key \<notin> ca_fills s) in
      case ca_entries s key of
        Some e \<Rightarrow>
          if ce_ok e then (Decided (ce_rev e) True, s, False)
          else if now - ce_at e < failureRetry then (Decided no_revision False, s, False)
          else wait
      | None \<Rightarrow> wait)"

definition store_entry :: "int \<Rightarrow> string \<Rightarrow> revision \<Rightarrow> bool \<Rightarrow> cache \<Rightarrow> cache" where
  "store_entry now key rv ok s =
     (let kept = (if maxEntries \<le> card (dom (ca_entries s)) then Map.empty else ca_entries s)
      in s\<lparr>ca_entries := kept(key \<mapsto> \<lparr>ce_rev = rv, ce_ok = ok, ce_at = now\<rparr>)\<rparr>)"

text \<open>The critical section of \<open>fill\<close>, once the answer is in.\<close>

definition fill_done :: "int \<Rightarrow> string \<Rightarrow> revision option \<Rightarrow> cache \<Rightarrow> cache" where
  "fill_done now key answer s =
     (let s' = (case answer of
                  Some rv \<Rightarrow> store_entry now key rv True s
                | None \<Rightarrow> store_entry now key no_revision False s)
      in s'\<lparr>ca_fills := ca_fills s' - {key}\<rparr>)"

text \<open>
  \<open>Lookup\<close> over the rounds of its loop: in each the cache as it is then, and whether the context
  ended before the fill did. \<open>None\<close>: still waiting.
\<close>

record consultation =
  co_now :: int
  co_cache :: cache
  co_over :: bool

fun Lookup :: "string \<Rightarrow> consultation list \<Rightarrow> (revision \<times> bool) option" where
  "Lookup key [] = None"
| "Lookup key (r # rs) =
     (case cachedOrFilling (co_now r) key (co_cache r) of
        (Decided rv ok, _) \<Rightarrow> Some (rv, ok)
      | (AwaitFill, _) \<Rightarrow> if co_over r then Some (no_revision, False) else Lookup key rs)"

section \<open>The cache in use\<close>

text \<open>Any number of callers and fills, one critical section at a time.\<close>

inductive cache_step :: "cache \<Rightarrow> cache \<Rightarrow> bool" where
  consulted: "cachedOrFilling now key s = (c, s', started) \<Longrightarrow> cache_step s s'"
| filled: "key \<in> ca_fills s \<Longrightarrow> cache_step s (fill_done now key answer s)"

inductive cache_reachable :: "cache \<Rightarrow> bool" where
  fresh: "cache_reachable newCached"
| later: "cache_reachable s \<Longrightarrow> cache_step s s' \<Longrightarrow> cache_reachable s'"

inductive_cases cache_stepE: "cache_step s s'"

definition known :: "cache \<Rightarrow> string \<Rightarrow> bool" where
  "known s key \<longleftrightarrow> (\<exists>e. ca_entries s key = Some e \<and> ce_ok e)"

definition cache_ok :: "cache \<Rightarrow> bool" where
  "cache_ok s \<longleftrightarrow>
     finite (dom (ca_entries s)) \<and> card (dom (ca_entries s)) \<le> maxEntries \<and>
     (\<forall>key \<in> ca_fills s. \<not> known s key)"

lemma cachedOrFilling_entries: "ca_entries (fst (snd (cachedOrFilling now key s))) = ca_entries s"
  by (simp add: cachedOrFilling_def Let_def split: option.split)

lemma cachedOrFilling_fills:
  "ca_fills (fst (snd (cachedOrFilling now key s))) =
     (if fst (cachedOrFilling now key s) = AwaitFill then insert key (ca_fills s) else ca_fills s)"
  by (simp add: cachedOrFilling_def Let_def split: option.split)

lemma AwaitFill_unknown: "fst (cachedOrFilling now key s) = AwaitFill \<Longrightarrow> \<not> known s key"
  by (auto simp: cachedOrFilling_def Let_def known_def split: option.splits if_splits)

lemma store_entry_size:
  assumes "finite (dom (ca_entries s))"
  shows "finite (dom (ca_entries (store_entry now key rv ok s)))
       \<and> card (dom (ca_entries (store_entry now key rv ok s))) \<le> maxEntries"
proof (cases "maxEntries \<le> card (dom (ca_entries s))")
  case True
  then show ?thesis by (simp add: store_entry_def maxEntries_def)
next
  case False
  then have "card (insert key (dom (ca_entries s))) \<le> maxEntries"
    using assms by (simp add: card_insert_if)
  then show ?thesis using False assms by (simp add: store_entry_def)
qed

lemma store_entry_other:
  "x \<noteq> key \<Longrightarrow> known (store_entry now key rv ok s) x \<Longrightarrow> known s x"
  by (auto simp: store_entry_def known_def Let_def split: if_splits)

lemma store_entry_fills [simp]: "ca_fills (store_entry now key rv ok s) = ca_fills s"
  by (simp add: store_entry_def Let_def)

lemma fill_done_store:
  "\<exists>rv ok. ca_entries (fill_done now key answer s) = ca_entries (store_entry now key rv ok s) \<and>
     ca_fills (fill_done now key answer s) = ca_fills s - {key}"
  by (cases answer) (auto simp: fill_done_def Let_def)

lemma cache_ok_step:
  assumes "cache_step s s'" "cache_ok s"
  shows "cache_ok s'"
proof -
  from assms(1) consider
      (consulted) now key c b where "cachedOrFilling now key s = (c, s', b)"
    | (filled) key now answer where "key \<in> ca_fills s" "s' = fill_done now key answer s"
    by (auto elim: cache_stepE)
  then show ?thesis
  proof cases
    case consulted
    then show ?thesis
      using assms(2) cachedOrFilling_entries [of now key s] cachedOrFilling_fills [of now key s]
        AwaitFill_unknown [of now key s]
      by (auto simp: cache_ok_def known_def split: if_splits)
  next
    case filled
    obtain rv ok where e: "ca_entries s' = ca_entries (store_entry now key rv ok s)"
      and f: "ca_fills s' = ca_fills s - {key}"
      using fill_done_store filled(2) by blast
    have "\<not> known s' x" if "x \<in> ca_fills s'" for x
      using that f e store_entry_other [of x key now rv ok s] assms(2)
      by (auto simp: cache_ok_def known_def)
    then show ?thesis
      using e store_entry_size [of s now key rv ok] assms(2) by (auto simp: cache_ok_def)
  qed
qed

lemma reachable_cache_ok: "cache_reachable s \<Longrightarrow> cache_ok s"
proof (induction rule: cache_reachable.induct)
  case fresh
  then show ?case by (simp add: cache_ok_def newCached_def)
qed (rule cache_ok_step)

text \<open>An entry that knows its commit stays, or goes with everything else.\<close>

lemma known_kept:
  assumes step: "cache_step s s'" and ok: "cache_ok s"
    and e: "ca_entries s key = Some e" "ce_ok e"
  shows "ca_entries s' key = Some e \<or>
    maxEntries \<le> card (dom (ca_entries s)) \<and> (\<exists>x. x \<noteq> key \<and> dom (ca_entries s') = {x})"
proof -
  from step consider
      (consulted) now k c b where "cachedOrFilling now k s = (c, s', b)"
    | (filled) k now answer where "k \<in> ca_fills s" "s' = fill_done now k answer s"
    by (auto elim: cache_stepE)
  then show ?thesis
  proof cases
    case consulted
    then show ?thesis using e cachedOrFilling_entries [of now k s] by simp
  next
    case filled
    then have "k \<noteq> key" using ok e by (auto simp: cache_ok_def known_def)
    moreover obtain rv b where "ca_entries s' = ca_entries (store_entry now k rv b s)"
      using fill_done_store filled(2) by blast
    ultimately show ?thesis
      using e by (cases "maxEntries \<le> card (dom (ca_entries s))") (auto simp: store_entry_def)
  qed
qed

text \<open>
  C35. Provenance once learned is never overwritten. However many callers and fills there are, in
  whatever order, the cache never holds more than 512 entries, and after any further step an entry
  that knows its commit is still there unchanged, or the whole cache was dropped because it was full
  and one other digest was stored: no failure, timeout or late fill ever replaces it.
\<close>

theorem provenance_is_final:
  assumes "cache_reachable s" "cache_step s s'"
    and "ca_entries s key = Some e" "ce_ok e"
  shows "card (dom (ca_entries s')) \<le> maxEntries \<and>
    (ca_entries s' key = Some e \<or>
     card (dom (ca_entries s)) = maxEntries \<and> (\<exists>x. x \<noteq> key \<and> dom (ca_entries s') = {x}))"
proof -
  have ok: "cache_ok s" using assms(1) by (rule reachable_cache_ok)
  then have "cache_ok s'" using cache_ok_step assms(2) by blast
  then show ?thesis using known_kept [OF assms(2) ok assms(3,4)] ok by (auto simp: cache_ok_def)
qed

definition sample_revision :: revision where
  "sample_revision = \<lparr>rv_SHA = ''c0ffee'', rv_URL = [], rv_Subject = []\<rparr>"

definition sample_cache :: cache where
  "sample_cache = fill_done 5 ''web@d1'' (Some sample_revision)
     (fst (snd (cachedOrFilling 3 ''web@d1'' newCached)))"

theorem provenance_is_final_witness:
  "ca_entries (fst (snd (cachedOrFilling 9 ''api@d2'' sample_cache))) ''web@d1'' =
     Some \<lparr>ce_rev = sample_revision, ce_ok = True, ce_at = 5\<rparr>"
proof -
  let ?e = "\<lparr>ce_rev = sample_revision, ce_ok = True, ce_at = 5\<rparr>"
  let ?s1 = "fst (snd (cachedOrFilling 3 ''web@d1'' newCached))"
  have "cache_step newCached ?s1"
    by (rule cache_step.consulted [of 3 "''web@d1''" _ "fst (cachedOrFilling 3 ''web@d1'' newCached)"
          _ "snd (snd (cachedOrFilling 3 ''web@d1'' newCached))"]) simp
  then have "cache_reachable ?s1" using cache_reachable.intros by blast
  moreover have "cache_step ?s1 sample_cache"
    unfolding sample_cache_def
    by (rule cache_step.filled) (simp add: cachedOrFilling_def newCached_def Let_def)
  ultimately have reach: "cache_reachable sample_cache" using cache_reachable.intros by blast
  have entries: "ca_entries sample_cache = [''web@d1'' \<mapsto> ?e]"
    by (simp add: sample_cache_def fill_done_def store_entry_def cachedOrFilling_def newCached_def
        maxEntries_def Let_def)
  have step: "cache_step sample_cache (fst (snd (cachedOrFilling 9 ''api@d2'' sample_cache)))"
    by (rule cache_step.consulted [of 9 "''api@d2''" _ "fst (cachedOrFilling 9 ''api@d2'' sample_cache)"
          _ "snd (snd (cachedOrFilling 9 ''api@d2'' sample_cache))"]) simp
  have "card (dom (ca_entries sample_cache)) \<noteq> maxEntries" by (simp add: entries maxEntries_def)
  moreover have "ca_entries sample_cache ''web@d1'' = Some ?e" "ce_ok ?e" by (simp_all add: entries)
  ultimately show ?thesis using provenance_is_final [OF reach step] by blast
qed

section \<open>What a lookup says\<close>

text \<open>Cutting a text into characters and joining some of them again keeps their number.\<close>

lemma rune_width_le: "rune_width s \<le> length s"
  by (auto simp: rune_width_def tail_ok_def Let_def split: list.split)

lemma tail_ok_take: "tail_ok b n t \<Longrightarrow> tail_ok b n (take (Suc n) t @ u)"
  by (cases t) (auto simp: tail_ok_def)

lemma rune_width_take:
  assumes "rune_width s \<noteq> 0"
  shows "rune_width (take (rune_width s) s @ t) = rune_width s"
proof (cases s)
  case (Cons c u)
  let ?w = "lead_width (of_char c)"
  have w: "rune_width s = ?w" and ok: "\<not> ?w \<le> 1 \<Longrightarrow> tail_ok (of_char c) (?w - 2) u"
    using assms by (auto simp: Cons rune_width_def Let_def split: if_splits)
  show ?thesis
  proof (cases "?w \<le> 1")
    case True
    then have "?w = 1" using assms w by linarith
    then show ?thesis unfolding w by (simp add: Cons rune_width_def)
  next
    case False
    then have "?w = Suc (Suc (?w - 2))" by linarith
    then have "take ?w s = c # take (Suc (?w - 2)) u" by (metis Cons take_Suc_Cons)
    then show ?thesis
      unfolding w using tail_ok_take [OF ok [OF False]] False by (simp add: rune_width_def)
  qed
qed (use assms in \<open>simp add: rune_width_def\<close>)

definition rune :: "string \<Rightarrow> bool" where
  "rune r \<longleftrightarrow> r \<noteq> [] \<and> (\<forall>t. rune_width (r @ t) = length r)"

lemma runes_are_runes: "list_all rune (runes s)"
proof (induction s rule: runes.induct)
  case (1 s)
  have "rune rune_error"
    by (simp add: rune_def rune_error_def rune_width_def lead_width_def second_byte_def tail_ok_def
        byte_in_def)
  moreover have "rune (take (rune_width s) s)" if "s \<noteq> []" "rune_width s \<noteq> 0"
    using that rune_width_take rune_width_le [of s] by (auto simp: rune_def min_def)
  ultimately show ?case using "1.IH" by (subst runes.simps) auto
qed

lemma runes_concat: "list_all rune rs \<Longrightarrow> runes (concat rs) = rs"
proof (induction rs)
  case (Cons r rs)
  then have "rune_width (r @ concat rs) = length r" "r \<noteq> []" by (auto simp: rune_def)
  then show ?case using Cons by (subst runes.simps) simp
qed (simp add: runes.simps)

lemma runes_bytes: "r \<in> set (runes s) \<Longrightarrow> set r \<subseteq> set s \<union> set rune_error"
proof (induction s rule: runes.induct)
  case (1 s)
  have sub: "set (tl s) \<subseteq> set s" by (cases s) auto
  consider "s = []" | "s \<noteq> []" "rune_width s = 0" | "s \<noteq> []" "rune_width s \<noteq> 0" by blast
  then show ?case
  proof cases
    case 2
    then have "r = rune_error \<or> r \<in> set (runes (tl s))"
      using "1.prems" by (subst (asm) runes.simps) simp
    then show ?thesis using "1.IH"(1) [OF 2] sub by blast
  next
    case 3
    then have "r = take (rune_width s) s \<or> r \<in> set (runes (drop (rune_width s) s))"
      using "1.prems" by (subst (asm) runes.simps) simp
    then show ?thesis
      using "1.IH"(2) [OF 3] set_take_subset [of "rune_width s" s] set_drop_subset [of "rune_width s" s]
      by blast
  qed (use "1.prems" in \<open>simp add: runes.simps\<close>)
qed

lemma first_line: "CHR 0x0A \<notin> set (TrimSuffix (fst (Cut m (CHR 0x0A))) x)"
proof -
  have "CHR 0x0A \<notin> set (fst (Cut m (CHR 0x0A)))"
    by (cases "Cut m (CHR 0x0A)"; cases "snd (snd (Cut m (CHR 0x0A)))")
       (auto dest: Cut_parts Cut_none)
  then show ?thesis by (auto simp: TrimSuffix_def dest: in_set_takeD)
qed

lemma first_runes: "CHR 0x0A \<notin> set u \<Longrightarrow> CHR 0x0A \<notin> set (concat (take n (runes u)))"
  using runes_bytes by (fastforce simp: rune_error_def dest: in_set_takeD)

lemma subject_one_line: "CHR 0x0A \<notin> set (commitSubject answer)"
  unfolding commitSubject_def Let_def
  using first_line first_runes [OF first_line]
  by (simp split: option.split sum.split del: set_concat)

lemma subject_short: "length (runes (commitSubject answer)) \<le> subjectLimit"
proof -
  have "length (runes (concat (take subjectLimit (runes u)))) \<le> subjectLimit" for u
    using runes_concat [of "take subjectLimit (runes u)"] runes_are_runes [of u]
    by (simp add: list_all_iff) (metis in_set_takeD length_take min.cobounded2)
  then show ?thesis
    by (auto simp: commitSubject_def Let_def runes.simps [of "[]"] split: option.split sum.split)
qed

text \<open>
  What is said of a digest. A lookup knows nothing exactly when the labels could not be read or
  name no commit, whatever the forge answers; otherwise it says that commit, links it under the
  labelled source without a trailing slash or \<open>.git\<close>, and quotes of the commit's message at most one
  hundred characters of its first line.
\<close>

theorem revision_exact:
  "case resolve parse github api fetched of
     None \<Rightarrow> \<not> (\<exists>labels sha. fetched = Inr labels \<and> labels revisionLabel = Some sha \<and> sha \<noteq> [])
   | Some r \<Rightarrow>
       (\<exists>labels source. fetched = Inr labels \<and> labels revisionLabel = Some (rv_SHA r) \<and> rv_SHA r \<noteq> [] \<and>
          source = TrimSuffix (TrimSuffix (case labels sourceLabel of None \<Rightarrow> [] | Some v \<Rightarrow> v) ''/'') ''.git'' \<and>
          rv_URL r = (if source = [] then [] else source @ ''/commit/'' @ rv_SHA r)) \<and>
       length (runes (rv_Subject r)) \<le> subjectLimit \<and> CHR 0x0A \<notin> set (rv_Subject r)"
proof (cases fetched)
  case (Inr labels)
  then show ?thesis
    using subject_one_line subject_short
    by (auto simp: resolve_def Let_def runes.simps [of "[]"] split: option.splits)
qed (simp add: resolve_def)

end
