(* ===== verification/Protocol.thy ===== *)
theory Protocol
  imports Monitors
begin

text \<open>
  The contract of a run, stated as an automaton over what the run may be seen to do, and the proof
  that the engine keeps it: \<open>run_keeps_protocol\<close>. The automaton says when a pull request may be
  opened and with which bytes, when it may be merged, which unit may be written and after what,
  which receipt each course of events earns, and that nothing follows the receipt. The monitors
  share the interface \<open>run_monitor\<close>, in which the program's plumbing is executed once.
\<close>

section \<open>The protocol of a run\<close>

text \<open>
  How far a run has come. \<open>Front\<close>: the manifest read at the front of the queue pins another
  digest. \<open>Proposed\<close> and \<open>Green\<close>: a pull request is open, its checks passed last. \<open>Cleared\<close>: main
  is known to pin what is to be applied. \<open>Target\<close>, \<open>Rendering\<close>, \<open>Installed\<close>, \<open>Restarted\<close>,
  \<open>Healthy_New\<close>: the merged manifest on its way onto the host. \<open>Lost\<close>: it did not get there.
  The \<open>Old\<close> stages are the same way for the previous manifest, and then the revert of main.
\<close>

datatype stage =
    Waiting | Turn | Front manifest string
  | Proposed int | Green int
  | Cleared | At_Host | Synced
  | Target manifest | Rendering manifest string | Installed manifest | Restarted manifest
  | Healthy_New | Lost
  | Old_Rendering manifest string | Old_Installed manifest | Old_Restarted manifest
  | Healthy_Old | Reverting int | Revert_Green int | Reverted
  | Dead | Finished

text \<open>The receipt each stage earns, if the run ends there.\<close>

fun earned :: "stage \<Rightarrow> string" where
  "earned Healthy_New = StateHealthy"
| "earned At_Host = StateHealthy"
| "earned Healthy_Old = StateRolledBack"
| "earned (Reverting _) = StateRolledBack"
| "earned (Revert_Green _) = StateRolledBack"
| "earned Reverted = StateRolledBack"
| "earned _ = StateFailed"

record contract =
  ct_ext :: externals
  ct_Applier :: applier
  ct_req :: run_request

definition contract_of :: "options \<Rightarrow> run_request \<Rightarrow> contract" where
  "contract_of opts req =
     \<lparr>ct_ext = opt_ext opts, ct_Applier = opt_Applier opts, ct_req = req\<rparr>"

text \<open>Unit writes, restarts and probes must be those of the manifest in hand.\<close>

definition writes_unit :: "contract \<Rightarrow> manifest \<Rightarrow> string \<Rightarrow> string \<Rightarrow> string \<Rightarrow> bool" where
  "writes_unit c m tmpl name u \<longleftrightarrow>
     name = UnitName (m_Name m) \<and> admissible_unit (ct_ext c) (ct_Applier c) m tmpl u"

definition probes :: "contract \<Rightarrow> manifest \<Rightarrow> string \<Rightarrow> int \<Rightarrow> int \<Rightarrow> bool" where
  "probes c m url timeout interval \<longleftrightarrow>
     url = h_URL (m_Health m) \<and> timeout = h_Timeout (m_Health m) \<and>
     interval = ap_ProbeInterval (ct_Applier c)"

definition for_row :: "contract \<Rightarrow> int \<Rightarrow> stage \<Rightarrow> bool" where
  "for_row c i \<sigma> \<longleftrightarrow> i = rq_id (ct_req c) \<and> \<sigma> \<noteq> Finished"

definition converging :: "contract \<Rightarrow> bool" where
  "converging c \<longleftrightarrow> rq_action (ct_req c) = ActionConverge"

text \<open>
  One step: the stage after an observation, or \<open>None\<close> where the protocol forbids it. The second
  component is the previous manifest's bytes: the ones a rollback restores.
\<close>

fun protocol :: "contract \<Rightarrow> (stage \<times> string) monitor" where
  "protocol c (\<sigma>, prev) (OE (LockService s) r) =
     (if \<sigma> = Waiting \<and> s = rq_service (ct_req c)
      then Some (if r \<noteq> None then Waiting else if converging c then Cleared else Turn, prev)
      else None)"
| "protocol c (\<sigma>, prev) (OManifest s r) =
     (if s \<noteq> rq_service (ct_req c) then None
      else case \<sigma> of
        Turn \<Rightarrow>
          (case r of
             Inl _ \<Rightarrow> Some (Turn, prev)
           | Inr (m, raw) \<Rightarrow>
               if digest_of m = rq_newDigest (ct_req c) then Some (Cleared, prev)
               else Some (Front m raw, raw))
      | Synced \<Rightarrow>
          (case r of
             Inl _ \<Rightarrow> Some (Lost, prev)
           | Inr (m, _) \<Rightarrow>
               Some (if converging c \<or> digest_of m = rq_newDigest (ct_req c) then Target m else Lost,
                     prev))
      | _ \<Rightarrow> None)"
| "protocol c (\<sigma>, prev) (OS (RunningImage s) r) =
     (if \<sigma> = Cleared \<and> \<not> converging c \<and> s = rq_service (ct_req c)
      then Some (if r = Inr (rq_newDigest (ct_req c)) then At_Host else Cleared, prev) else None)"
| "protocol c (\<sigma>, prev) (OOpenPR s content title body r) =
     (if s \<noteq> rq_service (ct_req c) then None
      else case \<sigma> of
        Front m raw \<Rightarrow>
          if setDigest raw (digest_of m) (rq_newDigest (ct_req c)) = Inr content
          then Some (case r of Inl _ \<Rightarrow> Front m raw | Inr n \<Rightarrow> Proposed n, prev) else None
      | Healthy_Old \<Rightarrow>
          if content = prev
          then Some (case r of Inl _ \<Rightarrow> Healthy_Old | Inr n \<Rightarrow> Reverting n, prev) else None
      | Reverting n' \<Rightarrow>
          if content = prev
          then Some (case r of Inl _ \<Rightarrow> Reverting n' | Inr n \<Rightarrow> Reverting n, prev) else None
      | _ \<Rightarrow> None)"
| "protocol c (\<sigma>, prev) (OWaitChecks n d r) =
     (if \<sigma> = Proposed n then Some (if \<exists>t. r = Inr (True, t) then Green n else Proposed n, prev)
      else if \<sigma> = Reverting n
      then Some (if \<exists>t. r = Inr (True, t) then Revert_Green n else Reverting n, prev)
      else None)"
| "protocol c (\<sigma>, prev) (OS (PRMerge n) r) =
     (if \<sigma> = Green n then Some (case r of Inl _ \<Rightarrow> Proposed n | Inr _ \<Rightarrow> Cleared, prev)
      else if \<sigma> = Revert_Green n
      then Some (case r of Inl _ \<Rightarrow> Reverting n | Inr _ \<Rightarrow> Reverted, prev)
      else None)"
| "protocol c (\<sigma>, prev) (OE (PRUpdateBranch n) r) =
     (if \<sigma> = Proposed n \<or> \<sigma> = Reverting n then Some (\<sigma>, prev) else None)"
| "protocol c (\<sigma>, prev) (OE (PRClose n text) r) =
     (if \<sigma> = Proposed n then Some (Dead, prev) else None)"
| "protocol c (\<sigma>, prev) (OS RepoSync r) =
     (case \<sigma> of
        Waiting \<Rightarrow> Some (Waiting, prev)
      | Cleared \<Rightarrow> Some (case r of Inl _ \<Rightarrow> Lost | Inr _ \<Rightarrow> Synced, prev)
      | _ \<Rightarrow> None)"
| "protocol c (\<sigma>, prev) (OS (RepoTemplate t) r) =
     (let old = (if converging c then None
                 else case Parse (x_yaml (ct_ext c)) prev of
                   Inl _ \<Rightarrow> None
                 | Inr m \<Rightarrow>
                     if t = m_Template m
                     then Some (case r of Inl _ \<Rightarrow> Dead | Inr tmpl \<Rightarrow> Old_Rendering m tmpl, prev)
                     else None)
      in case \<sigma> of
        Target m \<Rightarrow>
          if t = m_Template m
          then Some (case r of Inl _ \<Rightarrow> Lost | Inr tmpl \<Rightarrow> Rendering m tmpl, prev) else None
      | Rendering _ _ \<Rightarrow> old
      | Lost \<Rightarrow> old
      | _ \<Rightarrow> None)"
| "protocol c (\<sigma>, prev) (OE (WriteUnit name u) r) =
     (case \<sigma> of
        Rendering m tmpl \<Rightarrow>
          if writes_unit c m tmpl name u
          then Some (if r = None then Installed m else Lost, prev) else None
      | Old_Rendering m tmpl \<Rightarrow>
          if writes_unit c m tmpl name u
          then Some (if r = None then Old_Installed m else Dead, prev) else None
      | _ \<Rightarrow> None)"
| "protocol c (\<sigma>, prev) (OE (ReloadAndRestart s) r) =
     (case \<sigma> of
        Installed m \<Rightarrow>
          if s = m_Name m then Some (if r = None then Restarted m else Lost, prev) else None
      | Old_Installed m \<Rightarrow>
          if s = m_Name m then Some (if r = None then Old_Restarted m else Dead, prev) else None
      | _ \<Rightarrow> None)"
| "protocol c (\<sigma>, prev) (OE (ProbeHealth url timeout interval) r) =
     (case \<sigma> of
        Restarted m \<Rightarrow>
          if probes c m url timeout interval
          then Some (if r = None then Healthy_New else Lost, prev) else None
      | Old_Restarted m \<Rightarrow>
          if probes c m url timeout interval
          then Some (if r = None then Healthy_Old else Dead, prev) else None
      | _ \<Rightarrow> None)"
| "protocol c (\<sigma>, prev) (OE (JProgress i st d) r) =
     (if for_row c i \<sigma> \<and> \<not> isTerminal st then Some (\<sigma>, prev) else None)"
| "protocol c (\<sigma>, prev) (OE (JFinish i st d) r) =
     (if for_row c i \<sigma> \<and> st = earned \<sigma> then Some (Finished, prev) else None)"
| "protocol c (\<sigma>, prev) (OE (JSetPR i n) r) =
     (if for_row c i \<sigma> \<and> \<sigma> = Proposed n then Some (\<sigma>, prev) else None)"
| "protocol c (\<sigma>, prev) (OE (JSetMergeSHA i sha) r) =
     (if for_row c i \<sigma> \<and> \<sigma> = Cleared then Some (if r = None then Cleared else Dead, prev) else None)"
| "protocol c (\<sigma>, prev) (OE (JSetDigests i old new) r) =
     (if for_row c i \<sigma> \<and> converging c \<and> old = new \<and> (\<exists>m. \<sigma> = Target m \<and> new = digest_of m)
      then Some (\<sigma>, prev) else None)"
| "protocol c (\<sigma>, prev) (OE CtxErr r) = Some (\<sigma>, prev)"
| "protocol c (\<sigma>, prev) (OU u) = Some (\<sigma>, prev)"
| "protocol c (\<sigma>, prev) (OSyncState v) = Some (\<sigma>, prev)"
| "protocol c (\<sigma>, prev) (OPause d done) = Some (\<sigma>, prev)"
| "protocol c (\<sigma>, prev) (ONow n) = Some (\<sigma>, prev)"

definition protocol_live :: "stage \<times> string \<Rightarrow> bool" where
  "protocol_live s \<longleftrightarrow> fst s \<noteq> Finished"

section \<open>The engine keeps the protocol\<close>

interpretation prot: run_monitor "protocol c" protocol_live "rq_id (ct_req c)" for c
proof
  show "protocol_live s \<Longrightarrow> \<not> isTerminal st \<Longrightarrow>
      protocol c s (OE (JProgress (rq_id (ct_req c)) st d) r) = Some s" for s st d r
    by (cases s) (simp add: protocol_live_def for_row_def)
  show "protocol c s (ONow n) = Some s" for s n by (cases s) simp
  show "protocol c s (OU (Notify ev)) = Some s" for s ev by (cases s) simp
  show "protocol c s (OSyncState v) = Some s" for s v by (cases s) simp
qed

abbreviation keeps :: "contract \<Rightarrow> stage \<times> string \<Rightarrow> prog \<Rightarrow> bool" where
  "keeps c \<equiv> safe (protocol c) (\<lambda>s. fst s = Finished)"

definition fits :: "contract \<Rightarrow> options \<Rightarrow> run_request \<Rightarrow> bool" where
  "fits c opts req \<longleftrightarrow>
     ct_ext c = opt_ext opts \<and> ct_Applier c = opt_Applier opts \<and>
     rq_id req = rq_id (ct_req c) \<and> rq_service req = rq_service (ct_req c) \<and>
     rq_action req = rq_action (ct_req c)"

text \<open>The stages in which the merged manifest has not made it, and those that earn a failure.\<close>

definition lost :: "stage \<Rightarrow> bool" where
  "lost \<sigma> \<longleftrightarrow> \<sigma> = Lost \<or> (\<exists>m tmpl. \<sigma> = Rendering m tmpl)"

definition failing :: "stage \<Rightarrow> bool" where
  "failing \<sigma> \<longleftrightarrow> \<sigma> \<noteq> Finished \<and> earned \<sigma> = StateFailed"

lemma failing_simps [simp]:
  "failing Waiting" "failing Turn" "failing (Front m raw)" "failing (Proposed n)"
  "failing Cleared" "failing Synced" "failing (Target m)" "failing Dead" "failing Lost"
  "failing (Rendering m tmpl)" "failing (Old_Rendering m tmpl)"
  by (simp_all add: failing_def)

lemma lost_failing: "lost \<sigma> \<Longrightarrow> failing \<sigma>"
  by (auto simp: lost_def)

lemma failing_live: "failing \<sigma> \<Longrightarrow> protocol_live (\<sigma>, prev)"
  by (simp add: failing_def protocol_live_def)

lemma keeps_emit:
  "fits c opts req \<Longrightarrow> \<sigma> \<noteq> Finished \<Longrightarrow> \<not> isTerminal st \<Longrightarrow>
   keeps c (\<sigma>, prev) (emit opts req st d k) = keeps c (\<sigma>, prev) k"
  by (rule prot.safe_emit) (simp_all add: protocol_live_def fits_def)

lemma keeps_finish:
  "fits c opts req \<Longrightarrow> \<sigma> \<noteq> Finished \<Longrightarrow> st = earned \<sigma> \<Longrightarrow>
   keeps c (\<sigma>, prev) (finish opts req st d k) = keeps c (Finished, prev) k"
  unfolding prot.safe_finish by (simp add: for_row_def fits_def)

lemma keeps_fail:
  "fits c opts req \<Longrightarrow> failing \<sigma> \<Longrightarrow>
   keeps c (\<sigma>, prev) (fail opts req d k) = keeps c (Finished, prev) k"
  unfolding fail_def by (rule keeps_finish) (auto simp: failing_def)

text \<open>The applier with any phase reports that leave the monitor where it is.\<close>

lemma keeps_Apply_new:
  assumes c: "ct_ext c = x" "ct_Applier c = a"
    and report: "\<And>ph \<tau> p. \<tau> \<noteq> Finished \<Longrightarrow> keeps c (\<tau>, prev) (on_phase ph p) = keeps c (\<tau>, prev) p"
    and ok: "keeps c (Healthy_New, prev) (k None)"
    and bad: "\<And>\<tau> e. lost \<tau> \<Longrightarrow> keeps c (\<tau>, prev) (k (Some e))"
  shows "keeps c (Rendering m tmpl, prev) (Apply x a m tmpl on_phase k)"
proof (cases "\<exists>u. admissible_unit x a m tmpl u")
  case True
  then obtain u where u: "admissible_unit x a m tmpl u" ..
  have bad': "keeps c (Lost, prev) (k (Some e))" for e by (rule bad) (simp add: lost_def)
  show ?thesis
    unfolding Apply_admissible [OF u]
    by (simp add: safe_ECall writes_unit_def probes_def c u report bad' ok split: option.split)
next
  case False
  then show ?thesis
    using Apply_refused [OF False, of on_phase k] bad [of "Rendering m tmpl"] by (auto simp: lost_def)
qed

lemma keeps_Apply_old:
  assumes c: "ct_ext c = x" "ct_Applier c = a"
    and report: "\<And>ph \<tau> p. \<tau> \<noteq> Finished \<Longrightarrow> keeps c (\<tau>, prev) (on_phase ph p) = keeps c (\<tau>, prev) p"
    and ok: "keeps c (Healthy_Old, prev) (k None)"
    and bad: "\<And>\<tau> e. failing \<tau> \<Longrightarrow> keeps c (\<tau>, prev) (k (Some e))"
  shows "keeps c (Old_Rendering m tmpl, prev) (Apply x a m tmpl on_phase k)"
proof (cases "\<exists>u. admissible_unit x a m tmpl u")
  case True
  then obtain u where u: "admissible_unit x a m tmpl u" ..
  show ?thesis
    unfolding Apply_admissible [OF u]
    by (simp add: safe_ECall writes_unit_def probes_def c u report bad ok split: option.split)
next
  case False
  then show ?thesis using Apply_refused [OF False, of on_phase k] bad by auto
qed

lemma keeps_applyManifest:
  assumes f: "fits c opts req"
    and ok: "keeps c (Healthy_New, prev) (k None)"
    and bad: "\<And>\<tau> e. lost \<tau> \<Longrightarrow> keeps c (\<tau>, prev) (k (Some e))"
  shows "keeps c (Target m, prev) (applyManifest opts req m k)"
proof -
  have report: "keeps c (\<tau>, prev) (phase_events opts req m ph p) = keeps c (\<tau>, prev) p"
    if "\<tau> \<noteq> Finished" for ph \<tau> p
    using f that by (intro prot.safe_phase) (simp_all add: protocol_live_def fits_def)
  have c: "ct_ext c = opt_ext opts" "ct_Applier c = opt_Applier opts" using f by (simp_all add: fits_def)
  have "keeps c (Lost, prev) (k (Some e))" for e by (rule bad) (simp add: lost_def)
  moreover have "keeps c (Rendering m tmpl, prev)
      (Apply (opt_ext opts) (opt_Applier opts) m tmpl (phase_events opts req m) k)" for tmpl
    by (rule keeps_Apply_new [OF c report ok bad])
  ultimately show ?thesis
    unfolding applyManifest_def by (auto simp: safe_SCall split: sum.splits)
qed

lemma keeps_applyMerged:
  assumes f: "fits c opts req" and new: "\<not> converging c" "rq_newDigest req = rq_newDigest (ct_req c)"
    and ok: "keeps c (Healthy_New, prev) (k None)"
    and bad: "\<And>\<tau> e. lost \<tau> \<Longrightarrow> keeps c (\<tau>, prev) (k (Some e))"
  shows "keeps c (Cleared, prev) (applyMerged opts req k)"
proof -
  have lost: "keeps c (Lost, prev) (k (Some e))" for e by (rule bad) (simp add: lost_def)
  note target = keeps_applyManifest [OF f ok bad]
  have svc: "rq_service req = rq_service (ct_req c)" using f by (simp add: fits_def)
  show ?thesis
    unfolding applyMerged_def using new lost target
    by (auto simp: safe_SCall safe_RepoManifest svc split: sum.splits intro!: prot.safe_syncFailure)
qed

lemma keeps_restorePrevious:
  assumes f: "fits c opts req" and l: "lost \<sigma>" "\<not> converging c"
    and prev: "rq_originalRaw req = prev"
    and ok: "keeps c (Healthy_Old, prev) (k None)"
    and bad: "\<And>\<tau> e. failing \<tau> \<Longrightarrow> keeps c (\<tau>, prev) (k (Some e))"
  shows "keeps c (\<sigma>, prev) (restorePrevious opts req k)"
proof (cases "Parse (x_yaml (opt_ext opts)) prev")
  case (Inl e)
  then show ?thesis
    unfolding restorePrevious_def prev using bad lost_failing [OF l(1)] by simp
next
  case (Inr m)
  have c: "ct_ext c = opt_ext opts" "ct_Applier c = opt_Applier opts" using f by (simp_all add: fits_def)
  have probing: "keeps c (\<tau>, prev) (if ph = PhaseProbing
        then emit opts req StateProbing (''probing '' @ h_URL (m_Health m)) p else p)
      = keeps c (\<tau>, prev) p" if "\<tau> \<noteq> Finished" for ph \<tau> p
    using keeps_emit [OF f that not_terminal(6)] by (simp only: if_split simp_thms) blast
  have "keeps c (Old_Rendering m tmpl, prev) (Apply (opt_ext opts) (opt_Applier opts) m tmpl
      (\<lambda>ph p. if ph = PhaseProbing
        then emit opts req StateProbing (''probing '' @ h_URL (m_Health m)) p else p) k)" for tmpl
    by (rule keeps_Apply_old [OF c probing ok bad])
  then show ?thesis
    unfolding restorePrevious_def prev Inr sum.case safe_SCall
    using l bad Inr c by (auto simp: lost_def Let_def split: sum.splits)
qed

definition reverting :: "stage \<Rightarrow> bool" where
  "reverting \<sigma> \<longleftrightarrow> \<sigma> = Healthy_Old \<or> (\<exists>n. \<sigma> = Reverting n)"

lemma keeps_locks:
  "keeps c (\<sigma>, prev) (lockMergeQueue k) = keeps c (\<sigma>, prev) k"
  "keeps c (\<sigma>, prev) (UCall u k) = keeps c (\<sigma>, prev) k"
  by (simp_all add: lockMergeQueue_def safe_UCall)

lemma keeps_revertOnce:
  assumes f: "fits c opts req" and s: "reverting \<sigma>" and prev: "rq_originalRaw req = prev"
    and ok: "\<And>req'. fits c opts req' \<Longrightarrow> rq_originalRaw req' = prev \<Longrightarrow>
               keeps c (Reverted, prev) (k (req', None))"
    and bad: "\<And>req' \<tau> e. fits c opts req' \<Longrightarrow> rq_originalRaw req' = prev \<Longrightarrow> reverting \<tau> \<Longrightarrow>
               keeps c (\<tau>, prev) (k (req', Some e))"
  shows "keeps c (\<sigma>, prev) (revertOnce opts req k)"
proof -
  have f': "fits c opts (req\<lparr>rq_prNumber := pr, rq_prURL := url\<rparr>)" for pr url
    using f by (simp add: fits_def)
  have "keeps c (Reverting pr, prev)
     (mergeThroughChecks opts (req\<lparr>rq_prNumber := pr, rq_prURL := url\<rparr>) pr (\<lambda>merged.
       UCall UnlockMerge (case merged of
         Inl err \<Rightarrow> k (req\<lparr>rq_prNumber := pr, rq_prURL := url\<rparr>, Some err)
       | Inr _ \<Rightarrow> k (req\<lparr>rq_prNumber := pr, rq_prURL := url\<rparr>, None))))" for pr url
    unfolding mergeThroughChecks_def
    by (rule prot.safe_merge_loop [where I = "\<lambda>s. s = (Reverting pr, prev)" and
          G = "\<lambda>s. s = (Revert_Green pr, prev)"])
      (use f' ok bad prev in \<open>auto simp: protocol_live_def reverting_def keeps_locks split: sum.splits
         simp: fits_def\<close>)
  then show ?thesis
    using s bad [OF f prev] prev f
    by (auto simp: revertOnce_def keeps_locks safe_OpenManifestPR reverting_def Let_def fits_def
        split: sum.splits)
qed

lemma keeps_revert_loop:
  assumes ok: "\<And>req' \<tau> r. fits c opts req' \<Longrightarrow> reverting \<tau> \<or> \<tau> = Reverted \<Longrightarrow>
                 keeps c (\<tau>, prev) (k (req', r))"
  shows "fits c opts req \<Longrightarrow> rq_originalRaw req = prev \<Longrightarrow> reverting \<sigma> \<Longrightarrow>
    keeps c (\<sigma>, prev) (revert_loop opts n req lst k)"
proof (induction n arbitrary: req \<sigma> lst)
  case 0
  then show ?case by (simp add: ok)
next
  case (Suc n)
  have f: "fits c opts (clear_trail req)" "rq_originalRaw (clear_trail req) = prev"
    using Suc.prems by (simp_all add: clear_trail_def fits_def)
  have live: "\<sigma> \<noteq> Finished" using Suc.prems(3) by (auto simp: reverting_def)
  show ?case
    unfolding revert_loop.simps keeps_emit [OF f(1) live not_terminal(5)]
    by (rule keeps_revertOnce [OF f(1) Suc.prems(3) f(2)])
      (simp_all add: ok Suc.IH safe_ECall safe_Pause split: option.split)
qed

lemma keeps_rollback:
  assumes f: "fits c opts req" and l: "lost \<sigma>" "\<not> converging c" and prev: "rq_originalRaw req = prev"
    and k: "keeps c (Finished, prev) k"
  shows "keeps c (\<sigma>, prev) (rollback opts req cause k)"
proof -
  have f1: "fits c opts (clear_trail req)" "rq_originalRaw (clear_trail req) = prev"
    using f prev by (simp_all add: clear_trail_def fits_def)
  have live: "\<sigma> \<noteq> Finished" using l by (auto simp: lost_def)
  have done_: "keeps c (\<tau>, prev) (case (req', r) of (undo, r) \<Rightarrow>
      finish opts (undo\<lparr>rq_detailPrefix := []\<rparr>) StateRolledBack (detail r) k)"
    if "fits c opts req'" "reverting \<tau> \<or> \<tau> = Reverted" for req' \<tau> r detail
  proof -
    have "fits c opts (req'\<lparr>rq_detailPrefix := []\<rparr>)" using that(1) by (simp add: fits_def)
    then show ?thesis
      using that(2) k unfolding prod.case by (auto simp: keeps_finish reverting_def)
  qed
  have revert: "keeps c (Healthy_Old, prev) (revertMain opts (clear_trail req) (\<lambda>(undo, r).
      finish opts (undo\<lparr>rq_detailPrefix := []\<rparr>) StateRolledBack (detail r) k))" for detail
    unfolding revertMain_def
    by (rule keeps_revert_loop, erule (1) done_) (use f1 in \<open>simp_all add: reverting_def fits_def\<close>)
  have failed: "keeps c (\<tau>, prev) (finish opts (clear_trail req) StateFailed d k)"
    if "failing \<tau>" for \<tau> d
    using keeps_fail [OF f1(1) that] k unfolding fail_def by blast
  show ?thesis
    unfolding rollback_def keeps_emit [OF f1(1) live not_terminal(5)]
    by (rule keeps_restorePrevious [OF f1(1) l f1(2)]; unfold option.case)
      (rule revert, rule failed)
qed

lemma keeps_converge_pin:
  assumes f: "fits c opts req" and k: "keeps c (Finished, prev) k"
  shows "keeps c (Target m, prev) (converge_pin opts req m k)"
proof -
  define req' where "req' = req\<lparr>rq_oldDigest := digest_of m, rq_newDigest := digest_of m\<rparr>"
  have f': "fits c opts req'" using f by (simp add: fits_def req'_def)
  have bad: "keeps c (\<tau>, prev) (fail opts req' d k)" if "lost \<tau>" for \<tau> d
    using keeps_fail [OF f' lost_failing [OF that]] k by blast
  have ok: "keeps c (Healthy_New, prev) (finish opts req' StateHealthy d k)" for d
    using k by (simp add: keeps_finish [OF f'])
  have live: "Target m \<noteq> Finished" by simp
  show ?thesis
    unfolding converge_pin_def Let_def req'_def [symmetric] keeps_emit [OF f' live not_terminal(5)]
    by (rule keeps_applyManifest [OF f']; unfold option.case) (rule ok, rule bad)
qed

lemma keeps_converge:
  assumes f: "fits c opts req" and conv: "converging c" and k: "keeps c (Finished, prev) k"
  shows "keeps c (Cleared, prev) (converge opts req k)"
proof -
  have svc: "rq_service req = rq_service (ct_req c)" and row: "rq_id req = rq_id (ct_req c)"
    using f by (simp_all add: fits_def)
  have failed: "keeps c (\<tau>, prev) (fail opts req d k)" if "failing \<tau>" for \<tau> d
    using keeps_fail [OF f that] k by blast
  show ?thesis
    unfolding converge_def safe_SCall
    by (auto simp: safe_RepoManifest safe_ECall svc row conv for_row_def failed
        keeps_converge_pin [OF f k] split: sum.splits option.splits
        intro!: prot.safe_syncFailure)
qed

lemma keeps_land:
  assumes f: "fits c opts req" and new: "\<not> converging c" "rq_newDigest req = rq_newDigest (ct_req c)"
    and prev: "rq_originalRaw req = prev" and k: "keeps c (Finished, prev) k"
  shows "keeps c (Cleared, prev) (land opts req sha k)"
proof -
  define req' where "req' = req\<lparr>rq_mergeURL :=
    if opt_RepoWebURL opts \<noteq> [] then opt_RepoWebURL opts @ ''/commit/'' @ sha else rq_mergeURL req\<rparr>"
  have f': "fits c opts req'" and new': "rq_newDigest req' = rq_newDigest (ct_req c)"
    and prev': "rq_originalRaw req' = prev"
    using f new prev by (simp_all add: fits_def req'_def)
  have ok: "keeps c (Healthy_New, prev) (finish opts req' StateHealthy d k)" for d
    using k by (simp add: keeps_finish [OF f'])
  have live: "Cleared \<noteq> Finished" by simp
  have "keeps c (Cleared, prev) (emit opts req' StateMerged d1 (emit opts req' StateReconciling d2
      (applyMerged opts req' (\<lambda>r. case r of
            None \<Rightarrow> finish opts req' StateHealthy d3 k
          | Some applyErr \<Rightarrow> rollback opts req' applyErr k))))" for d1 d2 d3
    unfolding keeps_emit [OF f' live not_terminal(5)] keeps_emit [OF f' live not_terminal(4)]
    by (rule keeps_applyMerged [OF f' new(1) new']; unfold option.case)
      (rule ok, erule keeps_rollback [OF f' _ new(1) prev' k])
  moreover have "keeps c (Dead, prev) (fail opts req d k)" for d
    using keeps_fail [OF f] k by simp
  moreover have "for_row c (rq_id req) Cleared" using f by (simp add: fits_def for_row_def)
  ultimately show ?thesis
    unfolding land_def Let_def req'_def [symmetric]
    by (simp add: safe_ECall split: option.split del: StateMerged_def StateReconciling_def StateHealthy_def)
qed

lemma keeps_already_pinned:
  assumes f: "fits c opts req" and new: "\<not> converging c" "rq_newDigest req = rq_newDigest (ct_req c)"
    and prev: "rq_originalRaw req = prev" and k: "keeps c (Finished, prev) k"
  shows "keeps c (Cleared, prev) (already_pinned opts req k)"
proof -
  have ok: "keeps c (\<tau>, prev) (finish opts req StateHealthy d k)"
    if "\<tau> = Healthy_New \<or> \<tau> = At_Host" for d \<tau>
    using k that by (auto simp: keeps_finish [OF f])
  have live: "Cleared \<noteq> Finished" by simp
  have pinned: "keeps c (Cleared, prev) (emit opts req StateReconciling d
      (applyMerged opts req (\<lambda>r. case r of
           Some applyErr \<Rightarrow> rollback opts req applyErr k
         | None \<Rightarrow> finish opts req StateHealthy d' k)))" for d d'
    unfolding keeps_emit [OF f live not_terminal(5)]
    by (rule keeps_applyMerged [OF f new]; unfold option.case)
      (rule ok, simp, erule keeps_rollback [OF f _ new(1) prev k])
  have svc: "rq_service req = rq_service (ct_req c)" using f by (simp add: fits_def)
  show ?thesis
    unfolding already_pinned_def safe_SCall
  proof
    fix r
    show "after (protocol c) (\<lambda>s. fst s = Finished)
        (protocol c (Cleared, prev) (OS (RunningImage (rq_service req)) r))
        (UCall UnlockMerge
          (if r = Inr (rq_newDigest req)
           then finish opts req StateHealthy
             (rq_service req @ '' was already brought to '' @ rq_newDigest req
              @ '' by an earlier deploy; nothing to do'') k
           else emit opts req StateReconciling
             (''main already pins '' @ rq_newDigest req
              @ '' but the host does not run it; applying the merged manifest'')
             (applyMerged opts req (\<lambda>r. case r of
                Some applyErr \<Rightarrow> rollback opts req applyErr k
              | None \<Rightarrow> finish opts req StateHealthy
                  (rq_service req @ '' is healthy on '' @ rq_newDigest req) k))))"
      using ok [of At_Host] pinned new
      by (cases "r = Inr (rq_newDigest req)") (simp_all only: protocol.simps svc simp_thms if_True if_False
        after_simps keeps_locks)
  qed
qed

lemma keeps_follow_proposal:
  assumes f: "fits c opts req" and new: "\<not> converging c" "rq_newDigest req = rq_newDigest (ct_req c)"
    and prev: "rq_originalRaw req = prev" and k: "keeps c (Finished, prev) k"
  shows "keeps c (Proposed pr, prev) (follow_proposal opts req pr k)"
proof -
  define req' where "req' = req\<lparr>rq_prNumber := pr, rq_prURL := pull_url opts pr (rq_prURL req)\<rparr>"
  have f': "fits c opts req'" and new': "rq_newDigest req' = rq_newDigest (ct_req c)"
    and prev': "rq_originalRaw req' = prev" and row: "for_row c (rq_id req) (Proposed pr)"
    using f new prev by (simp_all add: fits_def for_row_def req'_def)
  have live: "Proposed pr \<noteq> Finished" by simp
  have abandoned: "keeps c (Dead, prev) (fail opts req' d k)" for d
    using keeps_fail [OF f'] k by simp
  note landed = keeps_land [OF f' new(1) new' prev' k]
  have "keeps c (Proposed pr, prev) (emit opts req' StatePROpen d
     (mergeThroughChecks opts req' pr (\<lambda>merged.
       UCall UnlockMerge (case merged of
         Inl err \<Rightarrow>
           ECall (PRClose pr (''snowdeploy abandoned this change: '' @ err_text err))
             (\<lambda>_. fail opts req' (err_text err) k)
       | Inr mergeSHA \<Rightarrow> land opts req' mergeSHA k))))" for d
    unfolding keeps_emit [OF f' live not_terminal(2)] mergeThroughChecks_def
    by (rule prot.safe_merge_loop [where I = "\<lambda>s. s = (Proposed pr, prev)" and
          G = "\<lambda>s. s = (Green pr, prev)"])
      (use f' landed abandoned in \<open>auto simp: protocol_live_def keeps_locks safe_ECall fits_def
         split: sum.splits\<close>)
  moreover have "keeps c (Proposed pr, prev) (fail opts req d k)" for d
    using keeps_fail [OF f] k by simp
  ultimately show ?thesis
    unfolding follow_proposal_def Let_def req'_def [symmetric] safe_ECall protocol.simps
    using row by (auto simp only: keeps_locks after_simps if_True simp_thms split: option.split)
qed

lemma keeps_propose:
  assumes f: "fits c opts req" and new: "\<not> converging c" "rq_newDigest req = rq_newDigest (ct_req c)"
    and k: "\<And>prev. keeps c (Finished, prev) k"
  shows "keeps c (Front m raw, raw) (propose opts req m raw k)"
proof (cases "setDigest raw (digest_of m) (rq_newDigest req)")
  case (Inl e)
  have "keeps c (Front m raw, raw) (fail opts req d k)" for d
    using keeps_fail [OF f] k by simp
  then show ?thesis unfolding propose_def Inl sum.case keeps_locks .
next
  case (Inr fresh)
  define req' where "req' = req\<lparr>rq_newContent := fresh, rq_originalRaw := raw,
    rq_oldDigest := digest_of m\<rparr>"
  have f': "fits c opts req'" and req': "rq_service req' = rq_service (ct_req c)"
      "rq_newContent req' = fresh" "rq_newDigest req' = rq_newDigest (ct_req c)"
      "rq_originalRaw req' = raw"
    using f new by (simp_all add: req'_def fits_def)
  have "keeps c (Front m raw, raw) (fail opts req' d k)" for d
    using keeps_fail [OF f'] k by simp
  moreover have "setDigest raw (digest_of m) (rq_newDigest (ct_req c)) = Inr (rq_newContent req')"
    using Inr new req' by simp
  ultimately show ?thesis
    unfolding propose_def Inr sum.case Let_def req'_def [symmetric] safe_OpenManifestPR
    using keeps_follow_proposal [OF f' new(1) req'(3,4) k]
    by (auto simp: req'(1) keeps_locks split: sum.split)
qed

lemma keeps_run_turn:
  assumes f: "fits c opts req" and same: "rq_newDigest req = rq_newDigest (ct_req c)"
    and prev: "rq_originalRaw req = prev" and k: "\<And>prev. keeps c (Finished, prev) k"
  shows "keeps c (if converging c then Cleared else Turn, prev) (run_turn opts req k)"
proof (cases "converging c")
  case True
  then have "rq_action req = ActionConverge" using f by (simp add: converging_def fits_def)
  then show ?thesis unfolding run_turn_def using keeps_converge [OF f True k] True by simp
next
  case False
  then have act: "(rq_action req = ActionConverge) = False"
    using f by (simp add: converging_def fits_def)
  have svc: "rq_service req = rq_service (ct_req c)" using f by (simp add: fits_def)
  have "keeps c (Turn, prev) (fail opts req d k)" for d
    using keeps_fail [OF f] k by simp
  then show ?thesis
    unfolding run_turn_def act if_False False keeps_locks safe_RepoManifest
    using False keeps_already_pinned [OF f False same prev k] keeps_propose [OF f False same k]
    by (auto simp: svc same keeps_locks split: sum.split)
qed

lemma run_keeps: "keeps (contract_of opts req) (Waiting, rq_originalRaw req) (run opts req)"
proof -
  define c where "c = contract_of opts req"
  have f: "fits c opts req" and req: "ct_req c = req"
    by (simp_all add: fits_def c_def contract_of_def)
  have same: "rq_newDigest req = rq_newDigest (ct_req c)" by (simp add: req)
  have live: "Waiting \<noteq> Finished" by simp
  define prev where "prev = rq_originalRaw req"
  have failed: "keeps c (Waiting, prev) (fail opts req d Stop)" for d
    using keeps_fail [OF f] by (simp add: safe_Stop)
  have "keeps c (Finished, p) (UCall (UnlockService (rq_service req)) Stop)" for p
    by (simp add: safe_rules)
  note turn = keeps_run_turn [OF f same prev_def [symmetric] this]
  show ?thesis
    unfolding c_def [symmetric] prev_def [symmetric] run_def keeps_emit [OF f live not_terminal(1)]
      safe_SCall
    using failed turn
    by (auto simp: keeps_emit [OF f live not_terminal(1)] lock_def keeps_locks safe_ECall req
        split: sum.split option.split intro!: prot.safe_syncFailure simp del: StateDetected_def)
qed

text \<open>
  C1. The engine refines its contract. Against every repository, forge, host, journal, clock and
  scheduler, and whatever fails when, each run of a deploy, a rollback or a converge does only what
  the protocol allows: it opens a pull request only with the file read at the front of the queue
  and its one digest replaced, merges only what passed its checks last, installs only the
  admissible unit of the manifest main holds once it is known to pin the requested digest, restores
  only the previous manifest and only after that failed, reverts main only after the restored unit
  passed its probe, and ends with exactly the receipt the course of events earned.
\<close>

theorem run_keeps_protocol:
  "safe (protocol (contract_of opts req)) (\<lambda>s. fst s = Finished)
     (Waiting, rq_originalRaw req) (run opts req)"
  by (rule run_keeps)

end
