(* ===== verification/Sample_Runs.thy ===== *)
theory Sample_Runs
  imports Protocol
begin

text \<open>
  A concrete environment and the evaluation rules to run the engine against it, for the examples
  at which the theorems on runs are applied. A program is unfolded only where it is executed.
\<close>

section \<open>Executing a program step by step\<close>

abbreviation run_log :: "'w handler \<Rightarrow> options \<Rightarrow> run_request \<Rightarrow> 'w \<Rightarrow> obs list" where
  "run_log h opts req w \<equiv> fst (exec h (run opts req) w)"

lemma exec_log:
  "fst (exec h Stop w) = []"
  "fst (exec h (UCall c p) w) = OU c # fst (exec h p (h_u h c w))"
  "fst (exec h (ECall e k) w) =
     OE e (fst (h_e h e w)) # fst (exec h (k (fst (h_e h e w))) (snd (h_e h e w)))"
  "fst (exec h (SCall d l) w) =
     OS d (fst (h_s h d w)) # fst (exec h (l (fst (h_s h d w))) (snd (h_s h d w)))"
  "fst (exec h (RepoManifest s km) w) =
     OManifest s (fst (h_manifest h s w))
       # fst (exec h (km (fst (h_manifest h s w))) (snd (h_manifest h s w)))"
  "fst (exec h (RepoSyncState ks) w) =
     OSyncState (fst (h_sync_state h w))
       # fst (exec h (ks (fst (h_sync_state h w))) (snd (h_sync_state h w)))"
  "fst (exec h (OpenManifestPR s x ti b ko) w) =
     OOpenPR s x ti b (fst (h_open_pr h s x ti b w))
       # fst (exec h (ko (fst (h_open_pr h s x ti b w))) (snd (h_open_pr h s x ti b w)))"
  "fst (exec h (WaitChecks n t kw) w) =
     OWaitChecks n t (fst (h_wait_checks h n t w))
       # fst (exec h (kw (fst (h_wait_checks h n t w))) (snd (h_wait_checks h n t w)))"
  "fst (exec h (Pause t kp) w) =
     OPause t (fst (h_pause h t w)) # fst (exec h (kp (fst (h_pause h t w))) (snd (h_pause h t w)))"
  "fst (exec h (Now kn) w) = ONow (fst (h_now h w)) # fst (exec h (kn (fst (h_now h w))) (snd (h_now h w)))"
  by (simp_all add: split_beta Let_def)

text \<open>Both sides of a definition are executed alike.\<close>

lemma exec_cong: "p = q \<Longrightarrow> fst (exec h p w) = fst (exec h q w)"
  by simp

lemmas exec_defs =
  exec_cong [OF run_def]
  exec_cong [OF emit_def]
  exec_cong [OF finish_def]
  exec_cong [OF fail_def]
  exec_cong [OF notify_def]
  exec_cong [OF lock_def]
  exec_cong [OF lockMergeQueue_def]
  exec_cong [OF run_turn_def]
  exec_cong [OF converge_def]
  exec_cong [OF converge_pin_def]
  exec_cong [OF applyManifest_def]
  exec_cong [OF phase_events_def]
  exec_cong [OF already_pinned_def]
  exec_cong [OF applyMerged_def]
  exec_cong [OF syncFailure_def]
  exec_cong [OF rollback_def]
  exec_cong [OF restorePrevious_def]
  exec_cong [OF revertMain_def]
  exec_cong [OF revertOnce_def]
  exec_cong [OF mergeThroughChecks_def]
  exec_cong [OF propose_def]
  exec_cong [OF follow_proposal_def]
  exec_cong [OF land_def]
  exec_cong [OF merge_loop.simps(2)]
  exec_cong [OF revert_loop.simps(2)]

section \<open>A sample environment\<close>

definition sample_options :: options where
  "sample_options =
     \<lparr>opt_ext = \<lparr>x_yaml = (\<lambda>_. Inr sample_manifest), x_url = sample_url, x_tmpl_parse = (\<lambda>_. None),
                x_tmpl_exec = (\<lambda>t m. Inr (t @ Ref (m_Image m)))\<rparr>,
      opt_Applier = \<lparr>ap_Lim = sample_limits, ap_ProbeInterval = 0\<rparr>,
      opt_Notify = True, opt_CheckPoll = 1, opt_RevertAttempts = 3, opt_RevertBackoff = 1,
      opt_MergeBackoff = 1, opt_RepoWebURL = []\<rparr>"

definition sample_request :: "string \<Rightarrow> run_request" where
  "sample_request action =
     \<lparr>rq_id = 7, rq_action = action, rq_service = ''web'', rq_oldDigest = sample_digest (CHR ''b''),
      rq_newDigest = sample_digest (CHR ''a''), rq_originalRaw = ''old'', rq_newContent = ''new'',
      rq_prNumber = 0, rq_prURL = [], rq_mergeURL = [], rq_detailPrefix = []\<rparr>"

text \<open>The world is the number of fetches that still succeed.\<close>

definition sample_handler :: "nat handler" where
  "sample_handler =
     \<lparr>h_u = (\<lambda>_ w. w), h_e = (\<lambda>_ w. (None, w)),
      h_s = (\<lambda>c w. case c of
          RepoSync \<Rightarrow> (if w = 0 then Inl (errorf ''down'') else Inr ''head'', w - 1)
        | RepoTemplate _ \<Rightarrow> (Inr ''Image='', w)
        | RunningImage _ \<Rightarrow> (Inr ''another'', w)
        | PRMerge _ \<Rightarrow> (Inr ''c0ffee'', w)),
      h_manifest = (\<lambda>_ w. (Inr (sample_manifest, ''old''), w)),
      h_sync_state = (\<lambda>w. ((True, None), w)),
      h_open_pr = (\<lambda>_ _ _ _ w. (Inr 1, w)),
      h_wait_checks = (\<lambda>_ _ w. (Inr (True, ''ok''), w)),
      h_pause = (\<lambda>_ w. (False, w)), h_now = (\<lambda>w. (0, w))\<rparr>"

lemma sample_admissible:
  assumes "m = sample_manifest \<or> m = applyDefaults sample_manifest"
  shows "admissible_unit (opt_ext sample_options) (opt_Applier sample_options) m ''Image=''
     (''Image='' @ Ref (m_Image sample_manifest))"
proof -
  have "ValidateRendered (''Image='' @ Ref (m_Image sample_manifest)) = None" by code_simp
  moreover have "Validate sample_url sample_limits (applyDefaults sample_manifest) = None" by code_simp
  moreover have "m_Image m = m_Image sample_manifest"
    using assms by (auto simp: applyDefaults_def)
  ultimately show ?thesis
    using assms sample_validates by (auto simp: admissible_unit_def sample_options_def Render_def)
qed

lemmas sample_exec = exec_defs exec_log exec_cong [OF Apply_admissible [OF sample_admissible]] Let_def

lemma sample_request_sel:
  "rq_action (sample_request a) = a" "rq_service (sample_request a) = ''web''"
  "rq_id (sample_request a) = 7" "rq_newDigest (sample_request a) = digest_of sample_manifest"
  "rq_originalRaw (clear_trail (sample_request a)) = ''old''"
  "rq_id (clear_trail r) = rq_id r" "rq_service (clear_trail r) = rq_service r"
  by (simp_all add: sample_request_def sample_manifest_def clear_trail_def)

lemma sample_handler_sel:
  "h_u sample_handler c w = w" "h_e sample_handler e w = (None, w)"
  "h_s sample_handler RepoSync w = (if w = 0 then Inl (errorf ''down'') else Inr ''head'', w - 1)"
  "h_s sample_handler (RepoTemplate t) w = (Inr ''Image='', w)"
  "h_s sample_handler (RunningImage s) w = (Inr ''another'', w)"
  "h_s sample_handler (PRMerge n) w = (Inr ''c0ffee'', w)"
  "h_manifest sample_handler s w = (Inr (sample_manifest, ''old''), w)"
  "h_sync_state sample_handler w = ((True, None), w)"
  "h_open_pr sample_handler s x t b w = (Inr 1, w)"
  "h_wait_checks sample_handler n d w = (Inr (True, ''ok''), w)"
  "h_now sample_handler w = (0, w)"
  by (simp_all add: sample_handler_def)

lemma sample_options_sel:
  "opt_Notify sample_options" "nat (opt_RevertAttempts sample_options) = Suc (Suc (Suc 0))"
  "mergeAttempts = Suc (Suc (Suc 0))" "x_yaml (opt_ext sample_options) raw = Inr sample_manifest"
  "Parse (x_yaml (opt_ext sample_options)) raw = Inr (applyDefaults sample_manifest)"
  "''another'' \<noteq> digest_of sample_manifest" "ActionDeploy \<noteq> ActionConverge"
  "StateRolledBack \<noteq> StateFailed"
  by (simp_all add: sample_options_def mergeAttempts_def Parse_def sample_manifest_def sample_digest_def)

lemmas sample_sel = sample_request_sel sample_handler_sel sample_options_sel

text \<open>A converge that succeeds, and a deploy whose apply fails and which is rolled back.\<close>

definition sample_unit :: string where
  "sample_unit = ''Image='' @ Ref (m_Image sample_manifest)"

definition sample_converge :: "obs list" where
  "sample_converge = run_log sample_handler sample_options (sample_request ActionConverge) 2"

definition sample_rollback :: "obs list" where
  "sample_rollback = run_log sample_handler sample_options (sample_request ActionDeploy) 1"

lemma sample_converge_log:
  "OE (WriteUnit (UnitName (m_Name sample_manifest)) sample_unit) None \<in> set sample_converge"
  "\<exists>d r. OE (JFinish 7 StateHealthy d) r \<in> set sample_converge"
  unfolding sample_converge_def sample_unit_def
  by (simp_all add: sample_exec sample_sel
      del: append.simps exec.simps PhaseProbing_def PhaseRestarting_def ActionConverge_def
        StateDetected_def StateReconciling_def StateProbing_def)

lemma sample_rollback_log:
  "\<exists>n r. OS (PRMerge n) r \<in> set sample_rollback"
  "\<exists>d r. OE (JFinish 7 StateRolledBack d) r \<in> set sample_rollback"
  unfolding sample_rollback_def
  by (simp_all add: sample_exec sample_sel
      del: append.simps exec.simps PhaseProbing_def PhaseRestarting_def ActionConverge_def merge_loop.simps
        revert_loop.simps StateDetected_def StateReconciling_def StateProbing_def StateRolledBack_def ActionDeploy_def StateFailed_def)

end
