(* ===== verification/Outcomes.thy ===== *)
theory Outcomes
  imports Sample_Runs
begin

text \<open>
  What the protocol means for the log of one run: the consequences a reader of the journal, of
  the configuration repository or of the host relies on. Each is read off the automaton, by an
  invariant on how it reached its stage. The log of a run is what \<open>exec\<close> records against any
  handler, so the statements hold for every environment and every run ends.
\<close>

section \<open>How the automaton got where it is\<close>

primrec drive :: "'s monitor \<Rightarrow> 's \<Rightarrow> obs list \<Rightarrow> 's option" where
  "drive mon s [] = Some s"
| "drive mon s (x # t) = (case mon s x of None \<Rightarrow> None | Some s' \<Rightarrow> drive mon s' t)"

lemma accepts_drive: "accepts mon fin s t \<longleftrightarrow> (\<exists>s'. drive mon s t = Some s' \<and> fin s')"
  by (induction t arbitrary: s) (auto split: option.splits)

lemma drive_append:
  "drive mon s (t @ u) = (case drive mon s t of None \<Rightarrow> None | Some s' \<Rightarrow> drive mon s' u)"
  by (induction t arbitrary: s) (auto split: option.splits)

lemma drive_induct [consumes 1, case_names start step]:
  assumes "drive mon s t = Some s'"
    and "P [] s"
    and "\<And>t x s1 s2. drive mon s t = Some s1 \<Longrightarrow> P t s1 \<Longrightarrow> mon s1 x = Some s2 \<Longrightarrow> P (t @ [x]) s2"
  shows "P t s'"
  using assms(1)
proof (induction t arbitrary: s' rule: rev_induct)
  case Nil
  then show ?case using assms(2) by simp
next
  case (snoc x t)
  then show ?case using assms(3) by (auto simp: drive_append split: option.splits)
qed

definition at_stage :: "options \<Rightarrow> run_request \<Rightarrow> obs list \<Rightarrow> stage \<Rightarrow> string \<Rightarrow> bool" where
  "at_stage opts req t \<sigma> prev \<longleftrightarrow>
     drive (protocol (contract_of opts req)) (Waiting, rq_originalRaw req) t = Some (\<sigma>, prev)"

lemma run_log_finished: "\<exists>prev. at_stage opts req (run_log h opts req w) Finished prev"
  using safe_accepts [OF run_keeps exec_trace, of opts req h w]
  unfolding accepts_drive at_stage_def by (metis prod.collapse)

lemma at_stage_split:
  assumes "at_stage opts req (a @ x # b) \<sigma> prev"
  shows "\<exists>\<sigma>1 p1 \<sigma>2 p2. at_stage opts req a \<sigma>1 p1 \<and>
    protocol (contract_of opts req) (\<sigma>1, p1) x = Some (\<sigma>2, p2) \<and> at_stage opts req (a @ [x]) \<sigma>2 p2"
  using assms by (auto simp: at_stage_def drive_append split: option.splits)

lemma run_log_split:
  assumes "run_log h opts req w = a @ x # b"
  shows "\<exists>\<sigma>1 p1 \<sigma>2 p2. at_stage opts req a \<sigma>1 p1 \<and>
    protocol (contract_of opts req) (\<sigma>1, p1) x = Some (\<sigma>2, p2)"
  using run_log_finished [of opts req h w] at_stage_split unfolding assms by blast

section \<open>What each stage is evidence of\<close>

definition merged_in :: "obs list \<Rightarrow> bool" where
  "merged_in t \<longleftrightarrow> (\<exists>n sha. OS (PRMerge n) (Inr sha) \<in> set t)"

text \<open>Main was read and pins the requested digest.\<close>

definition main_pins :: "run_request \<Rightarrow> obs list \<Rightarrow> bool" where
  "main_pins req t \<longleftrightarrow>
     (\<exists>m raw. OManifest (rq_service req) (Inr (m, raw)) \<in> set t \<and> digest_of m = rq_newDigest req)"

definition settled :: "run_request \<Rightarrow> obs list \<Rightarrow> bool" where
  "settled req t \<longleftrightarrow> rq_action req = ActionConverge \<or> merged_in t \<or> main_pins req t"

text \<open>The repository served this manifest, with the pin the run is after, and this template for it.\<close>

definition served :: "run_request \<Rightarrow> obs list \<Rightarrow> manifest \<Rightarrow> bool" where
  "served req t m \<longleftrightarrow>
     (\<exists>raw. OManifest (rq_service req) (Inr (m, raw)) \<in> set t) \<and>
     (rq_action req = ActionConverge \<or> digest_of m = rq_newDigest req)"

definition served_template :: "obs list \<Rightarrow> manifest \<Rightarrow> string \<Rightarrow> bool" where
  "served_template t m tmpl \<longleftrightarrow> OS (RepoTemplate (m_Template m)) (Inr tmpl) \<in> set t"

text \<open>The manifest's admissible unit was written, the service restarted, its probe passed.\<close>

definition unit_written :: "options \<Rightarrow> obs list \<Rightarrow> manifest \<Rightarrow> bool" where
  "unit_written opts t m \<longleftrightarrow>
     (\<exists>tmpl u. served_template t m tmpl \<and> admissible_unit (opt_ext opts) (opt_Applier opts) m tmpl u \<and>
        OE (WriteUnit (UnitName (m_Name m)) u) None \<in> set t)"

definition restarted_in :: "obs list \<Rightarrow> manifest \<Rightarrow> bool" where
  "restarted_in t m \<longleftrightarrow> OE (ReloadAndRestart (m_Name m)) None \<in> set t"

definition probed_in :: "options \<Rightarrow> obs list \<Rightarrow> manifest \<Rightarrow> bool" where
  "probed_in opts t m \<longleftrightarrow>
     OE (ProbeHealth (h_URL (m_Health m)) (h_Timeout (m_Health m))
           (ap_ProbeInterval (opt_Applier opts))) None \<in> set t"

definition brought_up :: "options \<Rightarrow> obs list \<Rightarrow> manifest \<Rightarrow> bool" where
  "brought_up opts t m \<longleftrightarrow> unit_written opts t m \<and> restarted_in t m \<and> probed_in opts t m"

definition restores :: "options \<Rightarrow> run_request \<Rightarrow> string \<Rightarrow> manifest \<Rightarrow> bool" where
  "restores opts req prev m \<longleftrightarrow>
     rq_action req \<noteq> ActionConverge \<and> Parse (x_yaml (opt_ext opts)) prev = Inr m"

fun evidence :: "options \<Rightarrow> run_request \<Rightarrow> obs list \<Rightarrow> stage \<Rightarrow> string \<Rightarrow> bool" where
  "evidence opts req t Cleared prev = settled req t"
| "evidence opts req t At_Host prev =
     (settled req t \<and> OS (RunningImage (rq_service req)) (Inr (rq_newDigest req)) \<in> set t)"
| "evidence opts req t Synced prev = settled req t"
| "evidence opts req t (Target m) prev = (settled req t \<and> served req t m)"
| "evidence opts req t (Rendering m tmpl) prev =
     (settled req t \<and> served req t m \<and> served_template t m tmpl)"
| "evidence opts req t (Installed m) prev = (settled req t \<and> served req t m \<and> unit_written opts t m)"
| "evidence opts req t (Restarted m) prev =
     (settled req t \<and> served req t m \<and> unit_written opts t m \<and> restarted_in t m)"
| "evidence opts req t Healthy_New prev =
     (settled req t \<and> (\<exists>m. served req t m \<and> brought_up opts t m))"
| "evidence opts req t Lost prev = settled req t"
| "evidence opts req t (Old_Rendering m tmpl) prev =
     (settled req t \<and> restores opts req prev m \<and> served_template t m tmpl)"
| "evidence opts req t (Old_Installed m) prev =
     (settled req t \<and> restores opts req prev m \<and> unit_written opts t m)"
| "evidence opts req t (Old_Restarted m) prev =
     (settled req t \<and> restores opts req prev m \<and> unit_written opts t m \<and> restarted_in t m)"
| "evidence opts req t Healthy_Old prev =
     (settled req t \<and> (\<exists>m. restores opts req prev m \<and> brought_up opts t m))"
| "evidence opts req t (Reverting n) prev =
     (settled req t \<and> (\<exists>m. restores opts req prev m \<and> brought_up opts t m))"
| "evidence opts req t (Revert_Green n) prev =
     (settled req t \<and> (\<exists>m. restores opts req prev m \<and> brought_up opts t m))"
| "evidence opts req t Reverted prev =
     (settled req t \<and> (\<exists>m. restores opts req prev m \<and> brought_up opts t m))"
| "evidence opts req t _ prev = True"

lemmas evidence_defs = merged_in_def main_pins_def settled_def served_def served_template_def
  unit_written_def restarted_in_def probed_in_def brought_up_def restores_def

lemma evidence_mono: "evidence opts req t \<sigma> prev \<Longrightarrow> evidence opts req (t @ [x]) \<sigma> prev"
proof -
  have m: "settled req t \<Longrightarrow> settled req (t @ [x])" "served req t m \<Longrightarrow> served req (t @ [x]) m"
    "served_template t m tmpl \<Longrightarrow> served_template (t @ [x]) m tmpl"
    "unit_written opts t m \<Longrightarrow> unit_written opts (t @ [x]) m"
    "restarted_in t m \<Longrightarrow> restarted_in (t @ [x]) m"
    "brought_up opts t m \<Longrightarrow> brought_up opts (t @ [x]) m" for m tmpl
    by (auto simp: evidence_defs)
  assume "evidence opts req t \<sigma> prev"
  then show ?thesis by (cases \<sigma>) (auto intro: m)
qed

text \<open>What one more observation adds.\<close>

lemma learnt:
  "settled req (t @ [OS (PRMerge n) (Inr sha)])"
  "rq_action req = ActionConverge \<Longrightarrow> settled req t'"
  "digest_of m = rq_newDigest req \<Longrightarrow>
     settled req (t @ [OManifest (rq_service req) (Inr (m, raw))])"
  "rq_action req = ActionConverge \<or> digest_of m = rq_newDigest req \<Longrightarrow>
     served req (t @ [OManifest (rq_service req) (Inr (m, raw))]) m"
  "served_template (t @ [OS (RepoTemplate (m_Template m)) (Inr tmpl)]) m tmpl"
  "served_template t m tmpl \<Longrightarrow>
   admissible_unit (opt_ext opts) (opt_Applier opts) m tmpl u \<Longrightarrow>
     unit_written opts (t @ [OE (WriteUnit (UnitName (m_Name m)) u) None]) m"
  "restarted_in (t @ [OE (ReloadAndRestart (m_Name m)) None]) m"
  "probed_in opts (t @ [OE (ProbeHealth (h_URL (m_Health m)) (h_Timeout (m_Health m))
     (ap_ProbeInterval (opt_Applier opts))) None]) m"
  by (auto simp: evidence_defs)

lemma contract_of_sel [simp]:
  "ct_ext (contract_of opts req) = opt_ext opts"
  "ct_Applier (contract_of opts req) = opt_Applier opts"
  "ct_req (contract_of opts req) = req"
  by (simp_all add: contract_of_def)

lemma evidence_step:
  assumes "evidence opts req t \<sigma> prev"
    and "protocol (contract_of opts req) (\<sigma>, prev) x = Some (\<sigma>', prev')"
  shows "evidence opts req (t @ [x]) \<sigma>' prev'"
proof (cases "\<sigma>' = \<sigma> \<and> prev' = prev")
  case True
  then show ?thesis using evidence_mono [OF assms(1)] by simp
next
  case False
  then show ?thesis
    using assms(2) assms(1) evidence_mono [OF assms(1), of x]
    by (cases "(contract_of opts req, (\<sigma>, prev), x)" rule: protocol.cases;
      auto simp: Let_def converging_def writes_unit_def probes_def for_row_def learnt
          restores_def brought_up_def
        split: if_splits stage.splits sum.splits; blast intro: learnt)
qed

lemma at_stage_evidence:
  "at_stage opts req t \<sigma> prev \<Longrightarrow> evidence opts req t \<sigma> prev"
proof -
  assume "at_stage opts req t \<sigma> prev"
  then have "(\<lambda>t s. evidence opts req t (fst s) (snd s)) t (\<sigma>, prev)"
    unfolding at_stage_def
  proof (induction rule: drive_induct)
    case (step t x s1 s2)
    then show ?case using evidence_step [of opts req t "fst s1" "snd s1" x "fst s2" "snd s2"] by simp
  qed simp
  then show ?thesis by simp
qed

section \<open>One receipt\<close>

definition journal_write :: "obs \<Rightarrow> int option" where
  "journal_write x =
     (case x of
        OE (JProgress i _ _) _ \<Rightarrow> Some i | OE (JFinish i _ _) _ \<Rightarrow> Some i
      | OE (JSetPR i _) _ \<Rightarrow> Some i | OE (JSetDigests i _ _) _ \<Rightarrow> Some i
      | OE (JSetMergeSHA i _) _ \<Rightarrow> Some i | _ \<Rightarrow> None)"

definition is_receipt :: "obs \<Rightarrow> bool" where
  "is_receipt x \<longleftrightarrow> (case x of OE (JFinish _ _ _) _ \<Rightarrow> True | _ \<Rightarrow> False)"

definition journal_writes :: "obs list \<Rightarrow> obs list" where
  "journal_writes t = filter (\<lambda>x. journal_write x \<noteq> None) t"

text \<open>Until the receipt there is none; after it the journal is not written again.\<close>

definition receipt_state :: "run_request \<Rightarrow> obs list \<Rightarrow> stage \<Rightarrow> bool" where
  "receipt_state req t \<sigma> \<longleftrightarrow>
     (\<forall>x \<in> set (journal_writes t). journal_write x = Some (rq_id req)) \<and>
     (if \<sigma> = Finished
      then \<exists>st d r. isTerminal st \<and> filter is_receipt t = [OE (JFinish (rq_id req) st d) r] \<and>
             journal_writes t \<noteq> [] \<and> last (journal_writes t) = OE (JFinish (rq_id req) st d) r
      else filter is_receipt t = [])"

lemma earned_terminal: "isTerminal (earned \<sigma>)"
  by (cases \<sigma>) (simp_all add: isTerminal_def)

lemma receipt_step:
  assumes "receipt_state req t \<sigma>"
    and "protocol (contract_of opts req) (\<sigma>, prev) x = Some (\<sigma>', prev')"
  shows "receipt_state req (t @ [x]) \<sigma>'"
proof -
  consider "journal_write x = None" "is_receipt x = False" "\<sigma>' = Finished \<longleftrightarrow> \<sigma> = Finished"
    | "journal_write x = Some (rq_id req)" "is_receipt x = False" "\<sigma> \<noteq> Finished" "\<sigma>' \<noteq> Finished"
    | d r where "x = OE (JFinish (rq_id req) (earned \<sigma>) d) r" "\<sigma> \<noteq> Finished" "\<sigma>' = Finished"
    using assms(2)
    by (cases "(contract_of opts req, (\<sigma>, prev), x)" rule: protocol.cases;
      auto simp: Let_def for_row_def journal_write_def is_receipt_def
        split: if_splits stage.splits sum.splits)
  then show ?thesis
    using assms(1) earned_terminal
    by cases (auto simp: receipt_state_def journal_writes_def journal_write_def is_receipt_def)
qed

lemma at_stage_receipt: "at_stage opts req t \<sigma> prev \<Longrightarrow> receipt_state req t \<sigma>"
proof -
  assume "at_stage opts req t \<sigma> prev"
  then have "(\<lambda>t s. receipt_state req t (fst s)) t (\<sigma>, prev)"
    unfolding at_stage_def
  proof (induction rule: drive_induct)
    case (step t x s1 s2)
    then show ?case using receipt_step [of req t "fst s1" opts "snd s1" x "fst s2" "snd s2"] by simp
  qed (simp add: receipt_state_def journal_writes_def)
  then show ?thesis by simp
qed

text \<open>
  C2. One receipt per run. Every run ends; its log holds exactly one \<open>Finish\<close>, with a terminal
  state, it is the last thing the run writes to the journal, and no other row is ever written.
\<close>

theorem one_receipt:
  "\<exists>st d r. isTerminal st \<and>
     filter is_receipt (run_log h opts req w) = [OE (JFinish (rq_id req) st d) r] \<and>
     last (journal_writes (run_log h opts req w)) = OE (JFinish (rq_id req) st d) r \<and>
     journal_write ` set (journal_writes (run_log h opts req w)) = {Some (rq_id req)}"
proof -
  define L where "L = run_log h opts req w"
  obtain prev where "at_stage opts req L Finished prev"
    using run_log_finished [of opts req h w] unfolding L_def by blast
  then have "receipt_state req L Finished" by (rule at_stage_receipt)
  then obtain st d r where *: "isTerminal st"
      "filter is_receipt L = [OE (JFinish (rq_id req) st d) r]"
      "journal_writes L \<noteq> []" "last (journal_writes L) = OE (JFinish (rq_id req) st d) r"
      "\<forall>x \<in> set (journal_writes L). journal_write x = Some (rq_id req)"
    unfolding receipt_state_def by (simp only: if_True simp_thms) (elim conjE exE)
  have "journal_write ` set (journal_writes L) = (\<lambda>_. Some (rq_id req)) ` set (journal_writes L)"
    using *(5) by (intro image_cong) auto
  also have "\<dots> = {Some (rq_id req)}" using *(3) by (simp add: image_constant_conv)
  finally show ?thesis using *(1,2,4) unfolding L_def by (intro exI conjI)
qed

section \<open>What a receipt is evidence of\<close>

lemma receipt_earned:
  assumes "run_log h opts req w = a @ OE (JFinish i st d) r # b"
  shows "\<exists>\<sigma> prev. evidence opts req a \<sigma> prev \<and> st = earned \<sigma> \<and> at_stage opts req a \<sigma> prev"
  using run_log_split [OF assms] at_stage_evidence [of opts req a] by (auto split: if_splits)

text \<open>
  C5. A healthy receipt is earned. When a run is journalled healthy, then before it either the host
  was seen to run exactly the requested digest, or a manifest the repository served (with the
  requested pin, when the run deploys one) had its admissible unit written, its service restarted
  and its health probe passed; and unless the run is a converge, by then the change was merged or
  main was read to pin the digest already.
\<close>

theorem healthy_receipt_earned:
  assumes "run_log h opts req w = before @ OE (JFinish i StateHealthy d) r # later"
  shows "settled req before \<and>
    (OS (RunningImage (rq_service req)) (Inr (rq_newDigest req)) \<in> set before \<or>
     (\<exists>m. served req before m \<and> brought_up opts before m))"
proof -
  obtain \<sigma> prev where "evidence opts req before \<sigma> prev" "StateHealthy = earned \<sigma>"
    using receipt_earned [OF assms] by blast
  then show ?thesis by (cases \<sigma>) auto
qed

lemma healthy_receipt_earned_witness:
  "\<exists>before d r later. sample_converge = before @ OE (JFinish 7 StateHealthy d) r # later \<and>
     settled (sample_request ActionConverge) before \<and>
     (OS (RunningImage ''web'') (Inr (digest_of sample_manifest)) \<in> set before \<or>
      (\<exists>m. served (sample_request ActionConverge) before m \<and> brought_up sample_options before m))"
proof -
  obtain d r before later where l: "sample_converge = before @ OE (JFinish 7 StateHealthy d) r # later"
    using sample_converge_log(2) split_list by metis
  show ?thesis
    using healthy_receipt_earned [OF l [unfolded sample_converge_def], unfolded sample_request_sel] l
    by blast
qed



section \<open>Merge first\<close>

definition written_from :: "options \<Rightarrow> obs list \<Rightarrow> manifest \<Rightarrow> string \<Rightarrow> string \<Rightarrow> bool" where
  "written_from opts t m name u \<longleftrightarrow>
     name = UnitName (m_Name m) \<and>
     (\<exists>tmpl. served_template t m tmpl \<and> admissible_unit (opt_ext opts) (opt_Applier opts) m tmpl u)"

text \<open>
  C7. Merge first. Nothing reaches the unit directory before the change is on main: a unit is
  written only after a merge of this run, or after main was read to pin the digest already (a
  converge proposes nothing). What is written is the admissible unit, rendered with the template
  the repository served, of a manifest the repository served with the requested pin, or of the
  manifest main held before the change.
\<close>

theorem writes_follow_merge:
  assumes "run_log h opts req w = before @ OE (WriteUnit name u) r # later"
  shows "settled req before \<and>
    (\<exists>m. written_from opts before m name u \<and>
       (served req before m \<or> (\<exists>prev. restores opts req prev m)))"
proof -
  obtain \<sigma> p \<sigma>' p' where "at_stage opts req before \<sigma> p"
      and step: "protocol (contract_of opts req) (\<sigma>, p) (OE (WriteUnit name u) r) = Some (\<sigma>', p')"
    using run_log_split [OF assms] by blast
  then have "evidence opts req before \<sigma> p" by (intro at_stage_evidence)
  with step show ?thesis
    by (cases \<sigma>) (auto simp: writes_unit_def written_from_def split: if_splits)
qed

lemma writes_follow_merge_witness:
  "\<exists>before later m. sample_converge =
       before @ OE (WriteUnit (UnitName (m_Name sample_manifest)) sample_unit) None # later \<and>
     written_from sample_options before m (UnitName (m_Name sample_manifest)) sample_unit"
proof -
  obtain before later where l: "sample_converge =
      before @ OE (WriteUnit (UnitName (m_Name sample_manifest)) sample_unit) None # later"
    using sample_converge_log(1) split_list by metis
  from writes_follow_merge [OF l [unfolded sample_converge_def]] l show ?thesis by blast
qed

section \<open>Green before merge\<close>

definition pr_call :: "obs \<Rightarrow> bool" where
  "pr_call x \<longleftrightarrow>
     (case x of
        OOpenPR _ _ _ _ _ \<Rightarrow> True | OWaitChecks _ _ _ \<Rightarrow> True | OS (PRMerge _) _ \<Rightarrow> True
      | OE (PRUpdateBranch _) _ \<Rightarrow> True | OE (PRClose _ _) _ \<Rightarrow> True | _ \<Rightarrow> False)"

definition pr_calls :: "obs list \<Rightarrow> obs list" where
  "pr_calls t = filter pr_call t"

definition green_state :: "obs list \<Rightarrow> stage \<Rightarrow> bool" where
  "green_state t \<sigma> \<longleftrightarrow>
     (\<forall>n. \<sigma> = Green n \<or> \<sigma> = Revert_Green n \<longrightarrow>
        pr_calls t \<noteq> [] \<and> (\<exists>d det. last (pr_calls t) = OWaitChecks n d (Inr (True, det))))"

lemma green_step:
  assumes "green_state t \<sigma>"
    and "protocol (contract_of opts req) (\<sigma>, prev) x = Some (\<sigma>', prev')"
  shows "green_state (t @ [x]) \<sigma>'"
proof -
  consider "pr_call x = False" "\<sigma>' = \<sigma>"
    | "\<nexists>n. \<sigma>' = Green n \<or> \<sigma>' = Revert_Green n"
    | n d det where "x = OWaitChecks n d (Inr (True, det))" "\<sigma>' = Green n \<or> \<sigma>' = Revert_Green n"
    using assms(2)
    by (cases "(contract_of opts req, (\<sigma>, prev), x)" rule: protocol.cases;
      auto simp: Let_def for_row_def pr_call_def split: if_splits stage.splits sum.splits)
  then show ?thesis
    using assms(1) by cases (auto simp: green_state_def pr_calls_def pr_call_def)
qed

lemma at_stage_green: "at_stage opts req t \<sigma> prev \<Longrightarrow> green_state t \<sigma>"
proof -
  assume "at_stage opts req t \<sigma> prev"
  then have "(\<lambda>t s. green_state t (fst s)) t (\<sigma>, prev)"
    unfolding at_stage_def
  proof (induction rule: drive_induct)
    case (step t x s1 s2)
    then show ?case using green_step [of t "fst s1" opts req "snd s1" x "fst s2" "snd s2"] by simp
  qed (simp add: green_state_def)
  then show ?thesis by simp
qed

text \<open>
  C3. Green before merge. Every merge, of a proposal or of a revert, comes right after that pull
  request's checks passed: the last pull-request call before it is the wait for the checks of the
  same number, answered with success.
\<close>

theorem merge_needs_green:
  assumes "run_log h opts req w = before @ OS (PRMerge n) r # later"
  shows "\<exists>d detail. last (pr_calls before) = OWaitChecks n d (Inr (True, detail)) \<and>
    pr_calls before \<noteq> []"
proof -
  obtain \<sigma> p \<sigma>' p' where at: "at_stage opts req before \<sigma> p"
      and "protocol (contract_of opts req) (\<sigma>, p) (OS (PRMerge n) r) = Some (\<sigma>', p')"
    using run_log_split [OF assms] by blast
  then have "\<sigma> = Green n \<or> \<sigma> = Revert_Green n" by (auto split: if_splits)
  with at_stage_green [OF at] show ?thesis by (auto simp: green_state_def)
qed

lemma merge_needs_green_witness:
  "\<exists>before n r later d detail. sample_rollback = before @ OS (PRMerge n) r # later \<and>
     last (pr_calls before) = OWaitChecks n d (Inr (True, detail))"
proof -
  obtain n r before later where l: "sample_rollback = before @ OS (PRMerge n) r # later"
    using sample_rollback_log(1) split_list by metis
  from merge_needs_green [OF l [unfolded sample_rollback_def]] l show ?thesis by blast
qed

section \<open>The bytes of the click\<close>

text \<open>
  A run that finds the requested digest pinned already, at the front of the queue, and fails to apply it
  rolls back to the manifest of the click, not to the one main holds: here main holds \<open>newer\<close>, the click
  saw \<open>old\<close>, and the revert proposes \<open>old\<close>.
\<close>

definition moved_handler :: "nat handler" where
  "moved_handler = sample_handler\<lparr>h_manifest := (\<lambda>_ w. (Inr (sample_manifest, ''newer''), w))\<rparr>"

lemma moved_handler_sel:
  "h_u moved_handler c w = w" "h_e moved_handler e w = (None, w)"
  "h_s moved_handler d w = h_s sample_handler d w"
  "h_manifest moved_handler s w = (Inr (sample_manifest, ''newer''), w)"
  "h_sync_state moved_handler w = ((True, None), w)" "h_open_pr moved_handler s x t b w = (Inr 1, w)"
  "h_wait_checks moved_handler n i w = (Inr (True, ''ok''), w)" "h_now moved_handler w = (0, w)"
  by (simp_all add: moved_handler_def sample_handler_def)

definition reverted_bytes :: "obs list \<Rightarrow> string list" where
  "reverted_bytes t = List.map_filter (\<lambda>x. case x of OOpenPR _ c _ _ _ \<Rightarrow> Some c | _ \<Rightarrow> None) t"

lemma click_bytes:
  "rq_originalRaw (clear_trail r) = rq_originalRaw r" "rq_originalRaw (sample_request a) = ''old''"
  by (simp_all add: clear_trail_def sample_request_def)

lemma pinned_rollback_reverts_to_the_click:
  "reverted_bytes (run_log moved_handler sample_options (sample_request ActionDeploy) 1) = [''old'']"
  by (simp add: sample_exec sample_sel moved_handler_sel click_bytes reverted_bytes_def List.map_filter_simps
      del: append.simps exec.simps PhaseProbing_def PhaseRestarting_def ActionConverge_def merge_loop.simps
        revert_loop.simps StateDetected_def StateReconciling_def StateProbing_def StateRolledBack_def ActionDeploy_def
        StateFailed_def)

end
