(* ===== verification/Event_Stream.thy ===== *)
theory Event_Stream
  imports Outcomes
begin

text \<open>
  What a run tells the outside, against what it journals: the events of a run are its journal notes,
  one for one. The engine's methods are executed once, for every property of programs that survives
  the calls (\<open>run_predicate\<close>).
\<close>

section \<open>Properties every run inherits\<close>

definition same_run :: "run_request \<Rightarrow> run_request \<Rightarrow> bool" where
  "same_run r0 r \<longleftrightarrow> rq_id r = rq_id r0 \<and> rq_service r = rq_service r0 \<and> rq_action r = rq_action r0"

definition noted :: "ecall \<Rightarrow> bool" where
  "noted c \<longleftrightarrow> (\<exists>i st d. c = JProgress i st d \<or> c = JFinish i st d)"

lemma not_noted [simp]:
  "\<not> noted (WriteUnit n u)" "\<not> noted (ReloadAndRestart s)" "\<not> noted (ProbeHealth url t i)"
  "\<not> noted (JSetPR j p)" "\<not> noted (JSetDigests j a b)" "\<not> noted (JSetMergeSHA j s)"
  "\<not> noted (PRUpdateBranch p)" "\<not> noted (PRClose p s)" "\<not> noted (LockService s)" "\<not> noted CtxErr"
  by (simp_all add: noted_def)

lemma same_run_simps [simp]:
  "same_run r0 (r\<lparr>rq_oldDigest := a, rq_newDigest := b\<rparr>) = same_run r0 r"
  "same_run r0 (r\<lparr>rq_prNumber := n, rq_prURL := u\<rparr>) = same_run r0 r"
  "same_run r0 (r\<lparr>rq_mergeURL := m\<rparr>) = same_run r0 r"
  "same_run r0 (r\<lparr>rq_detailPrefix := p\<rparr>) = same_run r0 r"
  "same_run r0 (r\<lparr>rq_newContent := c, rq_originalRaw := w, rq_oldDigest := a\<rparr>) = same_run r0 r"
  "same_run r0 (clear_trail r) = same_run r0 r"
  "same_run r0 r0"
  by (simp_all add: same_run_def clear_trail_def)

locale run_predicate =
  fixes Q :: "prog \<Rightarrow> bool" and opts :: options and r0 :: run_request
  assumes q_stop: "Q Stop"
    and q_ucall: "\<forall>ev. c \<noteq> Notify ev \<Longrightarrow> Q p \<Longrightarrow> Q (UCall c p)"
    and q_ecall: "\<not> noted e \<Longrightarrow> (\<And>r. Q (k r)) \<Longrightarrow> Q (ECall e k)"
    and q_scall: "(\<And>r. Q (ks r)) \<Longrightarrow> Q (SCall s ks)"
    and q_manifest: "(\<And>r. Q (km r)) \<Longrightarrow> Q (RepoManifest v km)"
    and q_state: "(\<And>r. Q (kr r)) \<Longrightarrow> Q (RepoSyncState kr)"
    and q_open: "(\<And>r. Q (ko r)) \<Longrightarrow> Q (OpenManifestPR v c' t b ko)"
    and q_wait: "(\<And>r. Q (kw r)) \<Longrightarrow> Q (WaitChecks n d kw)"
    and q_pause: "(\<And>r. Q (kp r)) \<Longrightarrow> Q (Pause d' kp)"
    and q_emit: "same_run r0 r \<Longrightarrow> \<not> isTerminal st \<Longrightarrow> Q p \<Longrightarrow> Q (emit opts r st txt p)"
    and q_finish: "same_run r0 r \<Longrightarrow> isTerminal st \<Longrightarrow> Q p \<Longrightarrow> Q (finish opts r st txt p)"
begin

lemma terminal_states: "isTerminal StateHealthy" "isTerminal StateRolledBack" "isTerminal StateFailed"
  by (simp_all add: isTerminal_def)

lemma q_fail: "same_run r0 r \<Longrightarrow> Q p \<Longrightarrow> Q (fail opts r txt p)"
  unfolding fail_def by (rule q_finish) (simp_all add: terminal_states del: StateFailed_def)

lemma q_syncFailure: "(\<And>d. Q (kd d)) \<Longrightarrow> Q (syncFailure err kd)"
  unfolding syncFailure_def by (rule q_state) (simp add: split_beta)

lemma q_lockMergeQueue: "Q p \<Longrightarrow> Q (lockMergeQueue p)"
  unfolding lockMergeQueue_def by (intro q_ucall) simp_all

lemma q_lock: "(\<And>r. Q (k r)) \<Longrightarrow> Q (lock v k)"
  unfolding lock_def by (intro q_ucall q_ecall) simp_all

lemma q_merge_loop:
  assumes "same_run r0 r" "\<And>x. Q (kx x)"
  shows "Q (merge_loop opts r pr n lst kx)"
proof (induction n arbitrary: lst)
  case 0
  then show ?case by (simp add: assms)
next
  case (Suc n)
  show ?case
    unfolding merge_loop.simps
    by (intro q_emit [OF assms(1) not_terminal(3)] q_wait)
       (auto intro!: assms q_scall q_ecall q_pause Suc split: sum.split option.split)
qed

lemma q_merge: "same_run r0 r \<Longrightarrow> (\<And>x. Q (kx x)) \<Longrightarrow> Q (mergeThroughChecks opts r pr kx)"
  unfolding mergeThroughChecks_def by (rule q_merge_loop)

lemma q_phase: "same_run r0 r \<Longrightarrow> Q p \<Longrightarrow> Q (phase_events opts r m ph p)"
  unfolding phase_events_def using q_emit not_terminal(5,6) by (simp only: if_split) blast

lemma q_Apply:
  assumes "\<And>ph p. Q p \<Longrightarrow> Q (on_phase ph p)" "\<And>x. Q (kx x)"
  shows "Q (Apply ex a m tmpl on_phase kx)"
  unfolding Apply_def
  by (auto intro!: assms q_ecall split: option.split sum.split)

lemma q_applyManifest: "same_run r0 r \<Longrightarrow> (\<And>x. Q (kx x)) \<Longrightarrow> Q (applyManifest opts r m kx)"
  unfolding applyManifest_def by (auto intro!: q_scall q_Apply q_phase split: sum.split)

lemma q_applyMerged: "same_run r0 r \<Longrightarrow> (\<And>x. Q (kx x)) \<Longrightarrow> Q (applyMerged opts r kx)"
  unfolding applyMerged_def
  by (auto intro!: q_scall q_manifest q_syncFailure q_applyManifest split: sum.split)

lemma q_converge_pin: "same_run r0 r \<Longrightarrow> Q p \<Longrightarrow> Q (converge_pin opts r m p)"
  unfolding converge_pin_def Let_def
  by (intro q_emit [OF _ not_terminal(5)] q_applyManifest)
     (auto intro!: q_fail q_finish terminal_states split: option.split simp del: StateHealthy_def)

lemma q_converge: "same_run r0 r \<Longrightarrow> Q p \<Longrightarrow> Q (converge opts r p)"
  unfolding converge_def
  by (auto intro!: q_scall q_manifest q_syncFailure q_ecall q_fail q_converge_pin split: sum.split option.split)

lemma q_restorePrevious: "same_run r0 r \<Longrightarrow> (\<And>x. Q (kx x)) \<Longrightarrow> Q (restorePrevious opts r kx)"
  unfolding restorePrevious_def
  by (auto intro!: q_scall q_Apply q_emit not_terminal(6) split: sum.split simp del: StateProbing_def)

lemma q_revertOnce:
  assumes "same_run r0 r" "\<And>r' x. same_run r0 r' \<Longrightarrow> Q (kx (r', x))"
  shows "Q (revertOnce opts r kx)"
  unfolding revertOnce_def Let_def
  by (auto intro!: q_lockMergeQueue q_open q_ucall q_merge assms split: sum.split)

lemma q_revert_loop:
  assumes "\<And>r' x. same_run r0 r' \<Longrightarrow> Q (kx (r', x))"
  shows "same_run r0 r \<Longrightarrow> Q (revert_loop opts n r lst kx)"
proof (induction n arbitrary: r lst)
  case 0
  then show ?case by (simp add: assms)
next
  case (Suc n)
  then show ?case
    unfolding revert_loop.simps
    by (intro q_emit [OF _ not_terminal(5)] q_revertOnce)
       (auto intro!: assms q_ecall q_pause Suc.IH split: option.split)
qed

lemma q_rollback: "same_run r0 r \<Longrightarrow> Q p \<Longrightarrow> Q (rollback opts r cause p)"
  unfolding rollback_def revertMain_def
  by (intro q_emit [OF _ not_terminal(5)] q_restorePrevious)
     (auto intro!: q_finish q_revert_loop terminal_states split: option.split
       simp del: StateFailed_def StateRolledBack_def)

lemma q_already_pinned: "same_run r0 r \<Longrightarrow> Q p \<Longrightarrow> Q (already_pinned opts r p)"
  unfolding already_pinned_def
  by (auto intro!: q_scall q_ucall q_finish q_emit q_applyMerged q_rollback terminal_states not_terminal
      split: option.split simp del: StateHealthy_def StateReconciling_def)

lemma q_land: "same_run r0 r \<Longrightarrow> Q p \<Longrightarrow> Q (land opts r sha p)"
  unfolding land_def Let_def
  by (auto intro!: q_ecall q_fail q_finish q_emit q_applyMerged q_rollback terminal_states not_terminal
      split: option.split simp del: StateHealthy_def StateReconciling_def StateMerged_def)

lemma q_follow: "same_run r0 r \<Longrightarrow> Q p \<Longrightarrow> Q (follow_proposal opts r pr p)"
  unfolding follow_proposal_def Let_def
  by (auto intro!: q_ecall q_ucall q_fail q_emit q_merge q_land not_terminal
      split: option.split sum.split simp del: StatePROpen_def)

lemma q_propose: "same_run r0 r \<Longrightarrow> Q p \<Longrightarrow> Q (propose opts r m raw p)"
  unfolding propose_def Let_def
  by (auto intro!: q_open q_ucall q_fail q_follow split: sum.split)

lemma q_run_turn: "same_run r0 r \<Longrightarrow> Q p \<Longrightarrow> Q (run_turn opts r p)"
  unfolding run_turn_def
  by (auto intro!: q_converge q_lockMergeQueue q_manifest q_ucall q_fail q_already_pinned q_propose
      split: sum.split)

lemma q_run: "Q (run opts r0)"
  unfolding run_def
  by (auto intro!: q_emit q_scall q_syncFailure q_fail q_lock q_run_turn q_ucall q_stop not_terminal
      split: sum.split option.split simp del: StateDetected_def)

end

section \<open>Events are journal notes\<close>

definition note_of :: "obs \<Rightarrow> (int \<times> string \<times> string) option" where
  "note_of x =
     (case x of
        OE (JProgress i st d) _ \<Rightarrow> Some (i, st, d) | OE (JFinish i st d) _ \<Rightarrow> Some (i, st, d) | _ \<Rightarrow> None)"

definition event_in :: "obs \<Rightarrow> event option" where
  "event_in x = (case x of OU (Notify ev) \<Rightarrow> Some ev | _ \<Rightarrow> None)"

definition jnotes :: "obs list \<Rightarrow> (int \<times> string \<times> string) list" where
  "jnotes t = List.map_filter note_of t"

definition events :: "obs list \<Rightarrow> event list" where
  "events t = List.map_filter event_in t"

lemma notes_Cons: "jnotes (x # t) = (case note_of x of None \<Rightarrow> jnotes t | Some n \<Rightarrow> n # jnotes t)"
  by (simp add: jnotes_def split: option.split)

lemma events_Cons: "events (x # t) = (case event_in x of None \<Rightarrow> events t | Some e \<Rightarrow> e # events t)"
  by (simp add: events_def split: option.split)

lemma Nil_notes [simp]: "jnotes [] = []" "events [] = []"
  by (simp_all add: jnotes_def events_def)

text \<open>The event of a note, the time of it aside.\<close>

definition tells :: "run_request \<Rightarrow> event \<Rightarrow> int \<times> string \<times> string \<Rightarrow> bool" where
  "tells r ev n \<longleftrightarrow>
     ev_Service ev = rq_service r \<and> ev_Action ev = rq_action r \<and>
     n = (ev_JournalID ev, ev_State ev, ev_Detail ev)"

definition told :: "run_request \<Rightarrow> obs list \<Rightarrow> bool" where
  "told r t \<longleftrightarrow> list_all2 (tells r) (events t) (jnotes t)"

lemma told_other: "note_of x = None \<Longrightarrow> event_in x = None \<Longrightarrow> told r (x # t) = told r t"
  by (simp add: told_def notes_Cons events_Cons)

definition tells_all :: "run_request \<Rightarrow> prog \<Rightarrow> bool" where
  "tells_all r p \<longleftrightarrow> (\<forall>t. trace p t \<longrightarrow> told r t)"

lemma tells_all_step:
  assumes tr: "\<And>t. trace q t \<longleftrightarrow> (\<exists>a u. t = f a # u \<and> trace (k a) u)"
    and quiet: "\<And>a. note_of (f a) = None \<and> event_in (f a) = None"
    and k: "\<And>a. tells_all r (k a)"
  shows "tells_all r q"
  using k quiet unfolding tells_all_def tr by (auto simp: told_other)

lemma tells_all_note:
  assumes r: "same_run r0 r" and p: "tells_all r0 p" and on: "opt_Notify opts"
    and c: "\<And>x. note_of (OE c x) = Some (rq_id r, st, txt)"
  shows "tells_all r0 (ECall c (\<lambda>_. Now (\<lambda>now. notify opts (event_of r st txt now) p)))"
  using p r c on unfolding tells_all_def
  by (auto simp: trace_rules notify_def told_def notes_Cons events_Cons tells_def event_of_def note_of_def
      event_in_def same_run_def simp del: trace.simps split: ecall.splits)

lemma tells_all_emit:
  "same_run r0 r \<Longrightarrow> tells_all r0 p \<Longrightarrow> opt_Notify opts \<Longrightarrow> tells_all r0 (emit opts r st txt p)"
  unfolding emit_def by (rule tells_all_note) (simp_all add: note_of_def)

lemma tells_all_finish:
  "same_run r0 r \<Longrightarrow> tells_all r0 p \<Longrightarrow> opt_Notify opts \<Longrightarrow> tells_all r0 (finish opts r st txt p)"
  unfolding finish_def by (rule tells_all_note) (simp_all add: note_of_def)

interpretation told: run_predicate "\<lambda>p. opt_Notify opts \<longrightarrow> tells_all r0 p" opts r0 for opts r0
proof unfold_locales
  show "opt_Notify opts \<longrightarrow> tells_all r0 Stop" by (simp add: tells_all_def told_def)
  show "opt_Notify opts \<longrightarrow> tells_all r0 (UCall c p)"
    if "\<forall>ev. c \<noteq> Notify ev" "opt_Notify opts \<longrightarrow> tells_all r0 p" for c p
    using that tells_all_step [of "UCall c p" "\<lambda>_::unit. OU c" "\<lambda>_. p" r0]
    by (cases c) (auto simp: trace_UCall note_of_def event_in_def simp del: trace.simps)
  show "opt_Notify opts \<longrightarrow> tells_all r0 (ECall e k)"
    if "\<not> noted e" "\<And>r. opt_Notify opts \<longrightarrow> tells_all r0 (k r)" for e k
    using that tells_all_step [OF trace_ECall [of e k], of r0]
    by (auto simp: note_of_def event_in_def noted_def split: ecall.splits)
  show "opt_Notify opts \<longrightarrow> tells_all r0 (SCall s k)"
    if "\<And>r. opt_Notify opts \<longrightarrow> tells_all r0 (k r)" for s k
    using that tells_all_step [OF trace_SCall [of s k], of r0] by (simp add: note_of_def event_in_def)
  show "opt_Notify opts \<longrightarrow> tells_all r0 (RepoManifest v k)"
    if "\<And>r. opt_Notify opts \<longrightarrow> tells_all r0 (k r)" for v k
    using that tells_all_step [OF trace_RepoManifest [of v k], of r0] by (simp add: note_of_def event_in_def)
  show "opt_Notify opts \<longrightarrow> tells_all r0 (RepoSyncState k)"
    if "\<And>r. opt_Notify opts \<longrightarrow> tells_all r0 (k r)" for k
    using that tells_all_step [OF trace_RepoSyncState [of k], of r0] by (simp add: note_of_def event_in_def)
  show "opt_Notify opts \<longrightarrow> tells_all r0 (OpenManifestPR v c t b k)"
    if "\<And>r. opt_Notify opts \<longrightarrow> tells_all r0 (k r)" for v c t b k
    using that tells_all_step [OF trace_OpenManifestPR [of v c t b k], of r0]
    by (simp add: note_of_def event_in_def)
  show "opt_Notify opts \<longrightarrow> tells_all r0 (WaitChecks n d k)"
    if "\<And>r. opt_Notify opts \<longrightarrow> tells_all r0 (k r)" for n d k
    using that tells_all_step [OF trace_WaitChecks [of n d k], of r0] by (simp add: note_of_def event_in_def)
  show "opt_Notify opts \<longrightarrow> tells_all r0 (Pause d k)"
    if "\<And>r. opt_Notify opts \<longrightarrow> tells_all r0 (k r)" for d k
    using that tells_all_step [OF trace_Pause [of d k], of r0] by (simp add: note_of_def event_in_def)
qed (auto intro: tells_all_emit tells_all_finish)

lemma run_told: "opt_Notify opts \<Longrightarrow> told req (run_log h opts req w)"
  using told.q_run [of opts req] exec_trace [of "run opts req" h w] by (simp add: tells_all_def)

section \<open>A stream ends with its receipt\<close>

definition on_the_way :: "run_request \<Rightarrow> int \<times> string \<times> string \<Rightarrow> bool" where
  "on_the_way r n \<longleftrightarrow> fst n = rq_id r \<and> \<not> isTerminal (fst (snd n))"

definition ends_once :: "run_request \<Rightarrow> (int \<times> string \<times> string) list \<Rightarrow> bool" where
  "ends_once r ns \<longleftrightarrow>
     (\<exists>before st d. ns = before @ [(rq_id r, st, d)] \<and> isTerminal st \<and> list_all (on_the_way r) before)"

definition notes_so_far :: "run_request \<Rightarrow> obs list \<Rightarrow> stage \<Rightarrow> bool" where
  "notes_so_far r t \<sigma> \<longleftrightarrow>
     (if \<sigma> = Finished then ends_once r (jnotes t) else list_all (on_the_way r) (jnotes t))"

lemma jnotes_append: "jnotes (t @ u) = jnotes t @ jnotes u"
  by (induction t) (simp_all add: notes_Cons split: option.split)

lemma notes_step:
  assumes "notes_so_far r t \<sigma>"
    and "protocol (contract_of opts r) (\<sigma>, prev) x = Some (\<sigma>', prev')"
  shows "notes_so_far r (t @ [x]) \<sigma>'"
proof -
  consider "note_of x = None" "\<sigma>' = Finished \<longleftrightarrow> \<sigma> = Finished"
    | st d where "note_of x = Some (rq_id r, st, d)" "\<not> isTerminal st" "\<sigma> \<noteq> Finished" "\<sigma>' \<noteq> Finished"
    | d where "note_of x = Some (rq_id r, earned \<sigma>, d)" "\<sigma> \<noteq> Finished" "\<sigma>' = Finished"
    using assms(2)
    by (cases "(contract_of opts r, (\<sigma>, prev), x)" rule: protocol.cases;
      auto simp: Let_def for_row_def note_of_def split: if_splits stage.splits sum.splits)
  then show ?thesis
    using assms(1) earned_terminal
    by cases (auto simp: notes_so_far_def jnotes_append notes_Cons ends_once_def on_the_way_def)
qed

lemma run_ends_once: "ends_once req (jnotes (run_log h opts req w))"
proof -
  obtain prev where "at_stage opts req (run_log h opts req w) Finished prev"
    using run_log_finished [of opts req h w] by blast
  then have "(\<lambda>t s. notes_so_far req t (fst s)) (run_log h opts req w) (Finished, prev)"
    unfolding at_stage_def
  proof (induction rule: drive_induct)
    case (step t x s1 s2)
    then show ?case using notes_step [of req t "fst s1" opts "snd s1" x "fst s2" "snd s2"] by simp
  qed (simp add: notes_so_far_def)
  then show ?thesis by (simp add: notes_so_far_def)
qed

text \<open>A run's events: some that are not terminal, then the one that is, all of this journal row.\<close>

definition ended_stream :: "run_request \<Rightarrow> event list \<Rightarrow> bool" where
  "ended_stream r evs \<longleftrightarrow>
     (\<exists>before ev. evs = before @ [ev] \<and> isTerminal (ev_State ev) \<and>
        list_all (\<lambda>e. \<not> isTerminal (ev_State e)) before \<and>
        list_all (\<lambda>e. ev_JournalID e = rq_id r \<and> ev_Service e = rq_service r \<and> ev_Action e = rq_action r) evs)"

lemma list_all2_some: "list_all2 P xs ys \<Longrightarrow> list_all R ys \<Longrightarrow> list_all (\<lambda>x. \<exists>y. P x y \<and> R y) xs"
  by (induction rule: list_all2_induct) auto

lemma told_ended:
  assumes "list_all2 (tells r) evs ns" "ends_once r ns"
  shows "ended_stream r evs"
proof -
  from assms(2) obtain before st d where ns: "ns = before @ [(rq_id r, st, d)]" "isTerminal st"
      "list_all (on_the_way r) before"
    unfolding ends_once_def by blast
  obtain es vs where es: "evs = es @ vs" "list_all2 (tells r) es before"
      "list_all2 (tells r) vs [(rq_id r, st, d)]"
    using assms(1) unfolding ns(1) list_all2_append2 by blast
  then obtain ev where ev: "vs = [ev]" "tells r ev (rq_id r, st, d)" by (auto simp: list_all2_Cons2)
  have way: "list_all (\<lambda>e. \<exists>n. tells r e n \<and> on_the_way r n) es"
    by (rule list_all2_some [OF es(2) ns(3)])
  let ?own = "\<lambda>e. ev_JournalID e = rq_id r \<and> ev_Service e = rq_service r \<and> ev_Action e = rq_action r"
  have quiet: "list_all (\<lambda>e. \<not> isTerminal (ev_State e)) es"
    by (rule list.pred_mono_strong [OF way]) (auto simp: tells_def on_the_way_def)
  have own: "list_all ?own es"
    by (rule list.pred_mono_strong [OF way]) (auto simp: tells_def on_the_way_def)
  have last: "?own ev \<and> isTerminal (ev_State ev)" using ev(2) ns(2) by (simp add: tells_def)
  have evs: "evs = es @ [ev]" using es(1) ev(1) by simp
  show ?thesis
    unfolding ended_stream_def
  proof (intro exI conjI)
    show "evs = es @ [ev]" by (rule evs)
    show "list_all ?own evs" unfolding evs using own last by simp
  qed (use quiet last in simp_all)
qed

lemma run_stream: "opt_Notify opts \<Longrightarrow> ended_stream req (events (run_log h opts req w))"
  by (rule told_ended [OF run_told [unfolded told_def] run_ends_once])

text \<open>
  C20. The stream is the journal, and it ends. When a notify function is set, the events of a run are
  the states and details it journals, one event for each note and in the same order, with this run's
  row, service and action; all but the last are on the way, and the last one is terminal.
\<close>

theorem events_mirror_journal:
  assumes "opt_Notify opts"
  shows "list_all2 (tells req) (events (run_log h opts req w)) (jnotes (run_log h opts req w)) \<and>
    ended_stream req (events (run_log h opts req w))"
  using run_told [OF assms, of req h w] run_stream [OF assms, of req h w] by (simp add: told_def)

theorem events_mirror_journal_witness:
  "opt_Notify sample_options \<and> ended_stream (sample_request ActionConverge) (events sample_converge)"
  using events_mirror_journal [OF sample_options_sel(1), of "sample_request ActionConverge" sample_handler 2]
  by (simp add: sample_converge_def sample_options_sel(1))

end
