(* ===== verification/Observability.thy ===== *)
theory Observability
  imports Event_Stream
begin

text \<open>
  What the daemon shows of its runs, \<open>api/metrics.go\<close> and \<open>api/sse.go\<close>: counters and timings fed by
  the engine's events, the broker that fans the events out to connected streams without ever blocking
  the engine, and the frames a stream starts with. Prometheus, JSON and the response writer are
  arguments.
\<close>

section \<open>Metrics\<close>

record state_mark =
  sm_state :: string
  sm_at :: int

text \<open>
  The series: deploys by service and outcome, the observed durations by state, the drift gauge, the
  registry polls by repository and outcome, the dropped events; and each live run's latest state.
\<close>

record metrics =
  mt_deploys :: "string \<times> string \<Rightarrow> nat"
  mt_durations :: "(string \<times> int) list"
  mt_drift :: "string \<rightharpoonup> bool"
  mt_polls :: "string \<times> string \<Rightarrow> nat"
  mt_dropped :: nat
  mt_lastState :: "int \<rightharpoonup> state_mark"

definition newMetrics :: metrics where
  "newMetrics =
     \<lparr>mt_deploys = (\<lambda>_. 0), mt_durations = [], mt_drift = Map.empty, mt_polls = (\<lambda>_. 0),
      mt_dropped = 0, mt_lastState = Map.empty\<rparr>"

definition isTerminalState :: "string \<Rightarrow> bool" where
  "isTerminalState state \<longleftrightarrow> state \<in> {StateHealthy, StateRolledBack, StateFailed}"

text \<open>The zero time, in nanoseconds since 1970.\<close>

definition zero_time :: int where
  "zero_time = - 62135596800 * 10 ^ 9"

definition observe :: "int \<Rightarrow> event \<Rightarrow> metrics \<Rightarrow> metrics" where
  "observe now ev m =
     (if ev_JournalID ev = 0 then m
      else
        let at = (if ev_At ev = zero_time then now else ev_At ev);
            m1 = (case mt_lastState m (ev_JournalID ev) of
                    None \<Rightarrow> m
                  | Some p \<Rightarrow> m\<lparr>mt_durations := mt_durations m @ [(sm_state p, at - sm_at p)]\<rparr>);
            m2 = m1\<lparr>mt_lastState := (mt_lastState m1)(ev_JournalID ev :=
                     if isTerminalState (ev_State ev) then None
                     else Some \<lparr>sm_state = ev_State ev, sm_at = at\<rparr>)\<rparr>
        in if isTerminalState (ev_State ev)
           then m2\<lparr>mt_deploys := (mt_deploys m2)((ev_Service ev, ev_State ev) :=
                    Suc (mt_deploys m2 (ev_Service ev, ev_State ev)))\<rparr>
           else m2)"

definition recordRegistryPoll :: "string \<Rightarrow> go_error option \<Rightarrow> metrics \<Rightarrow> metrics" where
  "recordRegistryPoll repository err m =
     (let series = (repository, if err \<noteq> None then ''error'' else ''ok'') in
      m\<lparr>mt_polls := (mt_polls m)(series := Suc (mt_polls m series))\<rparr>)"

text \<open>The drifts as pairs of service and detail.\<close>

definition setDrift :: "(string \<times> string) list \<Rightarrow> string list \<Rightarrow> metrics \<Rightarrow> metrics" where
  "setDrift drift known m =
     (let m1 = fold (\<lambda>s m. m\<lparr>mt_drift := (mt_drift m)(s \<mapsto> s \<in> set (map fst drift))\<rparr>) known m
      in fold (\<lambda>s m. m\<lparr>mt_drift := (mt_drift m)(s \<mapsto> True)\<rparr>) (map fst drift) m1)"

text \<open>\<open>Server.SetDrift\<close>: without a service list nothing is known.\<close>

definition server_SetDrift :: "(string \<times> string) list \<Rightarrow> string list result \<Rightarrow> metrics \<Rightarrow> metrics" where
  "server_SetDrift drift services m =
     setDrift drift (case services of Inl _ \<Rightarrow> [] | Inr known \<Rightarrow> known) m"

section \<open>The broker\<close>

definition subscriberBuffer :: nat where
  "subscriberBuffer = 64"

record subscriber =
  sb_queue :: "event list"
  sb_warned :: bool

text \<open>The subscribers by their number; \<open>br_dropped\<close> counts the calls of \<open>onDrop\<close>.\<close>

record broker =
  br_next :: int
  br_subs :: "(int \<times> subscriber) list"
  br_dropped :: nat

definition newBroker :: broker where
  "newBroker = \<lparr>br_next = 0, br_subs = [], br_dropped = 0\<rparr>"

definition subscribe :: "broker \<Rightarrow> int \<times> broker" where
  "subscribe b =
     (let i = br_next b + 1 in
      (i, b\<lparr>br_next := i, br_subs := br_subs b @ [(i, \<lparr>sb_queue = [], sb_warned = False\<rparr>)]\<rparr>))"

definition unsubscribe :: "int \<Rightarrow> broker \<Rightarrow> broker" where
  "unsubscribe i b = b\<lparr>br_subs := filter (\<lambda>(j, _). j \<noteq> i) (br_subs b)\<rparr>"

definition full :: "subscriber \<Rightarrow> bool" where
  "full s \<longleftrightarrow> subscriberBuffer \<le> length (sb_queue s)"

definition offer :: "event \<Rightarrow> subscriber \<Rightarrow> subscriber" where
  "offer ev s = (if full s then s\<lparr>sb_warned := True\<rparr> else s\<lparr>sb_queue := sb_queue s @ [ev]\<rparr>)"

definition publish :: "event \<Rightarrow> broker \<Rightarrow> broker" where
  "publish ev b = b\<lparr>
     br_subs := map (\<lambda>(i, s). (i, offer ev s)) (br_subs b),
     br_dropped := br_dropped b + length (filter (\<lambda>(_, s). full s) (br_subs b))\<rparr>"

text \<open>A stream takes the oldest event of its channel.\<close>

definition receive :: "int \<Rightarrow> broker \<Rightarrow> event option \<times> broker" where
  "receive i b =
     (case map_of (br_subs b) i of
        Some s \<Rightarrow>
          (case sb_queue s of
             [] \<Rightarrow> (None, b)
           | ev # rest \<Rightarrow> (Some ev, b\<lparr>br_subs := map (\<lambda>(j, t). (j, if j = i then s\<lparr>sb_queue := rest\<rparr> else t)) (br_subs b)\<rparr>))
      | None \<Rightarrow> (None, b))"

text \<open>\<open>Server.Publish\<close>.\<close>

definition server_Publish :: "int \<Rightarrow> event \<Rightarrow> metrics \<times> broker \<Rightarrow> metrics \<times> broker" where
  "server_Publish now ev mb =
     (let b = publish ev (snd mb); m = observe now ev (fst mb) in
      (m\<lparr>mt_dropped := mt_dropped m + (br_dropped b - br_dropped (snd mb))\<rparr>, b))"

section \<open>Frames\<close>

text \<open>
  A stream writes frames and keep-alives. \<open>marshal\<close> is the JSON of an event, if it has one; the
  sequence number counts the frames written.
\<close>

datatype stream_input = Frame event | KeepAlive

definition frame_lines :: "int \<Rightarrow> int \<Rightarrow> string \<Rightarrow> string list" where
  "frame_lines jid seq payload =
     [''id: '' @ Itoa jid @ ''-'' @ Itoa seq, ''event: state'', ''data: '' @ payload, []]"

definition keep_alive_lines :: "string list" where
  "keep_alive_lines = ['': keep-alive'', []]"

fun stream_lines :: "(event \<Rightarrow> string option) \<Rightarrow> int \<Rightarrow> stream_input list \<Rightarrow> string list" where
  "stream_lines marshal seq [] = []"
| "stream_lines marshal seq (KeepAlive # xs) = keep_alive_lines @ stream_lines marshal seq xs"
| "stream_lines marshal seq (Frame ev # xs) =
     (case marshal ev of
        None \<Rightarrow> stream_lines marshal seq xs
      | Some payload \<Rightarrow>
          frame_lines (ev_JournalID ev) (seq + 1) payload @ stream_lines marshal (seq + 1) xs)"

definition eventFromEntry :: "string \<Rightarrow> entry \<Rightarrow> event" where
  "eventFromEntry web e =
     \<lparr>ev_Service = ent_Service e, ev_Action = ent_Action e, ev_State = ent_State e,
      ev_Detail = ent_Detail e, ev_JournalID = ent_ID e, ev_PRNumber = ent_PRNumber e,
      ev_PRURL = (if web \<noteq> [] \<and> ent_PRNumber e > 0 then web @ ''/pull/'' @ Itoa (ent_PRNumber e) else []),
      ev_MergeURL = (if web \<noteq> [] \<and> ent_MergeSHA e \<noteq> [] then web @ ''/commit/'' @ ent_MergeSHA e else []),
      ev_At = (case ent_StartedAt e of None \<Rightarrow> zero_time | Some t \<Rightarrow> t)\<rparr>"

definition snapshotEvents ::
    "string \<Rightarrow> string list result \<Rightarrow> (string \<Rightarrow> entry list result) \<Rightarrow> event list" where
  "snapshotEvents web services recent =
     (case services of
        Inl _ \<Rightarrow> []
      | Inr names \<Rightarrow>
          List.map_filter (\<lambda>name. case recent name of
              Inr (e # _) \<Rightarrow> if ent_FinishedAt e = None then Some (eventFromEntry web e) else None
            | _ \<Rightarrow> None) names)"

section \<open>Every run is counted once\<close>

text \<open>Events with the clock at their arrival, whatever runs they come from.\<close>

definition observed :: "(int \<times> event) list \<Rightarrow> metrics" where
  "observed es = fold (\<lambda>(now, ev). observe now ev) es newMetrics"

definition counted :: "event \<Rightarrow> (string \<times> string) list" where
  "counted ev =
     (if ev_JournalID ev \<noteq> 0 \<and> isTerminalState (ev_State ev) then [(ev_Service ev, ev_State ev)] else [])"

definition live_now :: "int \<Rightarrow> event list \<Rightarrow> bool" where
  "live_now i evs \<longleftrightarrow>
     (case filter (\<lambda>e. ev_JournalID e = i) (rev evs) of [] \<Rightarrow> False | e # _ \<Rightarrow> \<not> isTerminalState (ev_State e))"

lemma observe_deploys:
  "mt_deploys (observe now ev m) x = mt_deploys m x + count_list (counted ev) x"
  by (auto simp: observe_def counted_def Let_def split: option.split)

lemma observe_lastState:
  "mt_lastState (observe now ev m) i \<noteq> None \<longleftrightarrow>
     (if ev_JournalID ev \<noteq> 0 \<and> i = ev_JournalID ev then \<not> isTerminalState (ev_State ev)
      else mt_lastState m i \<noteq> None)"
  by (auto simp: observe_def Let_def split: option.split)

lemma count_list_append: "count_list (xs @ ys) x = count_list xs x + count_list ys x"
  by (induction xs) simp_all

lemma observed_deploys: "mt_deploys (observed es) x = count_list (concat (map (counted \<circ> snd) es)) x"
proof (induction es rule: rev_induct)
  case (snoc p es)
  then show ?case
    by (cases p) (simp add: observed_def observe_deploys count_list_append)
qed (simp add: observed_def newMetrics_def)

lemma observed_live:
  "i \<noteq> 0 \<Longrightarrow> mt_lastState (observed es) i \<noteq> None \<longleftrightarrow> live_now i (map snd es)"
proof (induction es rule: rev_induct)
  case (snoc p es)
  obtain now ev where p: "p = (now, ev)" by fastforce
  have "mt_lastState (observed (es @ [p])) i \<noteq> None \<longleftrightarrow>
      (if ev_JournalID ev \<noteq> 0 \<and> i = ev_JournalID ev then \<not> isTerminalState (ev_State ev)
       else mt_lastState (observed es) i \<noteq> None)"
    by (simp add: observed_def p observe_lastState del: not_None_eq)
  then show ?case using snoc by (auto simp: live_now_def p simp del: not_None_eq)
qed (simp add: observed_def newMetrics_def live_now_def)

lemma terminal_same: "isTerminalState st = isTerminal st"
  by (simp add: isTerminalState_def isTerminal_def)

lemma ended_counted:
  assumes "ended_stream r evs" "rq_id r \<noteq> 0"
  shows "\<exists>st. isTerminal st \<and> concat (map counted evs) = [(rq_service r, st)]"
proof -
  obtain before ev where e: "evs = before @ [ev]" "isTerminal (ev_State ev)"
      "list_all (\<lambda>e. \<not> isTerminal (ev_State e)) before"
      "ev_JournalID ev = rq_id r" "ev_Service ev = rq_service r"
    using assms(1) unfolding ended_stream_def by auto
  have "concat (map counted before) = []"
    using e(3) by (auto simp: counted_def list_all_iff terminal_same)
  then show ?thesis using e assms(2) by (auto simp: counted_def terminal_same)
qed

lemma ended_not_live:
  assumes "ended_stream r (filter (\<lambda>e. ev_JournalID e = rq_id r) evs)"
  shows "\<not> live_now (rq_id r) evs"
proof -
  obtain before ev where "filter (\<lambda>e. ev_JournalID e = rq_id r) evs = before @ [ev]" "isTerminal (ev_State ev)"
    using assms unfolding ended_stream_def by auto
  then have "filter (\<lambda>e. ev_JournalID e = rq_id r) (rev evs) = ev # rev before"
    by (simp add: rev_filter [symmetric])
  then show ?thesis using \<open>isTerminal (ev_State ev)\<close> by (simp add: live_now_def terminal_same)
qed

text \<open>
  Every run is counted once. Let any events arrive, among them those of a run that has ended, in
  the order it sent them and with events of other runs in between. Then the deploy counters are
  exactly the terminal events that arrived, this run contributed one of them, for its service and a
  terminal outcome, and nothing of it is left in the table of live runs.
\<close>

theorem each_run_counted_once:
  assumes "opt_Notify opts" "rq_id req \<noteq> 0"
    and "filter (\<lambda>e. ev_JournalID e = rq_id req) (map snd es) = events (run_log h opts req w)"
  shows "(\<exists>st. isTerminal st \<and>
      concat (map counted (filter (\<lambda>e. ev_JournalID e = rq_id req) (map snd es))) = [(rq_service req, st)]) \<and>
    mt_deploys (observed es) x = count_list (concat (map (counted \<circ> snd) es)) x \<and>
    mt_lastState (observed es) (rq_id req) = None"
proof -
  have own: "ended_stream req (filter (\<lambda>e. ev_JournalID e = rq_id req) (map snd es))"
    unfolding assms(3) by (rule run_stream [OF assms(1)])
  then show ?thesis
    using ended_counted [OF own assms(2)] ended_not_live [OF own] observed_live [OF assms(2), of es]
      observed_deploys by blast
qed

theorem each_run_counted_once_witness:
  "mt_lastState (observed (map (Pair 0) (events sample_converge))) 7 = None \<and>
   (\<exists>st. isTerminal st \<and> concat (map counted (events sample_converge)) = [(''web'', st)])"
proof -
  let ?r = "sample_request ActionConverge"
  have "ended_stream ?r (events sample_converge)"
    unfolding sample_converge_def by (rule run_stream) (simp add: sample_options_sel)
  then have own: "filter (\<lambda>e. ev_JournalID e = rq_id ?r) (events sample_converge) = events sample_converge"
    unfolding ended_stream_def by (auto simp: filter_id_conv list_all_iff)
  have id: "rq_id ?r \<noteq> 0" by (simp add: sample_request_sel)
  have same: "map snd (map (Pair (0::int)) (events sample_converge)) = events sample_converge"
    by (simp add: comp_def)
  have fed: "filter (\<lambda>e. ev_JournalID e = rq_id ?r) (map snd (map (Pair (0::int)) (events sample_converge))) =
      events (run_log sample_handler sample_options ?r 2)"
    unfolding same using own by (simp add: sample_converge_def)
  show ?thesis
    using each_run_counted_once [OF sample_options_sel(1) id fed]
    unfolding same own by (simp add: sample_request_sel del: StateHealthy_def)
qed

section \<open>What a stream gets\<close>

text \<open>
  Anything that happens to the broker, with what each subscriber was offered since it subscribed and
  what it has taken.
\<close>

datatype broker_op = Subscribe | Unsubscribe int | Publish event | Receive int

record stream_history =
  sh_offered :: "int \<Rightarrow> event list"
  sh_taken :: "int \<Rightarrow> event list"

fun broker_step :: "broker_op \<Rightarrow> broker \<times> stream_history \<Rightarrow> broker \<times> stream_history" where
  "broker_step Subscribe (b, h) = (snd (subscribe b), h)"
| "broker_step (Unsubscribe i) (b, h) = (unsubscribe i b, h)"
| "broker_step (Publish ev) (b, h) =
     (publish ev b, h\<lparr>sh_offered := (\<lambda>i. if i \<in> fst ` set (br_subs b) then sh_offered h i @ [ev] else sh_offered h i)\<rparr>)"
| "broker_step (Receive i) (b, h) =
     (case receive i b of (ev, b') \<Rightarrow>
        (b', case ev of None \<Rightarrow> h | Some ev \<Rightarrow> h\<lparr>sh_taken := (sh_taken h)(i := sh_taken h i @ [ev])\<rparr>))"

definition after_ops :: "broker_op list \<Rightarrow> broker \<times> stream_history" where
  "after_ops ops = fold broker_step ops (newBroker, \<lparr>sh_offered = (\<lambda>_. []), sh_taken = (\<lambda>_. [])\<rparr>)"

definition stream_ok :: "stream_history \<Rightarrow> int \<Rightarrow> subscriber \<Rightarrow> bool" where
  "stream_ok h i s \<longleftrightarrow>
     length (sb_queue s) \<le> subscriberBuffer \<and>
     subseq (sh_taken h i @ sb_queue s) (sh_offered h i) \<and>
     (\<not> sb_warned s \<longrightarrow> sh_taken h i @ sb_queue s = sh_offered h i)"

definition broker_ok :: "broker \<times> stream_history \<Rightarrow> bool" where
  "broker_ok bh \<longleftrightarrow>
     distinct (map fst (br_subs (fst bh))) \<and>
     (\<forall>i. br_next (fst bh) < i \<longrightarrow> sh_offered (snd bh) i = [] \<and> sh_taken (snd bh) i = []) \<and>
     (\<forall>(i, s) \<in> set (br_subs (fst bh)). i \<le> br_next (fst bh) \<and> stream_ok (snd bh) i s \<and>
        (sb_warned s \<longrightarrow> 0 < br_dropped (fst bh)))"

lemma offer_ok:
  assumes "stream_ok h i s" "f i = sh_offered h i @ [ev]"
  shows "stream_ok (h\<lparr>sh_offered := f\<rparr>) i (offer ev s)"
  using assms
  by (auto simp: stream_ok_def offer_def full_def append_assoc [symmetric] simp del: append_assoc)

lemma subscribe_ok: "broker_ok (b, h) \<Longrightarrow> broker_ok (snd (subscribe b), h)"
  by (force simp: broker_ok_def subscribe_def stream_ok_def Let_def)

lemma unsubscribe_ok: "broker_ok (b, h) \<Longrightarrow> broker_ok (unsubscribe i b, h)"
  by (auto simp: broker_ok_def unsubscribe_def distinct_map_filter)

lemma broker_okI:
  assumes "distinct (map fst (br_subs b))"
    and "\<And>i. br_next b < i \<Longrightarrow> sh_offered h i = [] \<and> sh_taken h i = []"
    and "\<And>i s. (i, s) \<in> set (br_subs b) \<Longrightarrow>
      i \<le> br_next b \<and> stream_ok h i s \<and> (sb_warned s \<longrightarrow> 0 < br_dropped b)"
  shows "broker_ok (b, h)"
  unfolding broker_ok_def fst_conv snd_conv using assms by blast

lemma broker_okD:
  assumes "broker_ok (b, h)"
  shows "distinct (map fst (br_subs b))"
    and "br_next b < i \<Longrightarrow> sh_offered h i = [] \<and> sh_taken h i = []"
    and "(i, s) \<in> set (br_subs b) \<Longrightarrow>
      i \<le> br_next b \<and> stream_ok h i s \<and> (sb_warned s \<longrightarrow> 0 < br_dropped b)"
  using assms by (auto simp: broker_ok_def)

lemma publish_ok:
  assumes ok: "broker_ok (b, h)"
  shows "broker_ok (broker_step (Publish ev) (b, h))"
  unfolding broker_step.simps
proof (rule broker_okI)
  let ?f = "\<lambda>i. if i \<in> fst ` set (br_subs b) then sh_offered h i @ [ev] else sh_offered h i"
  have "map fst (map (\<lambda>(i, s). (i, offer ev s)) (br_subs b)) = map fst (br_subs b)"
    by (simp add: split_beta comp_def)
  then show "distinct (map fst (br_subs (publish ev b)))"
    using broker_okD(1) [OF ok] by (simp add: publish_def del: map_map)
  show "sh_offered (h\<lparr>sh_offered := ?f\<rparr>) i = [] \<and> sh_taken (h\<lparr>sh_offered := ?f\<rparr>) i = []"
    if "br_next (publish ev b) < i" for i
    using that broker_okD(2) [OF ok, of i] broker_okD(3) [OF ok, of i] by (fastforce simp: publish_def)
  show "i \<le> br_next (publish ev b) \<and> stream_ok (h\<lparr>sh_offered := ?f\<rparr>) i t \<and>
      (sb_warned t \<longrightarrow> 0 < br_dropped (publish ev b))" if "(i, t) \<in> set (br_subs (publish ev b))" for i t
  proof -
    have "(i, t) \<in> set (map (\<lambda>(i, s). (i, offer ev s)) (br_subs b))" using that by (simp add: publish_def)
    then obtain s where mem: "(i, s) \<in> set (br_subs b)" and t: "t = offer ev s"
      by (auto split: prod.splits)
    have "?f i = sh_offered h i @ [ev]" using mem by (auto intro: rev_image_eqI)
    then have "stream_ok (h\<lparr>sh_offered := ?f\<rparr>) i t"
      using offer_ok [of h i s ?f ev] broker_okD(3) [OF ok mem] t by blast
    moreover have "0 < length (filter (\<lambda>(_, s). full s) (br_subs b))" if "full s"
      using that mem by (auto simp: filter_empty_conv)
    then have "sb_warned t \<longrightarrow> 0 < br_dropped (publish ev b)"
      using broker_okD(3) [OF ok mem] t by (auto simp: publish_def offer_def split: if_splits)
    ultimately show ?thesis using broker_okD(3) [OF ok mem] by (simp add: publish_def)
  qed
qed

lemma receive_cases:
  obtains "receive i b = (None, b)"
  | s ev rest where "(i, s) \<in> set (br_subs b)" "sb_queue s = ev # rest"
      "receive i b = (Some ev, b\<lparr>br_subs := map (\<lambda>(j, t). (j, if j = i then s\<lparr>sb_queue := rest\<rparr> else t)) (br_subs b)\<rparr>)"
proof (cases "map_of (br_subs b) i")
  case None
  then show ?thesis using that(1) by (simp add: receive_def)
next
  case (Some s)
  then show ?thesis
    using that map_of_SomeD [OF Some] by (cases "sb_queue s") (auto simp: receive_def)
qed

lemma receive_ok:
  assumes ok: "broker_ok (b, h)"
  shows "broker_ok (broker_step (Receive i) (b, h))"
proof (rule receive_cases [of i b])
  assume "receive i b = (None, b)"
  then show ?thesis using ok by simp
next
  fix s ev rest
  assume mem: "(i, s) \<in> set (br_subs b)" and q: "sb_queue s = ev # rest"
    and r: "receive i b = (Some ev, b\<lparr>br_subs := map (\<lambda>(j, t). (j, if j = i then s\<lparr>sb_queue := rest\<rparr> else t)) (br_subs b)\<rparr>)"
  let ?h = "h\<lparr>sh_taken := (sh_taken h)(i := sh_taken h i @ [ev])\<rparr>"
  have s: "i \<le> br_next b" "stream_ok h i s" "sb_warned s \<longrightarrow> 0 < br_dropped b"
    using broker_okD(3) [OF ok mem] by auto
  have own: "stream_ok ?h i (s\<lparr>sb_queue := rest\<rparr>)"
    using s(2) q by (auto simp: stream_ok_def)
  have other: "stream_ok ?h j t" if "stream_ok h j t" "j \<noteq> i" for j t
    using that by (simp add: stream_ok_def)
  have ids: "map fst (map (\<lambda>(j, t). (j, if j = i then s\<lparr>sb_queue := rest\<rparr> else t)) (br_subs b)) = map fst (br_subs b)"
    by (simp add: split_beta comp_def)
  show ?thesis
    unfolding broker_step.simps r prod.case option.case
  proof (rule broker_okI, goal_cases)
    case 1
    then show ?case using broker_okD(1) [OF ok] ids by (simp del: map_map)
  next
    case (2 j)
    then show ?case using broker_okD(2) [OF ok, of j] s(1) by auto
  next
    case (3 j t)
    then obtain u where u: "(j, u) \<in> set (br_subs b)" "t = (if j = i then s\<lparr>sb_queue := rest\<rparr> else u)"
      by auto
    then show ?case
      using broker_okD(3) [OF ok u(1)] s own other by (cases "j = i") auto
  qed
qed

lemma ops_ok: "broker_ok (after_ops ops)"
proof (induction ops rule: rev_induct)
  case Nil
  then show ?case by (simp add: after_ops_def broker_ok_def newBroker_def)
next
  case (snoc x ops)
  then show ?case
    using subscribe_ok unsubscribe_ok publish_ok receive_ok
    by (cases "after_ops ops"; cases x) (auto simp: after_ops_def simp del: broker_step.simps(3,4))
qed

text \<open>
  A slow reader loses events, never order, and never silently. After any sequence of connections,
  disconnections, publications and reads, a connected stream holds at most 64 events, what it has
  taken and still holds is a subsequence of what was published since it connected, it is all of it
  unless the stream was warned about, and no stream is warned about without the drop counter showing
  a loss. Publishing is always possible.
\<close>

theorem streams_keep_order:
  assumes "after_ops ops = (b, h)" "(i, s) \<in> set (br_subs b)"
  shows "length (sb_queue s) \<le> subscriberBuffer \<and>
    subseq (sh_taken h i @ sb_queue s) (sh_offered h i) \<and>
    (sb_warned s \<or> sh_taken h i @ sb_queue s = sh_offered h i) \<and>
    (br_dropped b = 0 \<longrightarrow> \<not> sb_warned s)"
  using ops_ok [of ops] assms by (fastforce simp: broker_ok_def stream_ok_def)

definition sample_event :: event where
  "sample_event = \<lparr>ev_Service = ''web'', ev_Action = ''deploy'', ev_State = ''detected'', ev_Detail = [],
     ev_JournalID = 7, ev_PRNumber = 0, ev_PRURL = [], ev_MergeURL = [], ev_At = 1\<rparr>"

theorem streams_keep_order_witness:
  "subseq [sample_event] (sh_offered (snd (after_ops [Subscribe, Publish sample_event])) 1)"
proof -
  have run: "after_ops [Subscribe, Publish sample_event] =
      (\<lparr>br_next = 1, br_subs = [(1, \<lparr>sb_queue = [sample_event], sb_warned = False\<rparr>)], br_dropped = 0\<rparr>,
       \<lparr>sh_offered = (\<lambda>i. if i = 1 then [sample_event] else []), sh_taken = (\<lambda>_. [])\<rparr>)"
    by (auto simp: after_ops_def newBroker_def subscribe_def publish_def offer_def full_def
        subscriberBuffer_def Let_def)
  show ?thesis using streams_keep_order [OF run] run by simp
qed

end
