(* ===== verification/Go_Url.thy ===== *)
theory Go_Url
  imports Manifest
begin

text \<open>
  The escapes of \<open>net/url\<close> the program uses: \<open>PathEscape\<close>, by which the command line puts a service's
  name and the journal a file's name into a URL, and \<open>PathUnescape\<close>, by which the server's router and
  the database's driver read it back. Strings are bytes.
\<close>

named_theorems url_facts

section \<open>Escaping a path segment\<close>

definition path_safe :: "char \<Rightarrow> bool" where
  "path_safe c \<longleftrightarrow> alnum c \<or> c \<in> set ''-_.~$&+:=@''"

definition upper_hex :: "nat \<Rightarrow> char" where
  "upper_hex n = (if n < 10 then char_of (48 + n) else char_of (55 + n))"

definition escape_char :: "char \<Rightarrow> string" where
  "escape_char c =
     (if path_safe c then [c] else [CHR ''%'', upper_hex (of_char c div 16), upper_hex (of_char c mod 16)])"

definition PathEscape :: "string \<Rightarrow> string" where
  "PathEscape s = concat (map escape_char s)"

text \<open>\<open>None\<close> is the \<open>EscapeError\<close> of a percent sign two hexadecimal digits do not follow.\<close>

definition unhex :: "char \<Rightarrow> nat option" where
  "unhex c =
     (let n = of_char c in
      if 48 \<le> n \<and> n \<le> 57 then Some (n - 48)
      else if 97 \<le> n \<and> n \<le> 102 then Some (n - 87)
      else if 65 \<le> n \<and> n \<le> 70 then Some (n - 55) else None)"

fun PathUnescape :: "string \<Rightarrow> string option" where
  "PathUnescape [] = Some []"
| "PathUnescape (c # s) =
     (if c = CHR ''%'' then
        (case s of
           h # l # t \<Rightarrow>
             (case (unhex h, unhex l) of
                (Some x, Some y) \<Rightarrow> map_option (Cons (char_of (16 * x + y))) (PathUnescape t)
              | _ \<Rightarrow> None)
         | _ \<Rightarrow> None)
      else map_option (Cons c) (PathUnescape s))"

section \<open>Reading back\<close>

lemma hex_digits:
  assumes "n < 16"
  shows "unhex (upper_hex n) = Some n" "path_safe (upper_hex n)"
  using assms by (auto simp: unhex_def upper_hex_def path_safe_def alnum_def Let_def)

lemma nibbles: "(of_char c :: nat) div 16 < 16" "(of_char c :: nat) mod 16 < 16"
  by (rule less_mult_imp_div_less) simp_all

lemma percent_unsafe [simp]: "\<not> path_safe (CHR ''%'')"
  by code_simp

lemma unescape_char: "PathUnescape (escape_char c @ t) = map_option (Cons c) (PathUnescape t)"
  by (simp add: escape_char_def hex_digits nibbles)

lemma PathUnescape_Escape [url_facts]: "PathUnescape (PathEscape s) = Some s"
  by (induction s) (simp_all add: PathEscape_def unescape_char)

lemma PathEscape_inj [url_facts]: "PathEscape s = PathEscape t \<longleftrightarrow> s = t"
  by (metis PathUnescape_Escape option.inject)

text \<open>An escaped segment has no slash, no question mark and no number sign in it.\<close>

lemma PathEscape_chars: "c \<in> set (PathEscape s) \<Longrightarrow> path_safe c \<or> c = CHR ''%''"
  by (auto simp: PathEscape_def escape_char_def hex_digits nibbles split: if_splits)

lemma PathEscape_no_slash [url_facts]: "slash \<notin> set (PathEscape s)"
proof
  assume "slash \<in> set (PathEscape s)"
  then have "path_safe slash \<or> slash = CHR ''%''" by (rule PathEscape_chars)
  then show False by code_simp
qed

lemma PathEscape_Nil [simp]: "PathEscape s = [] \<longleftrightarrow> s = []"
  by (cases s) (simp_all add: PathEscape_def escape_char_def)

lemma PathEscape_dots: "PathEscape ''.'' = ''.''" "PathEscape ''..'' = ''..''"
  by code_simp+

lemma PathEscape_plain [url_facts]: "plain_elem (PathEscape s) \<longleftrightarrow> s \<notin> {[], ''.'', ''..''}"
proof -
  have "PathEscape s = ''.'' \<longleftrightarrow> s = ''.''" "PathEscape s = ''..'' \<longleftrightarrow> s = ''..''"
    using PathEscape_inj [of s] PathEscape_dots by metis+
  then show ?thesis by (simp add: plain_elem_def PathEscape_no_slash)
qed

end
