(* ===== verification/Journal_Store.thy ===== *)
theory Journal_Store
  imports Journal Go_Url Repo
begin

text \<open>
  Opening and closing the journal, \<open>Open\<close> and \<open>Close\<close> of \<open>internal/journal\<close>: the data source name and
  the schema statement. The driver is a record of operations on a world; what the journal relies on is
  \<open>keeps_rows\<close>: \<open>CREATE TABLE IF NOT EXISTS\<close> creates an empty table or changes nothing.
\<close>

text \<open>\<open>sq_Rows\<close>: the rows of a database's \<open>deploys\<close> table, none when there is no such table.\<close>

record 'w sqlite =
  sq_Open :: "string \<Rightarrow> go_error option"
  sq_Exec :: "string \<Rightarrow> 'w check_act"
  sq_Rows :: "string \<Rightarrow> 'w \<Rightarrow> journal"
  sq_Close :: "string \<Rightarrow> 'w check_act"

definition journal_dsn :: "string \<Rightarrow> string" where
  "journal_dsn path =
     ''file:'' @ PathEscape path @ ''?_pragma=journal_mode(WAL)'' @ ''&_pragma=busy_timeout(5000)'' @
     ''&_pragma=synchronous(FULL)''"

definition journal_Open :: "'w sqlite \<Rightarrow> string \<Rightarrow> ('w, journal) act" where
  "journal_Open db path w =
     (let dsn = journal_dsn path in
      case sq_Open db dsn of
        Some e \<Rightarrow> (Inl (wrap ''open journal: '' e), w)
      | None \<Rightarrow>
     (case sq_Exec db dsn w of
        (Some e, w') \<Rightarrow> (Inl (wrap ''create journal schema: '' e), snd (sq_Close db dsn w'))
      | (None, w') \<Rightarrow> (Inr (sq_Rows db dsn w'), w')))"

definition journal_Close :: "'w sqlite \<Rightarrow> string \<Rightarrow> 'w check_act" where
  "journal_Close db path = sq_Close db (journal_dsn path)"

definition keeps_rows :: "'w sqlite \<Rightarrow> bool" where
  "keeps_rows db \<longleftrightarrow>
     (\<forall>dsn w w'. sq_Exec db dsn w = (None, w') \<longrightarrow> sq_Rows db dsn w' = sq_Rows db dsn w)"

text \<open>An opened journal is what the file holds; two paths are two databases.\<close>

lemma journal_Open_rows:
  "keeps_rows db \<Longrightarrow> journal_Open db path w = (Inr j, w') \<Longrightarrow> j = sq_Rows db (journal_dsn path) w"
  by (auto simp: journal_Open_def keeps_rows_def Let_def split: option.splits prod.splits)

lemma journal_dsn_inj: "journal_dsn p = journal_dsn q \<longleftrightarrow> p = q"
  by (simp add: journal_dsn_def PathEscape_inj)

text \<open>
  The name of the file ends where the pragmas begin, and is read back by the percent decoding of
  SQLite's URI file names.
\<close>

lemma before_unique: "c \<notin> set x \<Longrightarrow> c \<notin> set x' \<Longrightarrow> x @ c # y = x' @ c # y' \<Longrightarrow> x = x'"
  by (induction x arbitrary: x') (auto simp: Cons_eq_append_conv)

lemma journal_dsn_path:
  assumes "journal_dsn path = ''file:'' @ n @ CHR ''?'' # q" "CHR ''?'' \<notin> set n"
  shows "PathUnescape n = Some path"
proof -
  have safe: "CHR ''?'' \<notin> set (PathEscape path)"
    using PathEscape_chars [of "CHR ''?''" path] by (auto simp: path_safe_def alnum_def)
  have "n @ CHR ''?'' # q = PathEscape path @ CHR ''?'' # (''_pragma=journal_mode(WAL)'' @
      ''&_pragma=busy_timeout(5000)'' @ ''&_pragma=synchronous(FULL)'')"
    using assms(1) by (simp add: journal_dsn_def)
  then have "n = PathEscape path"
    by (rule before_unique [OF assms(2) safe])
  then show ?thesis by (simp add: PathUnescape_Escape)
qed

end
