(* ===== verification/Daemon.thy ===== *)
theory Daemon
  imports Config_File Forge Api Observability Journal_Store
begin

text \<open>
  The daemon process, \<open>cmd/snowdeployd/main.go\<close>, and the engine's drift check it runs: the gates a
  start goes through, the journal rows it closes, what it builds, the repositories it polls and the
  drift it publishes. The host is a record of operations on a world.
\<close>

section \<open>Orphans\<close>

text \<open>\<open>faults\<close> and \<open>clock\<close>: the database's faults and the time at each \<open>Finish\<close>.\<close>

definition orphan_detail :: "entry \<Rightarrow> string" where
  "orphan_detail e =
     ''the daemon restarted while this deploy was in '' @ quote (ent_State e) @
     (if ent_PRNumber e > 0
      then ''; PR #'' @ Itoa (ent_PRNumber e) @ '' may still be open '' @ [CHR 0xE2, CHR 0x80, CHR 0x94]
           @ '' check it and re-run''
      else ''; re-run'')"

fun close_orphans ::
    "(int \<Rightarrow> db_fault option) \<Rightarrow> (int \<Rightarrow> int) \<Rightarrow> entry list \<Rightarrow> journal \<Rightarrow> go_error option \<times> journal" where
  "close_orphans faults clock [] j = (None, j)"
| "close_orphans faults clock (e # es) j =
     (case journal_Finish (faults (ent_ID e)) (clock (ent_ID e)) (ent_ID e) StateFailed (orphan_detail e) j of
        (Some err, j') \<Rightarrow> (Some (wrap (''fail orphaned deploy '' @ Itoa (ent_ID e) @ '': '') err), j')
      | (None, j') \<Rightarrow> close_orphans faults clock es j')"

definition failOrphanedDeploys ::
    "db_fault option \<Rightarrow> (int \<Rightarrow> db_fault option) \<Rightarrow> (int \<Rightarrow> int) \<Rightarrow> journal \<Rightarrow> go_error option \<times> journal" where
  "failOrphanedDeploys fault faults clock j =
     (case journal_Unfinished fault j of
        Inl e \<Rightarrow> (Some e, j)
      | Inr orphans \<Rightarrow> close_orphans faults clock orphans j)"

section \<open>Starting\<close>

text \<open>\<open>filepath.Dir\<close>: everything before the last slash, cleaned.\<close>

definition Dir :: "string \<Rightarrow> string" where
  "Dir p = Clean (rev (dropWhile (\<lambda>c. c \<noteq> slash) (rev p)))"

record 'w host =
  ho_MkdirAll :: "string \<Rightarrow> 'w check_act"
  ho_db :: "'w sqlite"
  ho_fault :: "db_fault option"
  ho_faults :: "int \<Rightarrow> db_fault option"
  ho_clock :: "int \<Rightarrow> int"
  ho_read :: "string \<Rightarrow> string result"
  ho_sha :: "string \<Rightarrow> string"
  ho_git :: "'w git"
  ho_forge :: "'w forge"

definition ensureDir :: "'w host \<Rightarrow> string \<Rightarrow> 'w check_act" where
  "ensureDir ho dir w =
     (if dir = [] \<or> dir = ''.'' then (None, w)
      else (case ho_MkdirAll ho dir w of
              (Some e, w') \<Rightarrow> (Some (wrap (''create '' @ dir @ '': '') e), w')
            | (None, w') \<Rightarrow> (None, w')))"

definition proxyBoundary :: "(string \<Rightarrow> string) \<Rightarrow> (string \<Rightarrow> string result) \<Rightarrow> config \<Rightarrow> proxy_boundary option result" where
  "proxyBoundary sha read cfg =
     (if cf_ProxySecretFile cfg = [] then Inr None
      else (case LoadProxySecret read (cf_ProxySecretFile cfg) of
              Inl e \<Rightarrow> Inl (wrap ''proxy_secret_file: '' e)
            | Inr secret \<Rightarrow>
                (case NewProxyBoundary sha secret (cf_ProxyAllowedUsers cfg) of
                   Inl e \<Rightarrow> Inl (wrap ''proxy_allowed_users: '' e)
                 | Inr b \<Rightarrow> Inr (Some b))))"

record 'w daemon =
  dm_jrnl :: journal
  dm_repo :: "'w repo_config"
  dm_mirror :: mirror
  dm_app :: app_config
  dm_applier :: applier
  dm_auth :: authenticator
  dm_watcher :: watcher
  dm_checkPoll :: int
  dm_repoWebURL :: string

definition app_config_of :: "config \<Rightarrow> app_config" where
  "app_config_of cfg =
     \<lparr>app_AppID = cf_GitHubAppID cfg, app_InstallationID = cf_GitHubInstallID cfg,
      app_KeyPath = cf_GitHubKeyFile cfg, app_Owner = cf_GitHubOwner cfg, app_Repo = cf_GitHubRepo cfg,
      app_ManifestDir = cf_ManifestDir cfg, app_BaseBranch = cf_RepoBranch cfg, app_BaseURL = []\<rparr>"

definition repo_config_of :: "config \<Rightarrow> ('w, string) act \<Rightarrow> 'w repo_config" where
  "repo_config_of cfg tokenFn =
     \<lparr>rc_URL = cf_RepoURL cfg, rc_Branch = cf_RepoBranch cfg, rc_CacheDir = cf_CacheDir cfg,
      rc_ManifestDir = cf_ManifestDir cfg, rc_TemplateDir = cf_TemplateDir cfg, rc_TokenFn = Some tokenFn\<rparr>"

definition assemble ::
    "config \<Rightarrow> proxy_boundary option \<Rightarrow> journal \<Rightarrow> app_config \<Rightarrow> 'w repo_config \<Rightarrow> mirror \<Rightarrow> 'w daemon" where
  "assemble cfg proxy j app rc mr =
     \<lparr>dm_jrnl = j, dm_repo = rc, dm_mirror = mr, dm_app = app,
      dm_applier = \<lparr>ap_Lim = config_Limits cfg, ap_ProbeInterval = cf_ProbeInterval cfg\<rparr>,
      dm_auth = \<lparr>au_tokenHashFile = cf_CLITokenHashFile cfg, au_proxy = proxy, au_loggedReason = []\<rparr>,
      dm_watcher = SetObserver True (NewWatcher (cf_PollInterval cfg)),
      dm_checkPoll = cf_CheckPollInterval cfg,
      dm_repoWebURL = ''https://github.com/'' @ cf_GitHubOwner cfg @ ''/'' @ cf_GitHubRepo cfg\<rparr>"

text \<open>\<open>build\<close> from the opened journal on. The first sync is best-effort: its error is logged.\<close>

definition build_on :: "'w host \<Rightarrow> config \<Rightarrow> proxy_boundary option \<Rightarrow> journal \<Rightarrow> ('w, 'w daemon) act" where
  "build_on ho cfg proxy j0 w =
     (case failOrphanedDeploys (ho_fault ho) (ho_faults ho) (ho_clock ho) j0 of
        (Some e, _) \<Rightarrow> (Inl e, snd (journal_Close (ho_db ho) (cf_JournalPath cfg) w))
      | (None, j) \<Rightarrow>
     (case NewGitHubApp (app_config_of cfg) of
        Inl e \<Rightarrow> (Inl e, snd (journal_Close (ho_db ho) (cf_JournalPath cfg) w))
      | Inr app \<Rightarrow>
     (case NewRepo (repo_config_of cfg (token (ho_forge ho) app)) of
        (rc, mr0) \<Rightarrow>
     (case Sync (ho_git ho) rc mr0 w of
        (_, mr, w') \<Rightarrow> (Inr (assemble cfg proxy j app rc mr), w')))))"

definition build :: "'w host \<Rightarrow> config \<Rightarrow> proxy_boundary option \<Rightarrow> ('w, 'w daemon) act" where
  "build ho cfg proxy =
     try_ok (ensureDir ho (Dir (cf_JournalPath cfg))) (\<lambda>e. e)
    (try_val (journal_Open (ho_db ho) (cf_JournalPath cfg)) (\<lambda>e. e) (build_on ho cfg proxy))"

definition start ::
    "'w host \<Rightarrow> ((string \<times> string) list \<Rightarrow> (string \<times> string) list) \<Rightarrow> (string \<Rightarrow> config result) \<Rightarrow>
     string \<Rightarrow> ('w, config \<times> 'w daemon) act" where
  "start ho ranged decode configPath w =
     (case Load ranged decode (ho_read ho) configPath of
        Inl e \<Rightarrow> (Inl e, w)
      | Inr cfg \<Rightarrow>
     (case ValidateCLITokenHashFile (ho_read ho) (cf_CLITokenHashFile cfg) of
        Some e \<Rightarrow> (Inl e, w)
      | None \<Rightarrow>
     (case proxyBoundary (ho_sha ho) (ho_read ho) cfg of
        Inl e \<Rightarrow> (Inl e, w)
      | Inr proxy \<Rightarrow> try_val (build ho cfg proxy) (\<lambda>e. e) (\<lambda>d. done_with (cfg, d)) w)))"

section \<open>Serving\<close>

text \<open>
  \<open>listen\<close>, on what \<open>ListenAndServe\<close> returned and whether that is \<open>http.ErrServerClosed\<close>; \<open>serve\<close>, on
  the first error of the group.
\<close>

definition listen :: "string \<Rightarrow> go_error option \<Rightarrow> bool \<Rightarrow> go_error option" where
  "listen name err closed =
     (case err of Some e \<Rightarrow> if \<not> closed then Some (wrap (name @ '' listener: '') e) else None | None \<Rightarrow> None)"

definition serve_result :: "go_error option \<Rightarrow> go_error option" where
  "serve_result err =
     (case err of Some e \<Rightarrow> if errors_is e ContextCanceled then None else Some e | None \<Rightarrow> None)"

definition repositories :: "'w deps \<Rightarrow> 'w \<Rightarrow> string list" where
  "repositories d w =
     (case ad_Services d w of
        Inl _ \<Rightarrow> []
      | Inr services \<Rightarrow>
          List.map_filter (\<lambda>service. case ad_Manifest d service w of
            Inl _ \<Rightarrow> None | Inr (m, _) \<Rightarrow> Some (img_Repository (m_Image m))) services)"

section \<open>Drift\<close>

text \<open>\<open>Engine.Drift\<close>: the drifting services with what is wrong, in the order they are listed.\<close>

definition drift_of :: "'w deps \<Rightarrow> string \<Rightarrow> 'w \<Rightarrow> string option" where
  "drift_of d service w =
     (case ad_Manifest d service w of
        Inl e \<Rightarrow> Some (''manifest unreadable: '' @ err_text e)
      | Inr (m, _) \<Rightarrow>
     (case ad_RunningImage d service w of
        Inl e \<Rightarrow> Some (''not running: '' @ err_text e)
      | Inr running \<Rightarrow>
          if running \<noteq> digest_of m
          then Some (''running '' @ running @ '', manifest pins '' @ digest_of m) else None))"

definition Drift :: "'w deps \<Rightarrow> ('w, (string \<times> string) list) act" where
  "Drift d =
     try_val (ad_Sync d) (wrap ''sync configuration repository: '') (\<lambda>_ w.
       case ad_Services d w of
         Inl e \<Rightarrow> (Inl e, w)
       | Inr services \<Rightarrow>
           (Inr (List.map_filter (\<lambda>s. map_option (Pair s) (drift_of d s w)) services), w))"

text \<open>One check of \<open>watchDrift\<close>, and the loop over its first \<open>n\<close> ticks; the flag of a tick says that the
  context is done.\<close>

definition check_drift :: "'w deps \<Rightarrow> metrics \<Rightarrow> 'w \<Rightarrow> metrics \<times> 'w" where
  "check_drift d m w =
     (case Drift d w of
        (Inl _, w') \<Rightarrow> (m, w')
      | (Inr drift, w') \<Rightarrow> (server_SetDrift drift (ad_Services d w') m, w'))"

fun watch_drift_ticks :: "'w deps \<Rightarrow> ('w \<Rightarrow> bool \<times> 'w) \<Rightarrow> nat \<Rightarrow> metrics \<Rightarrow> 'w \<Rightarrow> metrics \<times> 'w" where
  "watch_drift_ticks d tick 0 m w = (m, w)"
| "watch_drift_ticks d tick (Suc n) m w =
     (case tick w of (stopped, w1) \<Rightarrow>
        if stopped then (m, w1)
        else (case check_drift d m w1 of (m', w2) \<Rightarrow> watch_drift_ticks d tick n m' w2))"

definition watchDrift :: "'w deps \<Rightarrow> ('w \<Rightarrow> bool \<times> 'w) \<Rightarrow> nat \<Rightarrow> metrics \<Rightarrow> 'w \<Rightarrow> metrics \<times> 'w" where
  "watchDrift d tick n m w = (case check_drift d m w of (m', w') \<Rightarrow> watch_drift_ticks d tick n m' w')"

section \<open>No run outlives its process\<close>

definition closed_row :: "(int \<Rightarrow> int) \<Rightarrow> row \<Rightarrow> row" where
  "closed_row clock r =
     (if row_finished_at r = None
      then r\<lparr>row_state := StateFailed, row_detail := orphan_detail (scanEntry r),
             row_finished_at := Some (clock (row_id r))\<rparr>
      else r)"

lemma view_id: "journal_view j k = Some r \<Longrightarrow> row_id r = k"
  by (auto simp: journal_view_def find_Some_iff)

definition finish_row :: "int \<Rightarrow> string \<Rightarrow> row \<Rightarrow> row" where
  "finish_row now detail r = r\<lparr>row_state := StateFailed, row_detail := detail, row_finished_at := Some now\<rparr>"

lemma finish_fun: "journal_Finish fault now i StateFailed detail = journal_update fault i (finish_row now detail)"
  by (simp add: journal_Finish_def finish_row_def [abs_def])

lemma finish_row_id: "row_id (finish_row now detail r) = row_id r"
  by (simp add: finish_row_def)

lemma update_done:
  assumes "journal_update fault i f j = (None, j')"
  shows "j' = j\<lparr>j_rows := map (\<lambda>r. if open_row i r then f r else r) (j_rows j)\<rparr>"
  using assms by (auto simp: journal_update_def Let_def split: option.splits db_fault.splits if_splits)

lemma update_open:
  assumes "journal_inv j" "journal_view j i = Some r" "row_finished_at r = None"
  shows "\<exists>j'. journal_update None i f j = (None, j')"
proof -
  have "\<exists>y. filter (\<lambda>x. row_id x = i) rs = [y] \<and> find (\<lambda>x. row_id x = i) rs = Some y"
    if "distinct (map row_id rs)" "find (\<lambda>x. row_id x = i) rs \<noteq> None" for rs
    using that by (induction rs) (auto simp: filter_empty_conv image_iff)
  from this [of "j_rows j"] have one: "filter (\<lambda>x. row_id x = i) (j_rows j) = [r]"
    using assms by (auto simp: journal_inv_def journal_view_def)
  have "filter (open_row i) (j_rows j) = filter (\<lambda>x. row_finished_at x = None) (filter (\<lambda>x. row_id x = i) (j_rows j))"
    by (simp add: open_row_def [abs_def] conj_commute)
  then have "filter (open_row i) (j_rows j) = [r]" using one assms(3) by simp
  then show ?thesis by (simp add: journal_update_def Let_def)
qed

text \<open>Entries that are the rows of the table, open ones.\<close>

definition all_open :: "journal \<Rightarrow> entry list \<Rightarrow> bool" where
  "all_open j es \<longleftrightarrow>
     distinct (map ent_ID es) \<and>
     (\<forall>e \<in> set es. \<exists>r. journal_view j (ent_ID e) = Some r \<and> e = scanEntry r \<and> row_finished_at r = None)"

lemma close_view:
  assumes "journal_update fault i (finish_row now detail) j = (None, j')" "journal_view j i = Some r"
    and "row_finished_at r = None"
  shows "journal_view j' k =
    (if k = i then map_option (finish_row now detail) (journal_view j k) else journal_view j k)"
proof -
  have "journal_view j' k =
      map_option (\<lambda>r. if open_row i r then finish_row now detail r else r) (journal_view j k)"
    unfolding update_done [OF assms(1)] by (rule journal_view_updated) (rule finish_row_id)
  then show ?thesis
    using assms(2,3) view_id [of j k] by (cases "journal_view j k") (auto simp: open_row_def)
qed

lemma close_inv:
  assumes "journal_update fault i (finish_row now detail) j = (None, j')" "journal_inv j"
  shows "journal_inv j'"
proof -
  have "journal_inv (snd (journal_update fault i (finish_row now detail) j))"
    by (rule journal_inv_update) (rule finish_row_id, rule assms(2))
  then show ?thesis unfolding assms(1) snd_conv .
qed

lemma close_all_open:
  assumes "all_open j (e # es)" "\<And>k. k \<noteq> ent_ID e \<Longrightarrow> journal_view j' k = journal_view j k"
  shows "all_open j' es"
proof -
  have dist: "ent_ID e \<notin> ent_ID ` set es" "distinct (map ent_ID es)"
    using assms(1) unfolding all_open_def list.map distinct.simps set_map by blast+
  have "\<exists>r. journal_view j' (ent_ID x) = Some r \<and> x = scanEntry r \<and> row_finished_at r = None"
    if "x \<in> set es" for x
  proof -
    have "journal_view j' (ent_ID x) = journal_view j (ent_ID x)"
      using that dist(1) by (intro assms(2)) (metis imageI)
    moreover have "\<exists>r. journal_view j (ent_ID x) = Some r \<and> x = scanEntry r \<and> row_finished_at r = None"
      using assms(1) that unfolding all_open_def by (meson list.set_intros(2))
    ultimately show ?thesis by metis
  qed
  then show ?thesis using dist(2) unfolding all_open_def by blast
qed

lemma close_orphans_exact:
  assumes "journal_inv j" "all_open j es"
  shows "(case close_orphans faults clock es j of
      (Some _, _) \<Rightarrow> \<exists>e \<in> set es. faults (ent_ID e) \<noteq> None
    | (None, j') \<Rightarrow> journal_inv j' \<and>
        (\<forall>k. journal_view j' k = (if k \<in> ent_ID ` set es then map_option (closed_row clock) (journal_view j k)
               else journal_view j k)))"
  using assms
proof (induction es arbitrary: j)
  case Nil
  then show ?case by simp
next
  case (Cons e es)
  obtain r where r: "journal_view j (ent_ID e) = Some r" "e = scanEntry r" "row_finished_at r = None"
    using Cons.prems(2) by (auto simp: all_open_def)
  obtain err j1 where u: "journal_update (faults (ent_ID e)) (ent_ID e)
      (finish_row (clock (ent_ID e)) (orphan_detail e)) j = (err, j1)"
    by (metis prod.collapse)
  show ?case
  proof (cases err)
    case None
    have j1: "journal_inv j1" "all_open j1 es"
      "\<And>k. journal_view j1 k = (if k = ent_ID e then map_option (finish_row (clock (ent_ID e)) (orphan_detail e)) (journal_view j k)
           else journal_view j k)"
      using close_inv [OF u [unfolded None] Cons.prems(1)] close_view [OF u [unfolded None] r(1,3)]
        close_all_open [OF Cons.prems(2), of j1] by auto
    have "ent_ID e \<notin> ent_ID ` set es" using Cons.prems(2) by (auto simp: all_open_def)
    moreover have "finish_row (clock (ent_ID e)) (orphan_detail e) r = closed_row clock r"
      using r by (simp add: finish_row_def closed_row_def scanEntry_def)
    moreover have "close_orphans faults clock (e # es) j = close_orphans faults clock es j1"
      using u None by (simp add: finish_fun del: StateFailed_def)
    ultimately show ?thesis
      using Cons.IH [OF j1(1,2)] r(1)
      by (cases "close_orphans faults clock es j1"; cases "fst (close_orphans faults clock es j1)")
         (auto simp: j1(3))
  next
    case (Some x)
    have "faults (ent_ID e) \<noteq> None"
    proof
      assume "faults (ent_ID e) = None"
      then show False
        using update_open [OF Cons.prems(1) r(1,3), of "finish_row (clock (ent_ID e)) (orphan_detail e)"] u Some
        by simp
    qed
    then show ?thesis using u Some by (simp add: finish_fun del: StateFailed_def)
  qed
qed

lemma unfinished_open:
  assumes "journal_inv j"
  shows "all_open j (map scanEntry (oldest_first (filter (\<lambda>r. row_finished_at r = None) (j_rows j))))"
    and "ent_ID ` set (map scanEntry (oldest_first (filter (\<lambda>r. row_finished_at r = None) (j_rows j)))) =
      {k. \<exists>r. journal_view j k = Some r \<and> row_finished_at r = None}"
proof -
  let ?open = "filter (\<lambda>r. row_finished_at r = None) (j_rows j)"
  have ids: "ent_ID \<circ> scanEntry = row_id" by (simp add: scanEntry_def fun_eq_iff)
  have "distinct (map row_id ?open)" using assms by (simp add: journal_inv_def distinct_map_filter)
  then have "distinct (map row_id (oldest_first ?open))"
    unfolding oldest_first_def
    by (metis mset_map mset_sort mset_eq_imp_distinct_iff)
  moreover have "ent_ID (scanEntry r) = row_id r" for r by (simp add: scanEntry_def)
  ultimately show "all_open j (map scanEntry (oldest_first ?open))"
    using journal_view_mem [OF assms] by (auto simp: all_open_def ids oldest_first_def)
  show "ent_ID ` set (map scanEntry (oldest_first ?open)) =
      {k. \<exists>r. journal_view j k = Some r \<and> row_finished_at r = None}"
    using journal_view_mem [OF assms] by (auto simp: oldest_first_def scanEntry_def image_iff)
qed

lemma failOrphanedDeploys_exact:
  assumes "journal_inv j"
  shows "(case failOrphanedDeploys fault faults clock j of
      (Some _, _) \<Rightarrow> fault \<noteq> None \<or> (\<exists>k. faults k \<noteq> None)
    | (None, j') \<Rightarrow> journal_Unfinished None j' = Inr [] \<and>
        (\<forall>k. journal_view j' k = map_option (closed_row clock) (journal_view j k)))"
proof (cases "query_fault fault")
  case (Some e)
  then show ?thesis by (auto simp: failOrphanedDeploys_def journal_Unfinished_def query_fault_def)
next
  case None
  let ?es = "map scanEntry (oldest_first (filter (\<lambda>r. row_finished_at r = None) (j_rows j)))"
  have run: "failOrphanedDeploys fault faults clock j = close_orphans faults clock ?es j"
    using None by (simp add: failOrphanedDeploys_def journal_Unfinished_def)
  obtain err j' where c: "close_orphans faults clock ?es j = (err, j')" by (metis prod.collapse)
  note exact = close_orphans_exact [OF assms unfinished_open(1) [OF assms], of clock faults, unfolded c]
  show ?thesis
  proof (cases err)
    case (Some x)
    then show ?thesis using exact run c by auto
  next
    case None
    have inv: "journal_inv j'" using exact None by simp
    have view: "journal_view j' k = map_option (closed_row clock) (journal_view j k)" for k
    proof (cases "k \<in> ent_ID ` set ?es")
      case True
      then show ?thesis using exact None by simp
    next
      case False
      then have "\<forall>r. journal_view j k = Some r \<longrightarrow> row_finished_at r \<noteq> None"
        unfolding unfinished_open(2) [OF assms] by auto
      moreover have "journal_view j' k = journal_view j k" using exact None False by simp
      ultimately show ?thesis by (cases "journal_view j k") (auto simp: closed_row_def)
    qed
    have "row_finished_at r \<noteq> None" if "r \<in> set (j_rows j')" for r
    proof -
      have "journal_view j' (row_id r) = Some r" using journal_view_mem [OF inv] that by blast
      then obtain x where "r = closed_row clock x" unfolding view by auto
      then show ?thesis by (simp add: closed_row_def)
    qed
    then have "journal_Unfinished None j' = Inr []"
      by (simp add: journal_Unfinished_def query_fault_def oldest_first_def filter_empty_conv)
    then show ?thesis using run c None view by simp
  qed
qed

text \<open>
  C12. No deploy outlives its daemon. Unless the database fails, the start-up pass succeeds; when it
  does, no row is left without a receipt, every row a previous process left open has become \<open>failed\<close>
  with the state it was in and its pull request named, and every other row is as it was.
\<close>

theorem orphans_closed:
  assumes "journal_inv j"
  shows "(case failOrphanedDeploys fault faults clock j of
      (Some _, _) \<Rightarrow> fault \<noteq> None \<or> (\<exists>k. faults k \<noteq> None)
    | (None, j') \<Rightarrow> journal_Unfinished None j' = Inr [] \<and>
        (\<forall>k. journal_view j' k = map_option (closed_row clock) (journal_view j k)))"
  using assms by (rule failOrphanedDeploys_exact)

theorem orphans_closed_witness:
  "fst (failOrphanedDeploys None (\<lambda>_. None) (\<lambda>_. 9) sample_open) = None \<and>
   journal_Unfinished None (snd (failOrphanedDeploys None (\<lambda>_. None) (\<lambda>_. 9) sample_open)) = Inr []"
  using orphans_closed [OF sample_open_inv, where fault = None and faults = "\<lambda>_. None" and clock = "\<lambda>_. 9"]
  by (cases "failOrphanedDeploys None (\<lambda>_. None) (\<lambda>_. 9) sample_open";
      cases "fst (failOrphanedDeploys None (\<lambda>_. None) (\<lambda>_. 9) sample_open)") auto

section \<open>What a started daemon has passed\<close>

lemma proxyBoundary_exact:
  assumes "proxyBoundary sha read cfg = Inr proxy"
  shows "proxy = None \<and> cf_ProxySecretFile cfg = [] \<or>
    (\<exists>secret b. proxy = Some b \<and> cf_ProxySecretFile cfg \<noteq> [] \<and>
       LoadProxySecret read (cf_ProxySecretFile cfg) = Inr secret \<and>
       NewProxyBoundary sha secret (cf_ProxyAllowedUsers cfg) = Inr b)"
  using assms by (auto simp: proxyBoundary_def split: if_splits sum.splits)

lemma build_on_Inr:
  assumes "build_on ho cfg proxy j0 w = (Inr d, w')"
  shows "failOrphanedDeploys (ho_fault ho) (ho_faults ho) (ho_clock ho) j0 = (None, dm_jrnl d) \<and>
    au_tokenHashFile (dm_auth d) = cf_CLITokenHashFile cfg \<and> au_proxy (dm_auth d) = proxy \<and>
    ap_Lim (dm_applier d) = config_Limits cfg"
proof -
  obtain err j where f: "failOrphanedDeploys (ho_fault ho) (ho_faults ho) (ho_clock ho) j0 = (err, j)"
    by (metis prod.collapse)
  then show ?thesis
    using assms by (auto simp: build_on_def assemble_def split: prod.splits option.splits sum.splits)
qed

lemma build_Inr:
  assumes "build ho cfg proxy w = (Inr d, w')"
  shows "\<exists>w1 j0 w2. journal_Open (ho_db ho) (cf_JournalPath cfg) w1 = (Inr j0, w2) \<and> build_on ho cfg proxy j0 w2 = (Inr d, w')"
  using assms by (auto simp: build_def try_ok_Inr try_val_Inr)

lemma start_Inr:
  assumes "start ho ranged decode path w = (Inr (cfg, d), w')"
  shows "\<exists>proxy. Load ranged decode (ho_read ho) path = Inr cfg \<and>
    ValidateCLITokenHashFile (ho_read ho) (cf_CLITokenHashFile cfg) = None \<and>
    proxyBoundary (ho_sha ho) (ho_read ho) cfg = Inr proxy \<and> build ho cfg proxy w = (Inr d, w')"
  using assms
  by (auto simp: start_def try_val_Inr done_with_Inr split: sum.splits option.splits)

text \<open>
  C39. What a daemon that serves has passed. Its configuration is well formed with its defaults in; its
  token hash file, when it can be read, parses; the browser path is closed, or guarded by the secret
  loaded from the configured file and the configured users; the applier has the configuration's
  allowlists; and no row of its journal is without a receipt. The hypotheses on the database are
  that the schema statement keeps the rows and that the ids of a table are distinct and below the
  AUTOINCREMENT mark.
\<close>

theorem startup_gates:
  assumes "\<And>xs. mset (ranged xs) = mset xs"
    and "keeps_rows (ho_db ho)" "\<And>dsn v. journal_inv (sq_Rows (ho_db ho) dsn v)"
    and "start ho ranged decode path w = (Inr (cfg, d), w')"
  shows "well_formed cfg \<and> defaulted cfg \<and>
    ValidateCLITokenHashFile (ho_read ho) (au_tokenHashFile (dm_auth d)) = None \<and>
    (case au_proxy (dm_auth d) of
       None \<Rightarrow> cf_ProxySecretFile cfg = []
     | Some b \<Rightarrow> \<exists>secret. LoadProxySecret (ho_read ho) (cf_ProxySecretFile cfg) = Inr secret \<and>
         NewProxyBoundary (ho_sha ho) secret (cf_ProxyAllowedUsers cfg) = Inr b) \<and>
    ap_Lim (dm_applier d) = config_Limits cfg \<and>
    journal_Unfinished None (dm_jrnl d) = Inr []"
proof -
  obtain proxy where l: "Load ranged decode (ho_read ho) path = Inr cfg"
      "ValidateCLITokenHashFile (ho_read ho) (cf_CLITokenHashFile cfg) = None"
      "proxyBoundary (ho_sha ho) (ho_read ho) cfg = Inr proxy" "build ho cfg proxy w = (Inr d, w')"
    using start_Inr [OF assms(4)] by blast
  obtain w1 j0 w2 where o: "journal_Open (ho_db ho) (cf_JournalPath cfg) w1 = (Inr j0, w2)"
      "build_on ho cfg proxy j0 w2 = (Inr d, w')"
    using build_Inr [OF l(4)] by blast
  note b = build_on_Inr [OF o(2)]
  have journal: "journal_inv j0"
    unfolding journal_Open_rows [OF assms(2) o(1)] by (rule assms(3))
  have "journal_Unfinished None (dm_jrnl d) = Inr []"
    using failOrphanedDeploys_exact [OF journal, where fault = "ho_fault ho" and
        faults = "ho_faults ho" and clock = "ho_clock ho"] b by simp
  moreover have "well_formed cfg \<and> defaulted cfg"
    using Load_exact [OF assms(1), of decode "ho_read ho" path cfg] l(1) by blast
  moreover have "case proxy of None \<Rightarrow> cf_ProxySecretFile cfg = []
     | Some b \<Rightarrow> \<exists>secret. LoadProxySecret (ho_read ho) (cf_ProxySecretFile cfg) = Inr secret \<and>
         NewProxyBoundary (ho_sha ho) secret (cf_ProxyAllowedUsers cfg) = Inr b"
    using proxyBoundary_exact [OF l(3)] by (elim disjE exE conjE) simp_all
  ultimately show ?thesis using l(2) b by simp
qed

text \<open>
  The remote cannot keep the daemon down. Whether a start succeeds does not depend on the forge, the
  key file behind it or the git remote: a daemon whose first sync fails starts all the same, knows why,
  and reports the state of the mirror it has.
\<close>

theorem startup_ignores_the_remote:
  "isl (fst (start (ho\<lparr>ho_git := g, ho_forge := f\<rparr>) ranged decode path w)) =
   isl (fst (start ho ranged decode path w))"
proof -
  let ?ho = "ho\<lparr>ho_git := g, ho_forge := f\<rparr>"
  have on: "isl (fst (build_on ?ho cfg proxy j v)) = isl (fst (build_on ho cfg proxy j v))" for cfg proxy j v
    by (simp add: build_on_def split_beta split: option.split sum.split)
  have b: "isl (fst (build ?ho cfg proxy w)) = isl (fst (build ho cfg proxy w))" for cfg proxy
    by (simp add: build_def try_ok_def try_val_def ensureDir_def on split_beta split: option.split sum.split)
  have last: "isl (fst (try_val f (\<lambda>e. e) (\<lambda>d. done_with (x, d)) w)) = isl (fst (f w))" for f x
    by (simp add: try_val_def done_with_def split_beta split: sum.split)
  show ?thesis by (simp add: start_def last b split: option.split sum.split)
qed

section \<open>The drift gauge\<close>

lemma drift_of_None:
  "drift_of d s w = None \<longleftrightarrow>
     (\<exists>mf raw. ad_Manifest d s w = Inr (mf, raw) \<and> ad_RunningImage d s w = Inr (digest_of mf))"
  by (auto simp: drift_of_def split: sum.splits if_splits)

lemma fold_gauge:
  "mt_drift (fold (\<lambda>s m. m\<lparr>mt_drift := (mt_drift m)(s \<mapsto> f s)\<rparr>) ss m) s =
     (if s \<in> set ss then Some (f s) else mt_drift m s)"
  by (induction ss arbitrary: m) auto

text \<open>
  The drift gauge says what runs. A drift check that could sync and list the services leaves the
  gauge of each of them at 0 exactly when its manifest can be read and the image it pins is the one
  running, at 1 otherwise, and the gauges of other names alone; a check that could not changes nothing.
\<close>

theorem drift_gauge_exact:
  "case Drift d w of
     (Inl _, w') \<Rightarrow> check_drift d m w = (m, w')
   | (Inr _, w') \<Rightarrow> \<exists>names m'. ad_Services d w' = Inr names \<and> check_drift d m w = (m', w') \<and>
       (\<forall>s. mt_drift m' s =
          (if s \<in> set names
           then Some (\<not> (\<exists>mf raw. ad_Manifest d s w' = Inr (mf, raw) \<and>
                              ad_RunningImage d s w' = Inr (digest_of mf)))
           else mt_drift m s))"
proof (cases "Drift d w")
  case (Pair r w')
  show ?thesis
  proof (cases r)
    case (Inl e)
    then show ?thesis using Pair by (simp add: check_drift_def)
  next
    case (Inr drift)
    obtain head w1 where "ad_Sync d w = (Inr head, w1)"
        "(case ad_Services d w1 of Inl e \<Rightarrow> (Inl e, w1)
          | Inr services \<Rightarrow> (Inr (List.map_filter (\<lambda>s. map_option (Pair s) (drift_of d s w1)) services), w1))
         = (Inr drift, w')"
      using Pair Inr unfolding Drift_def by (auto simp: try_val_Inr)
    then obtain names where n: "ad_Services d w' = Inr names"
        "drift = List.map_filter (\<lambda>s. map_option (Pair s) (drift_of d s w')) names"
      by (cases "ad_Services d w1") auto
    have in_drift: "s \<in> set (map fst drift) \<longleftrightarrow> s \<in> set names \<and> drift_of d s w' \<noteq> None" for s
      unfolding n(2) by (induction names) (auto split: option.splits)
    have "mt_drift (server_SetDrift drift (Inr names) m) s =
        (if s \<in> set names then Some (drift_of d s w' \<noteq> None) else mt_drift m s)" for s
      unfolding server_SetDrift_def setDrift_def Let_def sum.case fold_gauge in_drift
      by simp
    then show ?thesis using Pair Inr n(1) by (auto simp: check_drift_def drift_of_None)
  qed
qed

section \<open>A sample host\<close>

definition sample_git :: "unit git" where
  "sample_git =
     \<lparr>git_PlainOpen = (\<lambda>_. Pair (Some (errorf ''corrupt''))), git_PlainClone = (\<lambda>_ _ _ _. Pair None),
      git_Fetch = (\<lambda>_ _. Pair None), git_Reference = (\<lambda>_. done_with ''c0''), git_Worktree = Pair None,
      git_Reset = (\<lambda>_. Pair None), git_Clean = Pair None\<rparr>"

definition sample_db :: "unit sqlite" where
  "sample_db =
     \<lparr>sq_Open = (\<lambda>_. None), sq_Exec = (\<lambda>_. Pair None), sq_Rows = (\<lambda>_ _. sample_open), sq_Close = (\<lambda>_. Pair None)\<rparr>"

definition sample_host :: "unit host" where
  "sample_host =
     \<lparr>ho_MkdirAll = (\<lambda>_. Pair None), ho_db = sample_db, ho_fault = None,
      ho_faults = (\<lambda>_. None), ho_clock = (\<lambda>_. 9), ho_read = (\<lambda>_. Inr []), ho_sha = (\<lambda>s. s),
      ho_git = sample_git, ho_forge = sample_forge\<rparr>"

lemma sample_build: "\<not> isl (fst (build sample_host (config_applyDefaults sample_config_file) None ()))"
proof -
  let ?cfg = "config_applyDefaults sample_config_file"
  have "fst (failOrphanedDeploys None (\<lambda>_. None) (\<lambda>_. 9) sample_open) = None"
    using failOrphanedDeploys_exact [OF sample_open_inv, where fault = None and faults = "\<lambda>_. None" and clock = "\<lambda>_. 9"]
    by (auto split: prod.splits option.splits)
  then obtain j where j: "failOrphanedDeploys None (\<lambda>_. None) (\<lambda>_. 9) sample_open = (None, j)"
    by (metis prod.collapse)
  have app: "\<not> isl (NewGitHubApp (app_config_of ?cfg))"
    by (simp add: NewGitHubApp_def app_config_of_def config_applyDefaults_def sample_config_file_def)
  have "ensureDir sample_host p () = (None, ())" for p
    by (simp add: ensureDir_def sample_host_def)
  then show ?thesis
    using j app
    by (cases "NewGitHubApp (app_config_of ?cfg)")
       (simp_all add: build_def try_ok_def try_val_def build_on_def sample_host_def sample_db_def journal_Open_def
         done_with_def split_beta)
qed

lemma sample_start: "\<not> isl (fst (start sample_host rev (\<lambda>_. Inr sample_config_file) path ()))"
proof -
  let ?cfg = "config_applyDefaults sample_config_file"
  have "cf_CLITokenHashFile ?cfg = []" "cf_ProxySecretFile ?cfg = []"
    by (simp_all add: config_applyDefaults_def sample_config_file_def)
  moreover have "ho_read sample_host = (\<lambda>_. Inr [])" by (simp add: sample_host_def)
  ultimately show ?thesis
    using sample_build sample_loads [of path]
    by (cases "fst (build sample_host ?cfg None ())")
       (simp_all add: start_def ValidateCLITokenHashFile_def proxyBoundary_def try_val_def done_with_def split_beta)
qed

theorem startup_gates_witness:
  "\<exists>cfg d. start sample_host rev (\<lambda>_. Inr sample_config_file) ''/etc/c'' () = (Inr (cfg, d), ()) \<and>
     well_formed cfg \<and> journal_Unfinished None (dm_jrnl d) = Inr []"
proof -
  obtain cfg d where s: "start sample_host rev (\<lambda>_. Inr sample_config_file) ''/etc/c'' () = (Inr (cfg, d), ())"
  proof -
    obtain r where r: "start sample_host rev (\<lambda>_. Inr sample_config_file) ''/etc/c'' () = (r, ())"
      by (metis old.unit.exhaust prod.collapse)
    then have "\<not> isl r" using sample_start [of "''/etc/c''"] by simp
    then show ?thesis using r that by (cases r) auto
  qed
  have "keeps_rows (ho_db sample_host)" "journal_inv (sq_Rows (ho_db sample_host) dsn v)" for dsn v
    using sample_open_inv by (simp_all add: sample_host_def sample_db_def keeps_rows_def)
  then have "well_formed cfg \<and> journal_Unfinished None (dm_jrnl d) = Inr []"
    using startup_gates [OF _ _ _ s] by simp
  then show ?thesis using s by blast
qed

end
