(* ===== verification/Locks.thy ===== *)
theory Locks
  imports Monitors
begin

text \<open>
  The lock discipline of one run, as an automaton: which calls are made under the service's turn,
  which under the merge lock, that the two are always taken in the same order, that waiting is
  counted in the queue gauge and uncounted again, and that nothing is held at the end.
\<close>

record lock_state =
  ls_held :: bool
  ls_merging :: bool
  ls_waiting :: int

definition unlocked :: lock_state where
  "unlocked = \<lparr>ls_held = False, ls_merging = False, ls_waiting = 0\<rparr>"

definition in_turn :: lock_state where
  "in_turn = \<lparr>ls_held = True, ls_merging = False, ls_waiting = 0\<rparr>"

definition in_merge :: lock_state where
  "in_merge = \<lparr>ls_held = True, ls_merging = True, ls_waiting = 0\<rparr>"

text \<open>Changing the host needs the service's turn alone; talking to the forge also the merge lock.\<close>

definition require :: "bool \<Rightarrow> 's \<Rightarrow> 's option" where
  "require b s = (if b then Some s else None)"

fun lock_monitor :: "string \<Rightarrow> lock_state monitor" where
  "lock_monitor v s (OU (QueuedAdd n)) =
     require (ls_waiting s + n \<in> {0, 1}) (s\<lparr>ls_waiting := ls_waiting s + n\<rparr>)"
| "lock_monitor v s (OE (LockService v') r) =
     require (v' = v \<and> \<not> ls_held s \<and> \<not> ls_merging s \<and> ls_waiting s = 1) (s\<lparr>ls_held := (r = None)\<rparr>)"
| "lock_monitor v s (OU (UnlockService v')) = require (v' = v \<and> s = in_turn) unlocked"
| "lock_monitor v s (OU LockMerge) =
     require (ls_held s \<and> \<not> ls_merging s \<and> ls_waiting s = 1) (s\<lparr>ls_merging := True\<rparr>)"
| "lock_monitor v s (OU UnlockMerge) = require (s = in_merge) in_turn"
| "lock_monitor v s (OOpenPR _ _ _ _ _) = require (s = in_merge) s"
| "lock_monitor v s (OWaitChecks _ _ _) = require (s = in_merge) s"
| "lock_monitor v s (OS (PRMerge _) _) = require (s = in_merge) s"
| "lock_monitor v s (OE (PRUpdateBranch _) _) = require (s = in_merge) s"
| "lock_monitor v s (OE (PRClose _ _) _) = require (s = in_turn) s"
| "lock_monitor v s (OS (RunningImage _) _) = require (s = in_merge) s"
| "lock_monitor v s (OE (WriteUnit _ _) _) = require (s = in_turn) s"
| "lock_monitor v s (OE (ReloadAndRestart _) _) = require (s = in_turn) s"
| "lock_monitor v s (OE (ProbeHealth _ _ _) _) = require (s = in_turn) s"
| "lock_monitor v s _ = Some s"

lemma require_simps [simp]: "require True s = Some s" "require False s = None"
  by (simp_all add: require_def)

interpretation locks: run_monitor "lock_monitor v" "\<lambda>_. True" jid for v jid
  by unfold_locales simp_all

abbreviation disciplined :: "string \<Rightarrow> lock_state \<Rightarrow> prog \<Rightarrow> bool" where
  "disciplined v \<equiv> safe (lock_monitor v) (\<lambda>s. s = unlocked)"

lemma turn_steady:
  "locks.steady v in_turn host_calls" "locks.steady v in_turn mirror_calls"
  by (auto simp: locks.steady_def host_calls_def mirror_calls_def)

lemma merge_steady: "locks.steady v in_merge (merge_calls pr)"
  by (auto simp: locks.steady_def merge_calls_def)

lemma lock_states [simp]:
  "unlocked \<noteq> in_turn" "in_turn \<noteq> unlocked" "in_merge \<noteq> in_turn" "in_turn \<noteq> in_merge"
  by (simp_all add: unlocked_def in_turn_def in_merge_def)

lemma disciplined_plumbing:
  "disciplined v s (emit opts req st d k) = disciplined v s k"
  "disciplined v s (finish opts req st d k) = disciplined v s k"
  "disciplined v s (fail opts req d k) = disciplined v s k"
  by (simp_all add: emit_def finish_def fail_def safe_ECall locks.safe_event)

lemma disciplined_merge_lock:
  "disciplined v in_turn (lockMergeQueue k) = disciplined v in_merge k"
  "disciplined v in_merge (UCall UnlockMerge k) = disciplined v in_turn k"
  by (simp_all add: lockMergeQueue_def safe_UCall in_turn_def in_merge_def)

lemmas disciplined_apply =
  locks.safe_applyManifest_steady [OF turn_steady TrueI refl]
  locks.safe_applyMerged_steady [OF turn_steady TrueI refl]
  locks.safe_restorePrevious_steady [OF turn_steady TrueI refl]
  locks.safe_merge_steady [OF merge_steady TrueI refl]

lemma disciplined_revertOnce:
  assumes k: "\<And>r. disciplined v in_turn (k r)"
  shows "disciplined v in_turn (revertOnce opts req k)"
proof -
  have "disciplined v in_merge (mergeThroughChecks opts req' pr (\<lambda>merged.
      UCall UnlockMerge (case merged of Inl err \<Rightarrow> k (req', Some err) | Inr _ \<Rightarrow> k (req', None))))"
    for req' pr
    by (rule disciplined_apply) (simp add: disciplined_merge_lock k split: sum.split)
  then show ?thesis
    unfolding revertOnce_def disciplined_merge_lock
    by (simp add: safe_OpenManifestPR disciplined_merge_lock k Let_def split: sum.split)
qed

lemma disciplined_revert_loop:
  assumes k: "\<And>r. disciplined v in_turn (k r)"
  shows "disciplined v in_turn (revert_loop opts n req lst k)"
proof (induction n arbitrary: req lst)
  case (Suc n)
  show ?case
    unfolding revert_loop.simps disciplined_plumbing
    by (rule disciplined_revertOnce)
      (simp add: safe_ECall safe_Pause k Suc.IH split: option.split prod.split)
qed (simp add: k)

lemma disciplined_rollback:
  assumes k: "disciplined v in_turn k"
  shows "disciplined v in_turn (rollback opts req cause k)"
  unfolding rollback_def disciplined_plumbing
  by (rule disciplined_apply)
    (auto simp: disciplined_plumbing k revertMain_def disciplined_revert_loop
      split: option.split intro!: disciplined_revert_loop)

lemma disciplined_converge:
  assumes k: "disciplined v in_turn k"
  shows "disciplined v in_turn (converge opts req k)"
proof -
  have pin: "disciplined v in_turn (converge_pin opts req m k)" for m
    unfolding converge_pin_def Let_def disciplined_plumbing
    by (rule disciplined_apply) (simp add: disciplined_plumbing k split: option.split)
  show ?thesis
    unfolding converge_def
    by (auto simp: safe_SCall safe_RepoManifest safe_ECall disciplined_plumbing k pin
        split: sum.splits option.splits intro!: locks.safe_syncFailure)
qed

lemma disciplined_land:
  assumes k: "disciplined v in_turn k"
  shows "disciplined v in_turn (land opts req sha k)"
proof -
  have "disciplined v in_turn (applyMerged opts req' (\<lambda>r. case r of
      None \<Rightarrow> finish opts req' StateHealthy d k | Some e \<Rightarrow> rollback opts req' e k))" for req' d
    by (rule disciplined_apply) (simp add: disciplined_plumbing k disciplined_rollback split: option.split)
  then show ?thesis
    unfolding land_def Let_def
    by (simp add: safe_ECall disciplined_plumbing k split: option.split del: StateHealthy_def)
qed

lemma disciplined_already_pinned:
  assumes k: "disciplined v in_turn k"
  shows "disciplined v in_merge (already_pinned opts req k)"
proof -
  have "disciplined v in_turn (applyMerged opts req (\<lambda>r. case r of
      Some e \<Rightarrow> rollback opts req e k | None \<Rightarrow> finish opts req StateHealthy d k))" for d
    by (rule disciplined_apply) (simp add: disciplined_plumbing k disciplined_rollback split: option.split)
  then show ?thesis
    unfolding already_pinned_def
    by (simp add: safe_SCall disciplined_merge_lock disciplined_plumbing k del: StateHealthy_def)
qed

lemma disciplined_follow_proposal:
  assumes k: "disciplined v in_turn k"
  shows "disciplined v in_merge (follow_proposal opts req pr k)"
proof -
  have "disciplined v in_merge (mergeThroughChecks opts req' pr (\<lambda>merged.
      UCall UnlockMerge (case merged of
          Inl err \<Rightarrow> ECall (PRClose pr (d err)) (\<lambda>_. fail opts req' (err_text err) k)
        | Inr mergeSHA \<Rightarrow> land opts req' mergeSHA k)))" for req' d
    by (rule disciplined_apply)
      (simp add: disciplined_merge_lock disciplined_land k safe_ECall disciplined_plumbing split: sum.split)
  then show ?thesis
    unfolding follow_proposal_def Let_def
    by (simp add: safe_ECall disciplined_plumbing disciplined_merge_lock k split: option.split)
qed

lemma disciplined_propose:
  assumes k: "disciplined v in_turn k"
  shows "disciplined v in_merge (propose opts req m raw k)"
  unfolding propose_def Let_def
  by (simp add: safe_OpenManifestPR disciplined_merge_lock disciplined_plumbing
      disciplined_follow_proposal k split: sum.split)

lemma disciplined_run_turn:
  assumes k: "disciplined v in_turn k"
  shows "disciplined v in_turn (run_turn opts req k)"
  unfolding run_turn_def
  by (auto simp: disciplined_merge_lock safe_RepoManifest disciplined_plumbing disciplined_converge
      disciplined_already_pinned disciplined_propose k split: sum.splits)

lemma run_disciplined: "disciplined (rq_service req) unlocked (run opts req)"
proof -
  have k: "disciplined (rq_service req) in_turn (UCall (UnlockService (rq_service req)) Stop)"
    by (simp add: safe_UCall safe_Stop)
  have lock: "disciplined (rq_service req) unlocked (lock (rq_service req) g)"
    if "disciplined (rq_service req) in_turn (g None)"
      and "\<And>e. disciplined (rq_service req) unlocked (g (Some e))" for g
    using that by (auto simp: lock_def safe_UCall safe_ECall unlocked_def in_turn_def
        split: option.splits) (metis not_None_eq)
  show ?thesis
    unfolding run_def disciplined_plumbing
    by (auto simp: safe_SCall safe_Stop disciplined_plumbing disciplined_run_turn [OF k]
        split: sum.splits intro!: locks.safe_syncFailure lock)
qed

text \<open>
  C19. Lock discipline. Every run takes its service's turn before the merge lock and gives both
  back; it opens, checks, updates and merges pull requests only under both, writes, restarts and
  probes only under the service's turn with the merge lock released, counts itself in the queue
  gauge exactly while it waits, and ends holding nothing, on every path.
\<close>

theorem run_lock_discipline:
  "safe (lock_monitor (rq_service req)) (\<lambda>s. s = unlocked) unlocked (run opts req)"
  by (rule run_disciplined)

end
