(* ===== verification/Pool.thy ===== *)
theory Pool
  imports Locks Sample_Runs
begin

text \<open>
  The engine with many runs in flight: clicks (\<open>Deploy\<close>, \<open>Rollback\<close>, \<open>Converge\<close>), the map of
  pending runs they join, the service channels, the merge mutex and the two gauges, and the
  goroutines interleaved call by call. A goroutine is the program of its run; everything it asks of
  the outside is answered by anything, the journal by the table it writes to.
\<close>

section \<open>Clicks\<close>

record pending_run =
  pn_action :: string
  pn_digest :: string
  pn_id :: int

type_synonym pending = "string \<rightharpoonup> pending_run"

text \<open>The digest to pin and the content to propose, before anything is journalled.\<close>

definition not_a_pin :: "string \<Rightarrow> go_error" where
  "not_a_pin digest = errorf (quote digest @ '' is not a sha256 digest pin'')"

definition err_AlreadyAtDigest :: go_error where
  "err_AlreadyAtDigest =
     \<lparr>err_text = ''service is already pinned to that digest'', err_chain = [ErrAlreadyAtDigest]\<rparr>"

definition resolve_click ::
    "(manifest \<times> string) result \<Rightarrow> string \<Rightarrow> string \<Rightarrow> (string \<Rightarrow> string result) \<Rightarrow>
     (string \<times> string \<times> string \<times> string) result" where
  "resolve_click answer action service resolve =
     (case answer of
        Inl err \<Rightarrow> Inl err
      | Inr (current, raw) \<Rightarrow>
     (case resolve (digest_of current) of
        Inl err \<Rightarrow> Inl err
      | Inr digest \<Rightarrow>
          if \<not> digest_pattern digest then Inl (not_a_pin digest)
          else if action = ActionConverge then Inr (digest_of current, digest, raw, raw)
          else if digest_of current = digest
          then Inl (wrap_in (service @ '': '') err_AlreadyAtDigest ('' ('' @ digest @ '')''))
          else
            (case setDigest raw (digest_of current) digest of
               Inl err \<Rightarrow> Inl err
             | Inr newContent \<Rightarrow> Inr (digest_of current, digest, raw, newContent))))"

definition same_kind :: "string \<Rightarrow> string \<Rightarrow> bool" where
  "same_kind action action' \<longleftrightarrow> (action = ActionConverge) = (action' = ActionConverge)"

definition begin_entry :: "string \<Rightarrow> string \<Rightarrow> string \<Rightarrow> string \<Rightarrow> string \<Rightarrow> int \<Rightarrow> entry" where
  "begin_entry service action actor old new now =
     \<lparr>ent_ID = 0, ent_Service = service, ent_Action = action, ent_Actor = actor,
      ent_OldDigest = old, ent_NewDigest = new, ent_PRNumber = 0, ent_MergeSHA = [],
      ent_State = StateDetected, ent_Detail = [], ent_StartedAt = Some now,
      ent_FinishedAt = None\<rparr>"

text \<open>
  \<open>start\<close>: the answer to the click, the run it launched if it launched one, and the pending map
  and journal after the critical section.
\<close>

definition start ::
    "(manifest \<times> string) result \<Rightarrow> string \<Rightarrow> string \<Rightarrow> string \<Rightarrow> (string \<Rightarrow> string result) \<Rightarrow>
     db_fault option \<Rightarrow> int \<Rightarrow> pending \<Rightarrow> journal \<Rightarrow>
     (int \<times> bool) result \<times> run_request option \<times> pending \<times> journal" where
  "start answer action service actor resolve fault now pend j =
     (case resolve_click answer action service resolve of
        Inl err \<Rightarrow> (Inl err, None, pend, j)
      | Inr (old, digest, raw, newContent) \<Rightarrow>
     (let launch = (case journal_Begin fault now (begin_entry service action actor old digest now) j of
            (Inl err, j') \<Rightarrow> (Inl err, None, pend, j')
          | (Inr i, j') \<Rightarrow>
              (Inr (i, False),
               Some \<lparr>rq_id = i, rq_action = action, rq_service = service, rq_oldDigest = old,
                     rq_newDigest = digest, rq_originalRaw = raw, rq_newContent = newContent,
                     rq_prNumber = 0, rq_prURL = [], rq_mergeURL = [], rq_detailPrefix = []\<rparr>,
               (if pend service = None
                then pend(service \<mapsto> \<lparr>pn_action = action, pn_digest = digest, pn_id = i\<rparr>)
                else pend),
               j'))
      in case pend service of
           Some p \<Rightarrow>
             if same_kind (pn_action p) action \<and> pn_digest p = digest
             then (Inr (pn_id p, True), None, pend, j) else launch
         | None \<Rightarrow> launch))"

definition Deploy ::
    "(manifest \<times> string) result \<Rightarrow> string \<Rightarrow> string \<Rightarrow> string \<Rightarrow> db_fault option \<Rightarrow> int \<Rightarrow>
     pending \<Rightarrow> journal \<Rightarrow> (int \<times> bool) result \<times> run_request option \<times> pending \<times> journal" where
  "Deploy answer service digest actor fault now pend j =
     (if \<not> digest_pattern digest then (Inl (not_a_pin digest), None, pend, j)
      else start answer ActionDeploy service actor (\<lambda>_. Inr digest) fault now pend j)"

definition Rollback ::
    "(manifest \<times> string) result \<Rightarrow> string \<Rightarrow> string \<Rightarrow> string \<Rightarrow> db_fault option \<Rightarrow> db_fault option \<Rightarrow>
     int \<Rightarrow> pending \<Rightarrow> journal \<Rightarrow> (int \<times> bool) result \<times> run_request option \<times> pending \<times> journal" where
  "Rollback answer service toDigest actor qfault fault now pend j =
     (if toDigest \<noteq> [] \<and> \<not> digest_pattern toDigest
      then (Inl (not_a_pin toDigest), None, pend, j)
      else start answer ActionRollback service actor
             (\<lambda>current. if toDigest \<noteq> [] then Inr toDigest
                        else PreviousHealthyDigest qfault service current j)
             fault now pend j)"

definition Converge ::
    "(manifest \<times> string) result \<Rightarrow> string \<Rightarrow> string \<Rightarrow> db_fault option \<Rightarrow> int \<Rightarrow>
     pending \<Rightarrow> journal \<Rightarrow> (int \<times> bool) result \<times> run_request option \<times> pending \<times> journal" where
  "Converge answer service actor fault now pend j =
     start answer ActionConverge service actor (\<lambda>current. Inr current) fault now pend j"

section \<open>Runs in flight\<close>

record thread =
  th_req :: run_request
  th_prog :: prog

record pool =
  pl_journal :: journal
  pl_pending :: pending
  pl_runs :: "int \<rightharpoonup> thread"
  pl_busy :: "string set"
  pl_merging :: bool
  pl_queued :: int
  pl_inFlight :: int

definition new_pool :: "journal \<Rightarrow> pool" where
  "new_pool j = \<lparr>pl_journal = j, pl_pending = Map.empty, pl_runs = Map.empty, pl_busy = {},
     pl_merging = False, pl_queued = 0, pl_inFlight = 0\<rparr>"

text \<open>A run's journal call, on the table.\<close>

fun journal_call :: "db_fault option \<Rightarrow> int \<Rightarrow> ecall \<Rightarrow> journal \<Rightarrow> (go_error option \<times> journal) option" where
  "journal_call f now (JProgress i st d) j = Some (journal_Progress f i st d j)"
| "journal_call f now (JFinish i st d) j = Some (journal_Finish f now i st d j)"
| "journal_call f now (JSetPR i n) j = Some (journal_SetPR f i n j)"
| "journal_call f now (JSetDigests i old new) j = Some (journal_SetDigests f i old new j)"
| "journal_call f now (JSetMergeSHA i sha) j = Some (journal_SetMergeSHA f i sha j)"
| "journal_call f now _ j = None"

text \<open>The shared state a call changes, or \<open>None\<close> while it cannot be made.\<close>

fun ucall_effect :: "ucall \<Rightarrow> pool \<Rightarrow> pool option" where
  "ucall_effect LockMerge P = (if pl_merging P then None else Some (P\<lparr>pl_merging := True\<rparr>))"
| "ucall_effect UnlockMerge P = Some (P\<lparr>pl_merging := False\<rparr>)"
| "ucall_effect (UnlockService v) P = Some (P\<lparr>pl_busy := pl_busy P - {v}\<rparr>)"
| "ucall_effect (QueuedAdd n) P = Some (P\<lparr>pl_queued := pl_queued P + n\<rparr>)"
| "ucall_effect (Notify ev) P = Some P"

definition goes_on :: "pool \<Rightarrow> int \<Rightarrow> thread \<Rightarrow> prog \<Rightarrow> pool" where
  "goes_on P i th p = P\<lparr>pl_runs := (pl_runs P)(i \<mapsto> th\<lparr>th_prog := p\<rparr>)\<rparr>"

text \<open>What a run does to the pending map when it is over: only its own registration goes.\<close>

definition forget :: "string \<Rightarrow> int \<Rightarrow> pending \<Rightarrow> pending" where
  "forget service i pend =
     (case pend service of
        Some p \<Rightarrow> if pn_id p = i then pend(service := None) else pend
      | None \<Rightarrow> pend)"

text \<open>One call of one goroutine. \<open>cancelled\<close> says whether the base context is over.\<close>

inductive thread_step :: "bool \<Rightarrow> pool \<Rightarrow> pool \<Rightarrow> bool" for cancelled where
  ucall: "pl_runs P i = Some th \<Longrightarrow> th_prog th = UCall c p \<Longrightarrow> ucall_effect c P = Some P' \<Longrightarrow>
    thread_step cancelled P (goes_on P' i th p)"
| locked: "pl_runs P i = Some th \<Longrightarrow> th_prog th = ECall (LockService v) k \<Longrightarrow> v \<notin> pl_busy P \<Longrightarrow>
    thread_step cancelled P (goes_on (P\<lparr>pl_busy := insert v (pl_busy P)\<rparr>) i th (k None))"
| abandoned: "pl_runs P i = Some th \<Longrightarrow> th_prog th = ECall (LockService v) k \<Longrightarrow> cancelled \<Longrightarrow>
    thread_step cancelled P (goes_on P i th (k (Some e)))"
| journalled: "pl_runs P i = Some th \<Longrightarrow> th_prog th = ECall c k \<Longrightarrow>
    journal_call f now c (pl_journal P) = Some (r, j) \<Longrightarrow>
    thread_step cancelled P (goes_on (P\<lparr>pl_journal := j\<rparr>) i th (k r))"
| asked: "pl_runs P i = Some th \<Longrightarrow> th_prog th = ECall c k \<Longrightarrow> \<forall>v. c \<noteq> LockService v \<Longrightarrow>
    journal_call None 0 c (pl_journal P) = None \<Longrightarrow> thread_step cancelled P (goes_on P i th (k r))"
| scall: "pl_runs P i = Some th \<Longrightarrow> th_prog th = SCall c l \<Longrightarrow>
    thread_step cancelled P (goes_on P i th (l r))"
| manifest: "pl_runs P i = Some th \<Longrightarrow> th_prog th = RepoManifest s km \<Longrightarrow>
    thread_step cancelled P (goes_on P i th (km rm))"
| sync_state: "pl_runs P i = Some th \<Longrightarrow> th_prog th = RepoSyncState ks \<Longrightarrow>
    thread_step cancelled P (goes_on P i th (ks rs))"
| open_pr: "pl_runs P i = Some th \<Longrightarrow> th_prog th = OpenManifestPR s c ti b ko \<Longrightarrow>
    thread_step cancelled P (goes_on P i th (ko ro))"
| wait_checks: "pl_runs P i = Some th \<Longrightarrow> th_prog th = WaitChecks n d kw \<Longrightarrow>
    thread_step cancelled P (goes_on P i th (kw rw))"
| pause: "pl_runs P i = Some th \<Longrightarrow> th_prog th = Pause d kp \<Longrightarrow>
    thread_step cancelled P (goes_on P i th (kp rp))"
| clock: "pl_runs P i = Some th \<Longrightarrow> th_prog th = Now kn \<Longrightarrow>
    thread_step cancelled P (goes_on P i th (kn rn))"
| ended: "pl_runs P i = Some th \<Longrightarrow> th_prog th = Stop \<Longrightarrow>
    thread_step cancelled P
      (P\<lparr>pl_runs := (pl_runs P)(i := None), pl_inFlight := pl_inFlight P - 1,
         pl_pending := forget (rq_service (th_req th)) i (pl_pending P)\<rparr>)"

text \<open>A click: the answer it gets and the pool after it.\<close>

definition click ::
    "options \<Rightarrow> (manifest \<times> string) result \<Rightarrow> string \<Rightarrow> string \<Rightarrow> string \<Rightarrow> (string \<Rightarrow> string result) \<Rightarrow>
     db_fault option \<Rightarrow> int \<Rightarrow> pool \<Rightarrow> (int \<times> bool) result \<times> pool" where
  "click opts answer action service actor resolve fault now P =
     (case start answer action service actor resolve fault now (pl_pending P) (pl_journal P) of
        (res, launched, pend, j) \<Rightarrow>
          (res, case launched of
             None \<Rightarrow> P\<lparr>pl_pending := pend, pl_journal := j\<rparr>
           | Some req \<Rightarrow> P\<lparr>pl_pending := pend, pl_journal := j,
               pl_runs := (pl_runs P)(rq_id req \<mapsto> \<lparr>th_req = req, th_prog = run opts req\<rparr>),
               pl_inFlight := pl_inFlight P + 1\<rparr>))"

inductive pool_step :: "options \<Rightarrow> pool \<Rightarrow> pool \<Rightarrow> bool" for opts where
  step: "thread_step cancelled P P' \<Longrightarrow> pool_step opts P P'"
| clicked: "click opts answer action service actor resolve fault now P = (res, P') \<Longrightarrow>
    pool_step opts P P'"

inductive reachable :: "options \<Rightarrow> pool \<Rightarrow> bool" for opts where
  init: "journal_inv j \<Longrightarrow> reachable opts (new_pool j)"
| more: "reachable opts P \<Longrightarrow> pool_step opts P P' \<Longrightarrow> reachable opts P'"

section \<open>Exclusive resources\<close>

text \<open>
  \<open>wants i k\<close>: agent \<open>i\<close> competes for resource \<open>k\<close>; \<open>has i\<close>: it has it. At most one agent has each
  resource, and \<open>taken\<close> says which resources are had.
\<close>

definition owned :: "(int \<Rightarrow> 'k \<Rightarrow> bool) \<Rightarrow> (int \<Rightarrow> bool) \<Rightarrow> 'k set \<Rightarrow> bool" where
  "owned wants has taken \<longleftrightarrow>
     (\<forall>i j k. wants i k \<longrightarrow> wants j k \<longrightarrow> has i \<longrightarrow> has j \<longrightarrow> i = j) \<and>
     (\<forall>k. k \<in> taken \<longleftrightarrow> (\<exists>i. wants i k \<and> has i))"

lemma owned_unique: "owned wants has taken \<Longrightarrow> wants i k \<Longrightarrow> wants j k \<Longrightarrow> has i \<Longrightarrow> has j \<Longrightarrow> i = j"
  by (simp add: owned_def)

lemma owned_taken: "owned wants has taken \<Longrightarrow> k \<in> taken \<longleftrightarrow> (\<exists>i. wants i k \<and> has i)"
  by (simp add: owned_def)

lemma ownedI:
  "(\<And>i j k. wants i k \<Longrightarrow> wants j k \<Longrightarrow> has i \<Longrightarrow> has j \<Longrightarrow> i = j) \<Longrightarrow>
   (\<And>k. k \<in> taken \<longleftrightarrow> (\<exists>i. wants i k \<and> has i)) \<Longrightarrow> owned wants has taken"
  unfolding owned_def by blast

lemma owned_take:
  assumes o: "owned wants has taken" and i: "wants i k" "\<And>l. wants i l \<Longrightarrow> l = k" and "k \<notin> taken"
  shows "owned wants (has(i := True)) (insert k taken)"
proof (rule ownedI)
  have no: "wants j k \<Longrightarrow> \<not> has j" for j using assms(4) owned_taken [OF o] by blast
  show "p = q" if "wants p l" "wants q l" "(has(i := True)) p" "(has(i := True)) q" for p q l
    using that no i(2) [of l] owned_unique [OF o, of p l q] by (cases "p = i"; cases "q = i") auto
  show "l \<in> insert k taken \<longleftrightarrow> (\<exists>p. wants p l \<and> (has(i := True)) p)" for l
  proof (cases "l = k")
    case False
    then have "\<not> wants i l" using i(2) by blast
    then have "wants p l \<and> (has(i := True)) p \<longleftrightarrow> wants p l \<and> has p" for p by auto
    then show ?thesis using owned_taken [OF o, of l] False by simp
  qed (use i(1) in auto)
qed

lemma owned_release:
  assumes o: "owned wants has taken" and i: "wants i k" "\<And>l. wants i l \<Longrightarrow> l = k" and "has i"
  shows "owned wants (has(i := False)) (taken - {k})"
proof (rule ownedI)
  show "p = q" if "wants p l" "wants q l" "(has(i := False)) p" "(has(i := False)) q" for p q l
  proof -
    have "has p" "has q" using that(3,4) by (simp_all split: if_splits)
    then show ?thesis using owned_unique [OF o that(1,2)] by blast
  qed
  show "l \<in> taken - {k} \<longleftrightarrow> (\<exists>p. wants p l \<and> (has(i := False)) p)" for l
  proof (cases "l = k")
    case True
    have "p = i" if "wants p k" "has p" for p using owned_unique [OF o that(1) i(1) that(2) assms(4)] .
    then show ?thesis using True by auto
  next
    case False
    then have "\<not> wants i l" using i(2) by blast
    then have "wants p l \<and> (has(i := False)) p \<longleftrightarrow> wants p l \<and> has p" for p by auto
    then show ?thesis using owned_taken [OF o, of l] False by simp
  qed
qed

lemma owned_update:
  assumes o: "owned wants has taken" and i: "wants i k" "\<And>l. wants i l \<Longrightarrow> l = k"
    and free: "b \<Longrightarrow> \<not> has i \<Longrightarrow> k \<notin> taken"
  shows "owned wants (has(i := b)) (if b then insert k taken else if has i then taken - {k} else taken)"
proof (cases "has i = b")
  case True
  have "k \<in> taken" if "has i" using o i(1) that unfolding owned_def by blast
  with True o show ?thesis by (cases b) (auto simp: insert_absorb fun_upd_idem)
next
  case False
  then show ?thesis
    using owned_take [OF o i free] owned_release [OF o i] by (cases b) auto
qed

lemma owned_cong:
  assumes o: "owned wants has taken"
    and eq: "\<And>i k. wants' i k \<and> has' i \<longleftrightarrow> wants i k \<and> has i"
  shows "owned wants' has' taken"
proof (rule ownedI)
  show "i = j" if "wants' i k" "wants' j k" "has' i" "has' j" for i j k
    using owned_unique [OF o, of i k j] eq [of i k] eq [of j k] that by blast
  show "k \<in> taken \<longleftrightarrow> (\<exists>i. wants' i k \<and> has' i)" for k
    unfolding owned_taken [OF o] eq ..
qed

section \<open>The locks of the pool are the locks of its runs\<close>

definition in_flight :: "pool \<Rightarrow> int \<Rightarrow> string \<Rightarrow> bool" where
  "in_flight P i v \<longleftrightarrow> (\<exists>th. pl_runs P i = Some th \<and> rq_service (th_req th) = v)"

definition running :: "pool \<Rightarrow> int \<Rightarrow> unit \<Rightarrow> bool" where
  "running P i u \<longleftrightarrow> i \<in> dom (pl_runs P)"

definition merge_lock :: "bool \<Rightarrow> unit set" where
  "merge_lock b = (if b then {()} else {})"

text \<open>
  \<open>g\<close> is the lock state each run has reached. Every run is disciplined from there on, at most one
  run per service has the turn, at most one merges, and the shared state says exactly who.
\<close>

definition well_locked :: "pool \<Rightarrow> (int \<Rightarrow> lock_state) \<Rightarrow> bool" where
  "well_locked P g \<longleftrightarrow>
     finite (dom (pl_runs P)) \<and>
     (\<forall>i th. pl_runs P i = Some th \<longrightarrow> rq_id (th_req th) = i \<and>
        disciplined (rq_service (th_req th)) (g i) (th_prog th)) \<and>
     owned (in_flight P) (\<lambda>i. ls_held (g i)) (pl_busy P) \<and>
     owned (running P) (\<lambda>i. ls_merging (g i)) (merge_lock (pl_merging P)) \<and>
     pl_queued P = (\<Sum>i \<in> dom (pl_runs P). ls_waiting (g i)) \<and>
     (\<forall>i. ls_waiting (g i) \<in> {0, 1} \<and> (ls_merging (g i) \<longrightarrow> ls_held (g i)))"

text \<open>What a call may do to the shared state, given what it does to the run's own lock state.\<close>

definition shares :: "string \<Rightarrow> lock_state \<Rightarrow> lock_state \<Rightarrow> pool \<Rightarrow> pool \<Rightarrow> bool" where
  "shares v s s' P P' \<longleftrightarrow>
     pl_runs P' = pl_runs P \<and>
     pl_busy P' = (if ls_held s' then insert v (pl_busy P)
                   else if ls_held s then pl_busy P - {v} else pl_busy P) \<and>
     (ls_held s' \<longrightarrow> \<not> ls_held s \<longrightarrow> v \<notin> pl_busy P) \<and>
     pl_merging P' = (ls_merging s' \<or> \<not> ls_merging s \<and> pl_merging P) \<and>
     (ls_merging s' \<longrightarrow> \<not> ls_merging s \<longrightarrow> \<not> pl_merging P) \<and>
     pl_queued P' = pl_queued P + ls_waiting s' - ls_waiting s \<and>
     ls_waiting s' \<in> {0, 1} \<and> (ls_merging s' \<longrightarrow> ls_held s')"

lemma goes_on_sel:
  assumes "pl_runs P i = Some th" "pl_runs P' = pl_runs P"
  shows "in_flight (goes_on P' i th p) = in_flight P" "running (goes_on P' i th p) = running P"
    "dom (pl_runs (goes_on P' i th p)) = dom (pl_runs P)" "pl_busy (goes_on P' i th p) = pl_busy P'"
    "pl_merging (goes_on P' i th p) = pl_merging P'" "pl_queued (goes_on P' i th p) = pl_queued P'"
  using assms by (auto simp: in_flight_def running_def goes_on_def fun_eq_iff)

lemma owned_goes_on:
  assumes w: "well_locked P g" and run: "pl_runs P i = Some th"
    and sh: "shares (rq_service (th_req th)) (g i) s' P P'"
  shows "owned (in_flight P) (\<lambda>j. ls_held ((g(i := s')) j)) (pl_busy P')"
    and "owned (running P) (\<lambda>j. ls_merging ((g(i := s')) j)) (merge_lock (pl_merging P'))"
proof -
  let ?v = "rq_service (th_req th)"
  have iv: "in_flight P i ?v" "in_flight P i u \<Longrightarrow> u = ?v" "running P i ()" for u
    using run by (auto simp: in_flight_def running_def)
  have upd: "(\<lambda>j. ls_held ((g(i := s')) j)) = (\<lambda>j. ls_held (g j))(i := ls_held s')"
    "(\<lambda>j. ls_merging ((g(i := s')) j)) = (\<lambda>j. ls_merging (g j))(i := ls_merging s')"
    by auto
  have o: "owned (in_flight P) (\<lambda>i. ls_held (g i)) (pl_busy P)"
    "owned (running P) (\<lambda>i. ls_merging (g i)) (merge_lock (pl_merging P))"
    using w by (simp_all add: well_locked_def)
  have b: "pl_busy P' = (if ls_held s' then insert ?v (pl_busy P)
        else if ls_held (g i) then pl_busy P - {?v} else pl_busy P)"
    "merge_lock (pl_merging P') = (if ls_merging s' then insert () (merge_lock (pl_merging P))
        else if ls_merging (g i) then merge_lock (pl_merging P) - {()} else merge_lock (pl_merging P))"
    using sh by (auto simp: shares_def merge_lock_def)
  show "owned (in_flight P) (\<lambda>j. ls_held ((g(i := s')) j)) (pl_busy P')"
    unfolding upd b by (rule owned_update [OF o(1) iv(1,2)]) (use sh in \<open>simp_all add: shares_def\<close>)
  show "owned (running P) (\<lambda>j. ls_merging ((g(i := s')) j)) (merge_lock (pl_merging P'))"
    unfolding upd b by (rule owned_update [OF o(2) iv(3)]) (use sh in \<open>simp_all add: shares_def merge_lock_def\<close>)
qed

lemma well_locked_goes_on:
  assumes w: "well_locked P g" and run: "pl_runs P i = Some th"
    and sh: "shares (rq_service (th_req th)) (g i) s' P P'"
    and d: "disciplined (rq_service (th_req th)) s' p"
  shows "well_locked (goes_on P' i th p) (g(i := s'))"
proof -
  let ?v = "rq_service (th_req th)"
  have runs: "pl_runs P' = pl_runs P" using sh by (simp add: shares_def)
  note sel = goes_on_sel [OF run runs, of p]
  have i: "i \<in> dom (pl_runs P)" using run by auto
  have fin: "finite (dom (pl_runs P))" using w by (simp add: well_locked_def)
  have progs: "\<forall>j th'. pl_runs (goes_on P' i th p) j = Some th' \<longrightarrow> rq_id (th_req th') = j \<and>
      disciplined (rq_service (th_req th')) ((g(i := s')) j) (th_prog th')"
    using w run d runs by (auto simp: goes_on_def well_locked_def)
  note locks = owned_goes_on [OF w run sh]
  have "pl_queued P' = pl_queued P + ls_waiting s' - ls_waiting (g i)"
    using sh by (simp add: shares_def)
  also have "\<dots> = (\<Sum>j \<in> dom (pl_runs P). ls_waiting ((g(i := s')) j))"
    using w by (simp add: well_locked_def sum.remove [OF fin i])
  finally have queued: "pl_queued P' = (\<Sum>j \<in> dom (pl_runs P). ls_waiting ((g(i := s')) j))" .
  have bounds: "\<forall>j. ls_waiting ((g(i := s')) j) \<in> {0, 1} \<and>
      (ls_merging ((g(i := s')) j) \<longrightarrow> ls_held ((g(i := s')) j))"
    using w sh by (simp add: well_locked_def shares_def)
  show ?thesis
    unfolding well_locked_def sel using fin progs locks queued bounds by blast
qed

section \<open>Every step keeps the locks\<close>

definition lock_call :: "obs \<Rightarrow> bool" where
  "lock_call x \<longleftrightarrow>
     (case x of
        OU (Notify _) \<Rightarrow> False | OU _ \<Rightarrow> True | OE (LockService _) _ \<Rightarrow> True | _ \<Rightarrow> False)"

lemma require_Some: "require b s = Some t \<longleftrightarrow> b \<and> t = s"
  by (auto simp: require_def)

lemma lock_monitor_quiet: "lock_monitor v s x = Some s' \<Longrightarrow> \<not> lock_call x \<Longrightarrow> s' = s"
  by (cases "(v, s, x)" rule: lock_monitor.cases) (auto simp: lock_call_def require_Some)

lemma afterD: "after mon fin o' p \<Longrightarrow> \<exists>s. o' = Some s \<and> safe mon fin s p"
  by (cases o') auto

lemma well_lockedD:
  assumes "well_locked P g" "pl_runs P i = Some th"
  shows "disciplined (rq_service (th_req th)) (g i) (th_prog th)"
    "ls_held (g i) \<Longrightarrow> rq_service (th_req th) \<in> pl_busy P"
    "ls_merging (g i) \<Longrightarrow> pl_merging P" "ls_merging (g i) \<Longrightarrow> ls_held (g i)"
    "ls_waiting (g i) \<in> {0, 1}"
proof -
  show "disciplined (rq_service (th_req th)) (g i) (th_prog th)" "ls_merging (g i) \<Longrightarrow> ls_held (g i)"
    "ls_waiting (g i) \<in> {0, 1}"
    using assms by (auto simp: well_locked_def)
  show "ls_held (g i) \<Longrightarrow> rq_service (th_req th) \<in> pl_busy P"
    using assms by (auto simp: well_locked_def owned_def in_flight_def)
  have "running P i ()" using assms(2) by (auto simp: running_def)
  then show "ls_merging (g i) \<Longrightarrow> pl_merging P"
    using assms(1) by (auto simp: well_locked_def owned_def merge_lock_def split: if_splits)
qed

text \<open>A call that is no lock call leaves the shared state and the run's lock state alone.\<close>

lemma well_locked_quiet:
  assumes w: "well_locked P g" and run: "pl_runs P i = Some th"
    and x: "after (lock_monitor (rq_service (th_req th))) (\<lambda>s. s = unlocked)
              (lock_monitor (rq_service (th_req th)) (g i) x) p" "\<not> lock_call x"
  shows "\<exists>g'. well_locked (goes_on (P\<lparr>pl_journal := j\<rparr>) i th p) g'"
proof -
  obtain s' where s': "lock_monitor (rq_service (th_req th)) (g i) x = Some s'"
      and d: "disciplined (rq_service (th_req th)) s' p"
    using afterD [OF x(1)] by blast
  have same: "s' = g i" by (rule lock_monitor_quiet [OF s' x(2)])
  have "shares (rq_service (th_req th)) (g i) s' P (P\<lparr>pl_journal := j\<rparr>)"
    unfolding same shares_def using well_lockedD [OF w run] by (auto simp: insert_absorb)
  then show ?thesis using well_locked_goes_on [OF w run _ d] by blast
qed

lemma well_locked_answered:
  "well_locked P g \<Longrightarrow> pl_runs P i = Some th \<Longrightarrow>
   after (lock_monitor (rq_service (th_req th))) (\<lambda>s. s = unlocked)
     (lock_monitor (rq_service (th_req th)) (g i) x) p \<Longrightarrow> \<not> lock_call x \<Longrightarrow>
   \<exists>g'. well_locked (goes_on P i th p) g'"
  using well_locked_quiet [of P g i th x p "pl_journal P"] by simp

lemma lock_call_simps:
  "\<not> lock_call (OS c r)" "\<not> lock_call (OManifest s rm)" "\<not> lock_call (OSyncState rs)"
  "\<not> lock_call (OOpenPR s x t b ro)" "\<not> lock_call (OWaitChecks n d rw)" "\<not> lock_call (OPause d rp)"
  "\<not> lock_call (ONow n)"
  by (simp_all add: lock_call_def)

lemma well_locked_ucall:
  assumes w: "well_locked P g" and run: "pl_runs P i = Some th" and p: "th_prog th = UCall c p"
    and e: "ucall_effect c P = Some P'"
  shows "\<exists>g'. well_locked (goes_on P' i th p) g'"
proof -
  let ?v = "rq_service (th_req th)"
  note wd = well_lockedD [OF w run]
  have "after (lock_monitor ?v) (\<lambda>s. s = unlocked) (lock_monitor ?v (g i) (OU c)) p"
    using wd(1) unfolding p safe_UCall .
  then obtain s' where s': "lock_monitor ?v (g i) (OU c) = Some s'" and d: "disciplined ?v s' p"
    using afterD by blast
  have "shares ?v (g i) s' P P'"
    using s' e wd(2-5)
    by (cases c) (auto simp: require_Some shares_def in_turn_def in_merge_def unlocked_def insert_absorb
        split: if_splits)
  then show ?thesis using well_locked_goes_on [OF w run _ d] by blast
qed

lemma well_locked_locked:
  assumes w: "well_locked P g" and run: "pl_runs P i = Some th"
    and p: "th_prog th = ECall (LockService v) k" and free: "v \<notin> pl_busy P"
  shows "\<exists>g'. well_locked (goes_on (P\<lparr>pl_busy := insert v (pl_busy P)\<rparr>) i th (k None)) g'"
proof -
  let ?v = "rq_service (th_req th)"
  note wd = well_lockedD [OF w run]
  have "after (lock_monitor ?v) (\<lambda>s. s = unlocked) (lock_monitor ?v (g i) (OE (LockService v) None)) (k None)"
    using wd(1) unfolding p safe_ECall by blast
  then obtain s' where s': "lock_monitor ?v (g i) (OE (LockService v) None) = Some s'"
      and d: "disciplined ?v s' (k None)"
    using afterD by blast
  have "shares ?v (g i) s' P (P\<lparr>pl_busy := insert v (pl_busy P)\<rparr>)"
    using s' free wd(2-5) by (auto simp: require_Some shares_def)
  then show ?thesis using well_locked_goes_on [OF w run _ d] by blast
qed

lemma well_locked_abandoned:
  assumes w: "well_locked P g" and run: "pl_runs P i = Some th"
    and p: "th_prog th = ECall (LockService v) k"
  shows "\<exists>g'. well_locked (goes_on P i th (k (Some e))) g'"
proof -
  let ?v = "rq_service (th_req th)"
  note wd = well_lockedD [OF w run]
  have "after (lock_monitor ?v) (\<lambda>s. s = unlocked) (lock_monitor ?v (g i) (OE (LockService v) (Some e)))
      (k (Some e))"
    using wd(1) unfolding p safe_ECall by blast
  then obtain s' where s': "lock_monitor ?v (g i) (OE (LockService v) (Some e)) = Some s'"
      and d: "disciplined ?v s' (k (Some e))"
    using afterD by blast
  have "shares ?v (g i) s' P P"
    using s' wd(2-5) by (auto simp: require_Some shares_def)
  then show ?thesis using well_locked_goes_on [OF w run _ d] by blast
qed

lemma well_locked_drop:
  assumes w: "well_locked P g" and run: "pl_runs P i = Some th" and p: "th_prog th = Stop"
  shows "well_locked (P\<lparr>pl_runs := (pl_runs P)(i := None), pl_inFlight := n, pl_pending := m\<rparr>) g"
proof -
  have u: "g i = unlocked" using well_lockedD(1) [OF w run] unfolding p safe_Stop .
  let ?Q = "P\<lparr>pl_runs := (pl_runs P)(i := None), pl_inFlight := n, pl_pending := m\<rparr>"
  have fin: "finite (dom (pl_runs P))" and i: "i \<in> dom (pl_runs P)"
    using w run by (auto simp: well_locked_def)
  have o: "owned (in_flight P) (\<lambda>i. ls_held (g i)) (pl_busy P)"
    "owned (running P) (\<lambda>i. ls_merging (g i)) (merge_lock (pl_merging P))"
    using w by (simp_all add: well_locked_def)
  have held: "owned (in_flight ?Q) (\<lambda>i. ls_held (g i)) (pl_busy P)"
    by (rule owned_cong [OF o(1)]) (use u in \<open>auto simp: in_flight_def unlocked_def\<close>)
  have merging: "owned (running ?Q) (\<lambda>i. ls_merging (g i)) (merge_lock (pl_merging P))"
    by (rule owned_cong [OF o(2)]) (use u in \<open>auto simp: running_def unlocked_def\<close>)
  have "(\<Sum>j \<in> dom (pl_runs P). ls_waiting (g j)) = (\<Sum>j \<in> dom (pl_runs P) - {i}. ls_waiting (g j))"
    using u by (simp add: sum.remove [OF fin i] unlocked_def)
  then show ?thesis
    using w held merging by (auto simp: well_locked_def)
qed

text \<open>Every call that takes no lock, with any answer.\<close>

lemma well_locked_answers:
  assumes w: "well_locked P g" and run: "pl_runs P i = Some th"
  shows "th_prog th = SCall c l \<Longrightarrow> \<exists>g'. well_locked (goes_on P i th (l r)) g'"
    and "th_prog th = RepoManifest s km \<Longrightarrow> \<exists>g'. well_locked (goes_on P i th (km rm)) g'"
    and "th_prog th = RepoSyncState ks \<Longrightarrow> \<exists>g'. well_locked (goes_on P i th (ks rs)) g'"
    and "th_prog th = OpenManifestPR s c' ti b ko \<Longrightarrow> \<exists>g'. well_locked (goes_on P i th (ko ro)) g'"
    and "th_prog th = WaitChecks n d kw \<Longrightarrow> \<exists>g'. well_locked (goes_on P i th (kw rw)) g'"
    and "th_prog th = Pause d' kp \<Longrightarrow> \<exists>g'. well_locked (goes_on P i th (kp rp)) g'"
    and "th_prog th = Now kn \<Longrightarrow> \<exists>g'. well_locked (goes_on P i th (kn rn)) g'"
  using well_lockedD(1) [OF w run]
  by (simp_all only: safe_SCall safe_RepoManifest safe_RepoSyncState safe_OpenManifestPR safe_WaitChecks
        safe_Pause safe_Now)
     (rule well_locked_answered [OF w run]; erule allE; (assumption | rule lock_call_simps))+

lemma well_locked_thread_step:
  assumes "thread_step cancelled P P'" "well_locked P g"
  shows "\<exists>g'. well_locked P' g'"
  using assms
proof (induction rule: thread_step.induct)
  case (journalled P i th c k f now r j)
  then have "\<not> lock_call (OE c r)" by (cases c) (auto simp: lock_call_def)
  with journalled well_lockedD(1) [OF journalled(4,1)] show ?case
    by (intro well_locked_quiet [where x = "OE c r" and g = g]) (simp_all add: safe_ECall)
next
  case (asked P i th c k r)
  then have "\<not> lock_call (OE c r)" by (auto simp: lock_call_def split: ecall.split)
  with asked well_lockedD(1) [OF asked(5,1)] have "\<exists>g'. well_locked
      (goes_on (P\<lparr>pl_journal := pl_journal P\<rparr>) i th (k r)) g'"
    by (intro well_locked_quiet [where x = "OE c r" and g = g]) (simp_all add: safe_ECall)
  then show ?case by simp
qed (blast dest: well_locked_ucall well_locked_locked well_locked_abandoned well_locked_drop
      well_locked_answers)+

section \<open>The invariant of the pool\<close>

definition registered :: "pool \<Rightarrow> bool" where
  "registered P \<longleftrightarrow>
     (\<forall>v p. pl_pending P v = Some p \<longrightarrow>
        (\<exists>th. pl_runs P (pn_id p) = Some th \<and> rq_service (th_req th) = v \<and>
              rq_action (th_req th) = pn_action p \<and> rq_newDigest (th_req th) = pn_digest p))"

definition pool_inv :: "pool \<Rightarrow> bool" where
  "pool_inv P \<longleftrightarrow>
     (\<exists>g. well_locked P g) \<and> journal_inv (pl_journal P) \<and> registered P \<and>
     (\<forall>i \<in> dom (pl_runs P). i \<le> j_seq (pl_journal P)) \<and>
     pl_inFlight P = int (card (dom (pl_runs P)))"

lemma journal_call_keeps:
  assumes "journal_call f now c j = Some (r, j')"
  shows "j_seq j' = j_seq j" "journal_inv j \<Longrightarrow> journal_inv j'"
proof -
  have seq: "j_seq (snd (journal_update f i u j)) = j_seq j" for i u
    by (auto simp: journal_update_def Let_def split: option.splits db_fault.splits)
  have inv: "journal_inv (snd (journal_update f i u j))" if "\<And>r. row_id (u r) = row_id r" "journal_inv j"
    for i u using journal_inv_update that by blast
  have "j_seq j' = j_seq j \<and> (journal_inv j \<longrightarrow> journal_inv j')"
    if "journal_update f i u j = (r, j')" "\<And>r. row_id (u r) = row_id r" for i u
    using seq [of i u] inv [of u i] that by auto
  then have "j_seq j' = j_seq j \<and> (journal_inv j \<longrightarrow> journal_inv j')"
    using assms by (cases c) (auto simp: journal_defs)
  then show "j_seq j' = j_seq j" "journal_inv j \<Longrightarrow> journal_inv j'" by auto
qed

lemma pool_inv_goes_on:
  assumes "pool_inv P" "pl_runs P i = Some th" "\<exists>g. well_locked (goes_on P' i th p) g"
    and "pl_runs P' = pl_runs P" "pl_pending P' = pl_pending P" "pl_inFlight P' = pl_inFlight P"
    and "journal_inv (pl_journal P')" "j_seq (pl_journal P') = j_seq (pl_journal P)"
  shows "pool_inv (goes_on P' i th p)"
proof -
  have "registered (goes_on P' i th p)"
    using assms by (fastforce simp: pool_inv_def registered_def goes_on_def)
  moreover have "dom (pl_runs (goes_on P' i th p)) = dom (pl_runs P)"
    using assms(2,4) by (auto simp: goes_on_def)
  ultimately show ?thesis
    using assms by (auto simp: pool_inv_def goes_on_def)
qed

lemma ucall_effect_keeps:
  "ucall_effect c P = Some P' \<Longrightarrow> pl_runs P' = pl_runs P \<and> pl_pending P' = pl_pending P \<and>
     pl_inFlight P' = pl_inFlight P \<and> pl_journal P' = pl_journal P"
  by (cases c) (auto split: if_splits)

lemma forget_Some:
  "forget service i pend v = Some p \<longleftrightarrow> pend v = Some p \<and> \<not> (v = service \<and> pn_id p = i)"
  by (auto simp: forget_def split: option.splits)

lemma registered_drop:
  assumes inv: "registered P" and run: "pl_runs P i = Some th"
  shows "registered (P\<lparr>pl_runs := (pl_runs P)(i := None), pl_inFlight := n,
    pl_pending := forget (rq_service (th_req th)) i (pl_pending P)\<rparr>)"
    (is "registered ?Q")
  unfolding registered_def
proof (intro allI impI)
  fix v p
  assume "pl_pending ?Q v = Some p"
  then have p: "pl_pending P v = Some p" "\<not> (v = rq_service (th_req th) \<and> pn_id p = i)"
    by (simp_all add: forget_Some)
  obtain th' where th': "pl_runs P (pn_id p) = Some th'" "rq_service (th_req th') = v"
      "rq_action (th_req th') = pn_action p" "rq_newDigest (th_req th') = pn_digest p"
    using inv p(1) unfolding registered_def by blast
  have "pn_id p \<noteq> i" using p(2) th'(1,2) run by force
  with th' have "pl_runs ?Q (pn_id p) = Some th'" by simp
  with th'(2-4) show "\<exists>th. pl_runs ?Q (pn_id p) = Some th \<and> rq_service (th_req th) = v \<and>
      rq_action (th_req th) = pn_action p \<and> rq_newDigest (th_req th) = pn_digest p"
    by blast
qed

lemma pool_inv_ended:
  assumes inv: "pool_inv P" and run: "pl_runs P i = Some th" and stop: "th_prog th = Stop"
  shows "pool_inv (P\<lparr>pl_runs := (pl_runs P)(i := None), pl_inFlight := pl_inFlight P - 1,
    pl_pending := forget (rq_service (th_req th)) i (pl_pending P)\<rparr>)"
    (is "pool_inv ?Q")
proof -
  obtain g where g: "well_locked P g" using inv unfolding pool_inv_def by blast
  have w: "\<exists>g. well_locked ?Q g" by (rule exI [of _ g], rule well_locked_drop [OF g run stop])
  have old: "registered P" "journal_inv (pl_journal P)" "pl_inFlight P = int (card (dom (pl_runs P)))"
    "\<forall>i \<in> dom (pl_runs P). i \<le> j_seq (pl_journal P)"
    using inv unfolding pool_inv_def by blast+
  have r: "registered ?Q" by (rule registered_drop [OF old(1) run])
  have "finite (dom (pl_runs P))" using g by (simp add: well_locked_def)
  then have "card (dom (pl_runs P)) = Suc (card (dom (pl_runs P) - {i}))"
    using run by (intro card.remove) auto
  then have "pl_inFlight ?Q = int (card (dom (pl_runs ?Q)))" using old(3) by simp
  moreover have "\<forall>k \<in> dom (pl_runs ?Q). k \<le> j_seq (pl_journal ?Q)" using old(4) by simp
  ultimately show ?thesis unfolding pool_inv_def using w r old(2) by simp
qed

lemma pool_inv_thread_step:
  assumes "thread_step cancelled P P'" "pool_inv P"
  shows "pool_inv P'"
proof -
  obtain g where g: "well_locked P g" using assms(2) by (auto simp: pool_inv_def)
  have w: "\<exists>g'. well_locked P' g'" by (rule well_locked_thread_step [OF assms(1) g])
  have j: "journal_inv (pl_journal P)" using assms(2) by (simp add: pool_inv_def)
  from assms(1) w assms(2) j show ?thesis
  proof (induction rule: thread_step.induct)
    case (ucall P i th c p P')
    then show ?case using ucall_effect_keeps [OF ucall(3)] by (intro pool_inv_goes_on) auto
  next
    case (journalled P i th c k f now r j)
    then show ?case using journal_call_keeps [OF journalled(3)] by (intro pool_inv_goes_on) auto
  next
    case (ended P i th)
    then show ?case by (intro pool_inv_ended)
  qed (rule pool_inv_goes_on; simp)+
qed

lemma journal_Begin_keeps:
  assumes "journal_Begin fault now e j = (r, j')" "journal_inv j"
  shows "journal_inv j'" "j_seq j \<le> j_seq j'" "r = Inr i \<Longrightarrow> i = j_seq j + 1 \<and> j_seq j' = i"
proof -
  show "journal_inv j'" using journal_inv_Begin [OF assms(2), of fault now e] assms(1) by simp
  show "j_seq j \<le> j_seq j'" "r = Inr i \<Longrightarrow> i = j_seq j + 1 \<and> j_seq j' = i"
    using assms(1) by (auto simp: journal_Begin_def Let_def split: option.splits db_fault.splits)
qed

text \<open>What a click can do: be answered without a run, or launch one under a new id.\<close>

lemma start_cases:
  assumes "start answer action service actor resolve fault now pend j = (res, launched, pend', j')"
    and "journal_inv j"
  shows "journal_inv j' \<and> j_seq j \<le> j_seq j' \<and>
    (launched = None \<and> pend' = pend \<or>
     (\<exists>req. launched = Some req \<and> rq_id req = j_seq j + 1 \<and> j_seq j' = rq_id req \<and>
        rq_service req = service \<and> rq_action req = action \<and> res = Inr (rq_id req, False) \<and>
        pend' = (if pend service = None
                 then pend(service \<mapsto> \<lparr>pn_action = action, pn_digest = rq_newDigest req, pn_id = rq_id req\<rparr>)
                 else pend)))"
proof (cases "resolve_click answer action service resolve")
  case (Inl e)
  then show ?thesis using assms by (simp add: start_def)
next
  case (Inr q)
  obtain old digest raw new where q: "q = (old, digest, raw, new)" by (cases q) auto
  obtain r j1 where b: "journal_Begin fault now (begin_entry service action actor old digest now) j = (r, j1)"
    by fastforce
  note keeps = journal_Begin_keeps [OF b assms(2)]
  show ?thesis
    using assms(1,2) keeps unfolding start_def Inr q sum.case prod.case Let_def b
    by (cases r) (auto split: option.splits if_splits)
qed

lemma well_locked_launch:
  assumes w: "well_locked P g" and fresh: "rq_id req \<notin> dom (pl_runs P)"
  shows "well_locked (P\<lparr>pl_pending := pend, pl_journal := j,
      pl_runs := (pl_runs P)(rq_id req \<mapsto> \<lparr>th_req = req, th_prog = run opts req\<rparr>), pl_inFlight := n\<rparr>)
    (g(rq_id req := unlocked))"
    (is "well_locked ?Q ?g")
proof -
  let ?i = "rq_id req"
  have fin: "finite (dom (pl_runs P))" using w by (simp add: well_locked_def)
  have g: "?g j = g j" if "j \<noteq> ?i" for j using that by simp
  have gi: "ls_held (?g ?i) = False" "ls_merging (?g ?i) = False" "ls_waiting (?g ?i) = 0"
    by (simp_all add: unlocked_def)
  have o: "owned (in_flight P) (\<lambda>i. ls_held (g i)) (pl_busy P)"
    "owned (running P) (\<lambda>i. ls_merging (g i)) (merge_lock (pl_merging P))"
    using w by (simp_all add: well_locked_def)
  have "in_flight ?Q j v \<and> ls_held (?g j) \<longleftrightarrow> in_flight P j v \<and> ls_held (g j)" for j v
    using gi fresh by (cases "j = ?i") (auto simp: in_flight_def)
  note held = owned_cong [OF o(1) this]
  have "running ?Q j u \<and> ls_merging (?g j) \<longleftrightarrow> running P j u \<and> ls_merging (g j)" for j u
    using gi fresh by (cases "j = ?i") (auto simp: running_def)
  note merging = owned_cong [OF o(2) this]
  have dom: "dom (pl_runs ?Q) = insert ?i (dom (pl_runs P))" by simp
  have "(\<Sum>j \<in> dom (pl_runs ?Q). ls_waiting (?g j)) = (\<Sum>j \<in> dom (pl_runs P). ls_waiting (?g j))"
    unfolding dom sum.insert [OF fin fresh] gi(3) by simp
  also have "\<dots> = (\<Sum>j \<in> dom (pl_runs P). ls_waiting (g j))"
    using fresh by (intro sum.cong) auto
  finally have queued: "pl_queued ?Q = (\<Sum>j \<in> dom (pl_runs ?Q). ls_waiting (?g j))"
    using w by (simp add: well_locked_def)
  have progs: "\<forall>j th. pl_runs ?Q j = Some th \<longrightarrow> rq_id (th_req th) = j \<and>
      disciplined (rq_service (th_req th)) (?g j) (th_prog th)"
    using w run_disciplined by (auto simp: well_locked_def)
  have bounds: "\<forall>j. ls_waiting (?g j) \<in> {0, 1} \<and> (ls_merging (?g j) \<longrightarrow> ls_held (?g j))"
    using w gi by (auto simp: well_locked_def)
  have "finite (dom (pl_runs ?Q))" using fin by simp
  then show ?thesis
    unfolding well_locked_def using progs held merging queued bounds by simp
qed

lemma registered_launch:
  assumes "registered P" "rq_id req \<notin> dom (pl_runs P)" "rq_service req = v" "rq_action req = a"
    and "pend = (if pl_pending P v = None
           then (pl_pending P)(v \<mapsto> \<lparr>pn_action = a, pn_digest = rq_newDigest req, pn_id = rq_id req\<rparr>)
           else pl_pending P)"
  shows "registered (P\<lparr>pl_pending := pend, pl_journal := j,
      pl_runs := (pl_runs P)(rq_id req \<mapsto> \<lparr>th_req = req, th_prog = p\<rparr>), pl_inFlight := n\<rparr>)"
    (is "registered ?Q")
  unfolding registered_def
proof (intro allI impI)
  fix u q
  assume q: "pl_pending ?Q u = Some q"
  show "\<exists>th. pl_runs ?Q (pn_id q) = Some th \<and> rq_service (th_req th) = u \<and>
      rq_action (th_req th) = pn_action q \<and> rq_newDigest (th_req th) = pn_digest q"
  proof (cases "pl_pending P u = Some q")
    case True
    then obtain th where "pl_runs P (pn_id q) = Some th" "rq_service (th_req th) = u"
        "rq_action (th_req th) = pn_action q" "rq_newDigest (th_req th) = pn_digest q"
      using assms(1) unfolding registered_def by blast
    moreover from this have "pn_id q \<noteq> rq_id req" using assms(2) by auto
    ultimately show ?thesis by simp
  next
    case False
    then show ?thesis using q assms(3-5) by (auto split: if_splits)
  qed
qed

lemma pool_inv_journal:
  assumes "pool_inv P" "journal_inv j" "j_seq (pl_journal P) \<le> j_seq j"
  shows "pool_inv (P\<lparr>pl_journal := j\<rparr>)"
proof -
  obtain g where g: "well_locked P g" using assms(1) unfolding pool_inv_def by blast
  have "well_locked (P\<lparr>pl_journal := j\<rparr>) g"
    using g by (simp add: well_locked_def in_flight_def [abs_def] running_def [abs_def])
  moreover have "registered (P\<lparr>pl_journal := j\<rparr>)" using assms(1) by (simp add: pool_inv_def registered_def)
  moreover have "\<forall>i \<in> dom (pl_runs P). i \<le> j_seq j" using assms(1,3) by (force simp: pool_inv_def)
  ultimately show ?thesis using assms(1,2) unfolding pool_inv_def by auto
qed

lemma pool_inv_click:
  assumes "click opts answer action service actor resolve fault now P = (res, P')" "pool_inv P"
  shows "pool_inv P'"
proof -
  obtain launched pend j where s: "start answer action service actor resolve fault now
      (pl_pending P) (pl_journal P) = (res, launched, pend, j)"
    using assms(1) by (auto simp: click_def split: prod.splits)
  obtain g where g: "well_locked P g" using assms(2) unfolding pool_inv_def by blast
  have old: "registered P" "journal_inv (pl_journal P)" "pl_inFlight P = int (card (dom (pl_runs P)))"
    "\<forall>i \<in> dom (pl_runs P). i \<le> j_seq (pl_journal P)"
    using assms(2) unfolding pool_inv_def by blast+
  note c = start_cases [OF s old(2)]
  show ?thesis
  proof (cases launched)
    case None
    then have P': "P' = P\<lparr>pl_journal := j\<rparr>" using assms(1) s c by (auto simp: click_def)
    show ?thesis unfolding P' using c by (intro pool_inv_journal [OF assms(2)]) auto
  next
    case (Some req)
    then have P': "P' = P\<lparr>pl_pending := pend, pl_journal := j,
        pl_runs := (pl_runs P)(rq_id req \<mapsto> \<lparr>th_req = req, th_prog = run opts req\<rparr>),
        pl_inFlight := pl_inFlight P + 1\<rparr>"
      using assms(1) s by (auto simp: click_def)
    have id: "rq_id req = j_seq (pl_journal P) + 1" "j_seq j = rq_id req" "rq_service req = service"
      "rq_action req = action" and pend: "pend = (if pl_pending P service = None
         then (pl_pending P)(service \<mapsto>
           \<lparr>pn_action = action, pn_digest = rq_newDigest req, pn_id = rq_id req\<rparr>)
         else pl_pending P)"
      using c Some by auto
    have fresh: "rq_id req \<notin> dom (pl_runs P)"
    proof
      assume "rq_id req \<in> dom (pl_runs P)"
      then have "rq_id req \<le> j_seq (pl_journal P)" using old(4) by blast
      then show False using id(1) by simp
    qed
    have fin: "finite (dom (pl_runs P))" using g by (simp add: well_locked_def)
    have w: "\<exists>g. well_locked P' g" unfolding P' using well_locked_launch [OF g fresh] by blast
    have r: "registered P'" unfolding P' by (rule registered_launch [OF old(1) fresh id(3,4) pend])
    have n: "pl_inFlight P' = int (card (dom (pl_runs P')))"
      unfolding P' using old(3) fin fresh by simp
    have le: "i \<le> j_seq (pl_journal P)" if "pl_runs P i = Some th" for i th
      using old(4) that by (meson domI)
    have "\<forall>i \<in> dom (pl_runs P'). i \<le> j_seq (pl_journal P')"
      unfolding P' using id by (auto dest!: le)
    then show ?thesis unfolding pool_inv_def using w r n c by (simp add: P')
  qed
qed

lemma pool_inv_new: "journal_inv j \<Longrightarrow> pool_inv (new_pool j)"
  unfolding pool_inv_def
  by (auto simp: new_pool_def registered_def well_locked_def owned_def in_flight_def running_def
      merge_lock_def unlocked_def intro!: exI [of _ "\<lambda>_. unlocked"])

lemma pool_inv_reachable: "reachable opts P \<Longrightarrow> pool_inv P"
proof (induction rule: reachable.induct)
  case (more P P')
  from more(2,3) show ?case
    by (cases rule: pool_step.cases) (auto intro: pool_inv_thread_step pool_inv_click)
qed (rule pool_inv_new)

section \<open>What the pool guarantees\<close>

text \<open>The next call of a run: on a pull request, or on the host.\<close>

definition about_to_forge :: "prog \<Rightarrow> bool" where
  "about_to_forge p \<longleftrightarrow>
     (case p of
        OpenManifestPR _ _ _ _ _ \<Rightarrow> True | WaitChecks _ _ _ \<Rightarrow> True | SCall (PRMerge _) _ \<Rightarrow> True
      | ECall (PRUpdateBranch _) _ \<Rightarrow> True | _ \<Rightarrow> False)"

definition about_to_touch_host :: "prog \<Rightarrow> bool" where
  "about_to_touch_host p \<longleftrightarrow>
     (case p of
        ECall (WriteUnit _ _) _ \<Rightarrow> True | ECall (ReloadAndRestart _) _ \<Rightarrow> True
      | ECall (ProbeHealth _ _ _) _ \<Rightarrow> True | _ \<Rightarrow> False)"

definition runs_about :: "pool \<Rightarrow> (thread \<Rightarrow> bool) \<Rightarrow> int set" where
  "runs_about P Q = {i. \<exists>th. pl_runs P i = Some th \<and> Q th}"

lemma forge_needs_merge: "about_to_forge p \<Longrightarrow> disciplined v s p \<Longrightarrow> s = in_merge"
  by (cases p; cases s)
    (auto simp: about_to_forge_def safe_rules after_def require_def split: ecall.splits scall.splits option.splits if_splits)

lemma host_needs_turn: "about_to_touch_host p \<Longrightarrow> disciplined v s p \<Longrightarrow> s = in_turn"
  by (cases p; cases s)
    (auto simp: about_to_touch_host_def safe_rules after_def require_def
      split: ecall.splits option.splits if_splits)

lemma at_most_one: "finite A \<Longrightarrow> (\<And>i j. i \<in> A \<Longrightarrow> j \<in> A \<Longrightarrow> i = j) \<Longrightarrow> card A \<le> 1"
  by (metis One_nat_def card_le_Suc0_iff_eq)


lemma thread_can_go:
  assumes run: "pl_runs P i = Some th"
    and m: "\<And>p. th_prog th = UCall LockMerge p \<Longrightarrow> \<not> pl_merging P"
    and s: "\<And>v k. th_prog th = ECall (LockService v) k \<Longrightarrow> v \<notin> pl_busy P"
  shows "\<exists>P'. thread_step False P P'"
proof (cases "th_prog th")
  case (UCall c p)
  have "\<exists>P'. ucall_effect c P = Some P'" using m UCall by (cases c) auto
  then show ?thesis using thread_step.ucall [OF run UCall] by blast
next
  case (ECall c k)
  show ?thesis
  proof (cases "\<exists>v. c = LockService v")
    case True
    then show ?thesis using thread_step.locked [OF run] ECall s by blast
  next
    case False
    show ?thesis
    proof (cases "journal_call None 0 c (pl_journal P)")
      case None
      then show ?thesis using thread_step.asked [OF run ECall] False by blast
    next
      case (Some rj)
      then obtain r j where "journal_call None 0 c (pl_journal P) = Some (r, j)" by (cases rj) auto
      then show ?thesis using thread_step.journalled [OF run ECall] by blast
    qed
  qed
qed (use run in \<open>blast intro: thread_step.intros\<close>)+

lemma disciplined_lock_call:
  "disciplined v s (UCall LockMerge p) \<Longrightarrow> \<not> ls_merging s"
  "disciplined v s (ECall (LockService v') k) \<Longrightarrow> v' = v \<and> \<not> ls_held s \<and> \<not> ls_merging s"
  by (auto simp: safe_rules after_def require_def split: option.splits if_splits)

text \<open>
  C15. No deadlock. In every reachable pool with a run in flight, some run can make its next call,
  without the base context being cancelled: the service turns and the merge lock are always taken
  in the same order and every run that has one can go on until it gives it back.
\<close>

theorem pool_never_stuck:
  assumes "reachable opts P" and "dom (pl_runs P) \<noteq> {}"
  shows "\<exists>P'. thread_step False P P'"
proof -
  obtain g where g: "well_locked P g"
    using pool_inv_reachable [OF assms(1)] unfolding pool_inv_def by blast
  note wd = well_lockedD [OF g]
  show ?thesis
  proof (cases "pl_merging P")
    case True
    then obtain i th where i: "pl_runs P i = Some th" "ls_merging (g i)"
      using g by (auto simp: well_locked_def owned_def merge_lock_def running_def)
    then show ?thesis
      using thread_can_go [OF i(1)] disciplined_lock_call wd(1) [OF i(1)] by metis
  next
    case False
    show ?thesis
    proof (cases "\<exists>i th. pl_runs P i = Some th \<and> (\<nexists>v k. th_prog th = ECall (LockService v) k)")
      case True
      then show ?thesis using thread_can_go False by metis
    next
      case all: False
      obtain i where "i \<in> dom (pl_runs P)" using assms(2) by blast
      then obtain th where i: "pl_runs P i = Some th" by blast
      then obtain v k where k: "th_prog th = ECall (LockService v) k" using all by blast
      have "v \<notin> pl_busy P"
      proof
        assume "v \<in> pl_busy P"
        then obtain j th' where j: "pl_runs P j = Some th'" "ls_held (g j)"
          using g by (auto simp: well_locked_def owned_def in_flight_def)
        moreover obtain v' k' where "th_prog th' = ECall (LockService v') k'" using all j(1) by blast
        ultimately show False using disciplined_lock_call(2) wd(1) [OF j(1)] by metis
      qed
      then show ?thesis using thread_step.locked [OF i k] by blast
    qed
  qed
qed

text \<open>
  C31. A joined click is answered with a live run. When a click is told it joined, nothing changed,
  and the id it got belongs to a run in flight of the same service and for the same digest, and the
  two are of one kind: a converge joins only a converge.
\<close>

theorem join_answers_live_run:
  assumes "reachable opts P"
    and "click opts answer action service actor resolve fault now P = (Inr (i, True), P')"
  shows "P' = P \<and>
    (\<exists>th old raw content. pl_runs P i = Some th \<and> rq_service (th_req th) = service \<and>
       same_kind (rq_action (th_req th)) action \<and>
       resolve_click answer action service resolve = Inr (old, rq_newDigest (th_req th), raw, content))"
proof -
  have reg: "registered P" using pool_inv_reachable [OF assms(1)] unfolding pool_inv_def by blast
  obtain old digest raw content where q:
    "resolve_click answer action service resolve = Inr (old, digest, raw, content)"
    using assms(2) by (cases "resolve_click answer action service resolve")
      (auto simp: click_def start_def split: prod.splits)
  obtain p where p: "pl_pending P service = Some p" "same_kind (pn_action p) action"
      "pn_digest p = digest" "pn_id p = i" and same: "P' = P"
    using assms(2) unfolding click_def start_def q sum.case prod.case Let_def
    by (auto split: option.splits if_splits prod.splits sum.splits)
  then show ?thesis using reg q unfolding registered_def by fastforce
qed

text \<open>
  The gauges and the idle engine. In every reachable pool the in-flight counter is the number
  of runs, the queue gauge lies between zero and it, the pending map holds runs in flight only, and
  once no run is in flight every lock is free, the gauge is zero and nothing is pending.
\<close>

theorem pool_gauges:
  assumes "reachable opts P"
  shows "pl_inFlight P = int (card (dom (pl_runs P))) \<and>
    0 \<le> pl_queued P \<and> pl_queued P \<le> pl_inFlight P \<and>
    pn_id ` ran (pl_pending P) \<subseteq> dom (pl_runs P) \<and>
    (pl_inFlight P = 0 \<longrightarrow>
       pl_busy P = {} \<and> \<not> pl_merging P \<and> pl_queued P = 0 \<and> pl_pending P = Map.empty)"
proof -
  obtain g where g: "well_locked P g" and reg: "registered P"
      and n: "pl_inFlight P = int (card (dom (pl_runs P)))"
    using pool_inv_reachable [OF assms] unfolding pool_inv_def by blast
  have fin: "finite (dom (pl_runs P))" and q: "pl_queued P = (\<Sum>i \<in> dom (pl_runs P). ls_waiting (g i))"
    using g by (auto simp: well_locked_def)
  have w: "0 \<le> ls_waiting (g i) \<and> ls_waiting (g i) \<le> 1" for i
  proof -
    have "ls_waiting (g i) \<in> {0, 1}" using g unfolding well_locked_def by blast
    then show ?thesis by auto
  qed
  have "0 \<le> pl_queued P" unfolding q by (rule sum_nonneg) (simp add: w)
  moreover have "pl_queued P \<le> (\<Sum>i \<in> dom (pl_runs P). 1)"
    unfolding q by (rule sum_mono) (simp add: w)
  moreover have pend: "pn_id ` ran (pl_pending P) \<subseteq> dom (pl_runs P)"
    using reg by (fastforce simp: registered_def ran_def)
  moreover have "pl_busy P = {} \<and> \<not> pl_merging P \<and> pl_queued P = 0 \<and> pl_pending P = Map.empty"
    if "pl_inFlight P = 0"
  proof -
    have e: "pl_runs P = Map.empty" using that n fin by simp
    have "pl_pending P v = None" for v using reg e by (cases "pl_pending P v") (auto simp: registered_def)
    then show ?thesis using g e q
      by (auto simp: well_locked_def owned_def in_flight_def running_def merge_lock_def split: if_splits)
  qed
  ultimately show ?thesis using n by simp
qed

section \<open>An example pool\<close>

definition sample_click :: "pool \<Rightarrow> (int \<times> bool) result \<times> pool" where
  "sample_click P = click sample_options (Inr (sample_manifest, ''raw'')) ActionConverge ''web'' ''op''
     (\<lambda>current. Inr current) None 0 P"

definition sample_pool :: pool where
  "sample_pool = snd (sample_click (new_pool journal_empty))"

lemma sample_resolves:
  "resolve_click (Inr (sample_manifest, ''raw'')) ActionConverge ''web'' (\<lambda>current. Inr current) =
     Inr (digest_of sample_manifest, digest_of sample_manifest, ''raw'', ''raw'')"
proof -
  have "digest_pattern (digest_of sample_manifest)" by code_simp
  then show ?thesis by (simp add: resolve_click_def)
qed

lemma sample_pool_run: "dom (pl_runs sample_pool) = {1}" "pl_inFlight sample_pool = 1"
  unfolding sample_pool_def sample_click_def click_def start_def sample_resolves
  by (simp_all add: journal_Begin_def new_pool_def journal_empty_def Let_def)

lemma sample_pool_joins: "sample_click sample_pool = (Inr (1, True), sample_pool)"
proof -
  have "pl_pending sample_pool ''web'' =
      Some \<lparr>pn_action = ActionConverge, pn_digest = digest_of sample_manifest, pn_id = 1\<rparr>"
    unfolding sample_pool_def sample_click_def click_def start_def sample_resolves
    by (simp add: journal_Begin_def new_pool_def journal_empty_def Let_def)
  then show ?thesis
    unfolding sample_click_def click_def start_def sample_resolves
    by (simp add: same_kind_def)
qed

lemma sample_pool_reachable: "reachable sample_options sample_pool"
proof -
  have "pool_step sample_options (new_pool journal_empty) sample_pool"
    unfolding sample_pool_def sample_click_def by (rule pool_step.clicked [OF prod.collapse [symmetric]])
  then show ?thesis using reachable.more [OF reachable.init [OF journal_inv_empty]] by blast
qed


lemma pool_never_stuck_witness: "\<exists>P'. thread_step False sample_pool P'"
  using pool_never_stuck [OF sample_pool_reachable] sample_pool_run by auto

lemma join_answers_live_run_witness:
  "\<exists>th. pl_runs sample_pool 1 = Some th \<and> rq_service (th_req th) = ''web'' \<and>
     rq_newDigest (th_req th) = digest_of sample_manifest"
  using join_answers_live_run [OF sample_pool_reachable sample_pool_joins [unfolded sample_click_def]]
  unfolding sample_resolves by auto

lemma pool_gauges_witness: "pl_inFlight sample_pool = 1 \<and> pl_queued sample_pool \<le> 1"
  using pool_gauges [OF sample_pool_reachable] sample_pool_run by auto

end
