(* ===== verification/Shutdown.thy ===== *)
theory Shutdown
  imports Pool Event_Stream
begin

text \<open>
  What the engine's \<open>Wait\<close> is worth: the rows of the journal without a receipt are rows of runs in
  flight, so that a daemon that has waited leaves none behind. A run owes the receipt of its row until
  it asks for it; the database is taken to store what it is asked to (\<open>calm\<close>).
\<close>

section \<open>Every trace is a log\<close>

text \<open>The handler that answers what a trace says.\<close>

definition replay :: "obs list handler" where
  "replay =
     \<lparr>h_u = (\<lambda>_ t. tl t),
      h_e = (\<lambda>_ t. case t of OE _ r # u \<Rightarrow> (r, u) | _ \<Rightarrow> (None, t)),
      h_s = (\<lambda>_ t. case t of OS _ r # u \<Rightarrow> (r, u) | _ \<Rightarrow> (Inr [], t)),
      h_manifest = (\<lambda>_ t. case t of OManifest _ r # u \<Rightarrow> (r, u) | _ \<Rightarrow> (Inl (errorf []), t)),
      h_sync_state = (\<lambda>t. case t of OSyncState r # u \<Rightarrow> (r, u) | _ \<Rightarrow> ((False, None), t)),
      h_open_pr = (\<lambda>_ _ _ _ t. case t of OOpenPR _ _ _ _ r # u \<Rightarrow> (r, u) | _ \<Rightarrow> (Inr 0, t)),
      h_wait_checks = (\<lambda>_ _ t. case t of OWaitChecks _ _ r # u \<Rightarrow> (r, u) | _ \<Rightarrow> (Inr (False, []), t)),
      h_pause = (\<lambda>_ t. case t of OPause _ r # u \<Rightarrow> (r, u) | _ \<Rightarrow> (False, t)),
      h_now = (\<lambda>t. case t of ONow r # u \<Rightarrow> (r, u) | _ \<Rightarrow> (0, t))\<rparr>"

lemma exec_replay: "trace p t \<Longrightarrow> exec replay p t = (t, [])"
  by (induction p arbitrary: t) (auto simp: replay_def split: list.splits obs.splits)

section \<open>What a run owes\<close>

definition owes :: "int \<Rightarrow> prog \<Rightarrow> bool" where
  "owes i p \<longleftrightarrow> (\<forall>t. trace p t \<longrightarrow> (\<exists>st d r. OE (JFinish i st d) r \<in> set t))"

lemma run_owes: "owes (rq_id req) (run opts req)"
  unfolding owes_def
proof (intro allI impI)
  fix t
  assume "trace (run opts req) t"
  then have t: "run_log replay opts req t = t" by (simp add: exec_replay)
  obtain prev where "at_stage opts req t Finished prev"
    using run_log_finished [of opts req replay t] unfolding t by blast
  then have "receipt_state req t Finished" by (rule at_stage_receipt)
  then obtain st d r where "filter is_receipt t = [OE (JFinish (rq_id req) st d) r]"
    unfolding receipt_state_def by (simp only: if_True simp_thms) (elim conjE exE)
  then have "OE (JFinish (rq_id req) st d) r \<in> set (filter is_receipt t)" by simp
  then show "\<exists>st d r. OE (JFinish (rq_id req) st d) r \<in> set t" by auto
qed

lemma owes_step:
  assumes "owes i q" "\<And>u. trace p u \<Longrightarrow> trace q (x # u)" "\<forall>st d r. x \<noteq> OE (JFinish i st d) r"
  shows "owes i p"
  using assms unfolding owes_def by (metis set_ConsD)

lemma owes_UCall: "owes i (UCall c p) \<Longrightarrow> owes i p"
  by (erule owes_step [where x = "OU c"]) auto

lemma owes_ECall: "owes i (ECall c k) \<Longrightarrow> \<forall>st d. c \<noteq> JFinish i st d \<Longrightarrow> owes i (k r)"
  by (erule owes_step [where x = "OE c r"]) auto

lemma owes_answer:
  "owes i (SCall s ks) \<Longrightarrow> owes i (ks rs)"
  "owes i (RepoManifest v km) \<Longrightarrow> owes i (km rm)"
  "owes i (RepoSyncState ky) \<Longrightarrow> owes i (ky ry)"
  "owes i (OpenManifestPR v ct ti b ko) \<Longrightarrow> owes i (ko ro)"
  "owes i (WaitChecks n d kw) \<Longrightarrow> owes i (kw rw)"
  "owes i (Pause d' kp) \<Longrightarrow> owes i (kp rp)"
  "owes i (Now kn) \<Longrightarrow> owes i (kn rn)"
  by (erule owes_step [where x = "OS s rs"] owes_step [where x = "OManifest v rm"]
      owes_step [where x = "OSyncState ry"] owes_step [where x = "OOpenPR v ct ti b ro"]
      owes_step [where x = "OWaitChecks n d rw"] owes_step [where x = "OPause d' rp"]
      owes_step [where x = "ONow rn"]; simp)+

lemmas owes_next = owes_UCall owes_ECall owes_answer

lemma not_owes_Stop: "\<not> owes i Stop"
  by (simp add: owes_def)

section \<open>Rows without a receipt\<close>

definition open_ids :: "journal \<Rightarrow> int set" where
  "open_ids j = row_id ` {r \<in> set (j_rows j). row_finished_at r = None}"

lemma open_ids_map:
  assumes "j_rows j' = map (\<lambda>r. if open_row i r then u r else r) (j_rows j)" "\<And>x. row_id (u x) = row_id x"
  shows "open_ids j' \<subseteq> open_ids j"
proof
  fix k
  assume "k \<in> open_ids j'"
  then obtain r where r: "r \<in> set (j_rows j)" "k = row_id (if open_row i r then u r else r)"
      "row_finished_at (if open_row i r then u r else r) = None"
    unfolding open_ids_def assms(1) by auto
  then have "row_finished_at r = None" by (auto simp: open_row_def split: if_splits)
  moreover have "k = row_id r" using r(2) assms(2) by simp
  ultimately show "k \<in> open_ids j" using r(1) by (simp add: open_ids_def)
qed

lemma open_ids_update:
  assumes "journal_update f i u j = (r, j')" "\<And>x. row_id (u x) = row_id x"
  shows "open_ids j' \<subseteq> open_ids j"
proof -
  have "j' = j \<or> j_rows j' = map (\<lambda>r. if open_row i r then u r else r) (j_rows j)"
    using assms(1) by (auto simp: journal_update_def Let_def split: option.splits db_fault.splits if_splits)
  then show ?thesis using open_ids_map [OF _ assms(2), of j' i j] by blast
qed

lemma open_ids_call:
  assumes "journal_call f now c j = Some (r, j')"
  shows "open_ids j' \<subseteq> open_ids j"
  using assms
  by (cases c)
     (simp_all add: journal_Progress_def journal_Finish_def journal_SetPR_def journal_SetDigests_def
        journal_SetMergeSHA_def, (erule open_ids_update, simp)+)

lemma open_ids_finish: "open_ids (snd (journal_Finish None now i st d j)) \<subseteq> open_ids j - {i}"
proof -
  define u where "u r = r\<lparr>row_state := st, row_detail := d, row_finished_at := Some now\<rparr>" for r :: row
  define j' where "j' = snd (journal_update None i u j)"
  have rows: "j_rows j' = map (\<lambda>r. if open_row i r then u r else r) (j_rows j)"
    unfolding j'_def journal_update_def Let_def option.case by (simp split: if_split del: One_nat_def)
  have u: "row_id (u r) = row_id r" "row_finished_at (u r) = Some now" for r
    by (simp_all add: u_def)
  have "i \<notin> open_ids j'"
  proof
    assume "i \<in> open_ids j'"
    then obtain x where x: "x \<in> (\<lambda>r. if open_row i r then u r else r) ` set (j_rows j)" "i = row_id x"
        "row_finished_at x = None"
      unfolding open_ids_def rows set_map by blast
    from x(1) obtain r where "x = (if open_row i r then u r else r)" by (rule imageE)
    then consider "open_row i r" "x = u r" | "\<not> open_row i r" "x = r" by (cases "open_row i r") simp_all
    then show False
    proof cases
      case 1
      then show ?thesis using x(3) u(2) by simp
    next
      case 2
      then show ?thesis using x(2,3) by (simp add: open_row_def)
    qed
  qed
  moreover have "open_ids j' \<subseteq> open_ids j" using rows u(1) by (rule open_ids_map)
  ultimately show ?thesis
    unfolding journal_Finish_def j'_def u_def [abs_def] by blast
qed

lemma open_ids_begin:
  assumes "journal_Begin None now e j = (res, j')"
  shows "\<exists>i. res = Inr i \<and> open_ids j' = insert i (open_ids j)"
proof -
  have "res = Inr (j_seq j + 1)" "\<exists>started. j_rows j' = j_rows j @ [new_row (j_seq j + 1) started e]"
    using assms by (auto simp: journal_Begin_def Let_def)
  then obtain started where "res = Inr (j_seq j + 1)" "j_rows j' = j_rows j @ [new_row (j_seq j + 1) started e]"
    by blast
  moreover have "row_id (new_row i s e) = i" "row_finished_at (new_row i s e) = None" for i s
    by (simp_all add: new_row_def)
  moreover have "{r \<in> set (xs @ [y]). P r} = insert y {r \<in> set xs. P r}" if "P y" for xs :: "row list" and y P
    using that by auto
  ultimately show ?thesis by (simp add: open_ids_def)
qed

lemma start_opens:
  assumes "start answer action service actor resolve None now pend j = (res, launched, pend', j')"
  shows "case launched of None \<Rightarrow> j' = j | Some req \<Rightarrow> open_ids j' = insert (rq_id req) (open_ids j)"
proof (cases "resolve_click answer action service resolve")
  case (Inl e)
  then show ?thesis using assms by (simp add: start_def)
next
  case (Inr q)
  obtain old digest raw new where q: "q = (old, digest, raw, new)" by (cases q) auto
  obtain r j1 where b: "journal_Begin None now (begin_entry service action actor old digest now) j = (r, j1)"
    by fastforce
  obtain i where i: "r = Inr i" "open_ids j1 = insert i (open_ids j)" using open_ids_begin [OF b] by blast
  show ?thesis
    using assms i(2) unfolding start_def Inr q sum.case prod.case Let_def b i(1)
    by (cases "pend service") (auto split: if_splits)
qed

section \<open>Rows in flight\<close>

text \<open>
  A pool whose database stores what it is asked to: a click begins its row, and a step of a run that
  asks for a receipt leaves the row finished. Everything else may fail.
\<close>

definition receipts_stored :: "pool \<Rightarrow> pool \<Rightarrow> bool" where
  "receipts_stored P P' \<longleftrightarrow>
     (\<forall>i th n st d k. pl_runs P i = Some th \<longrightarrow> th_prog th = ECall (JFinish n st d) k \<longrightarrow>
        pl_runs P' i = Some th \<or>
        (\<exists>now. pl_journal P' = snd (journal_Finish None now n st d (pl_journal P))))"

inductive calm :: "options \<Rightarrow> journal \<Rightarrow> pool \<Rightarrow> bool" for opts j where
  init: "calm opts j (new_pool j)"
| thread: "calm opts j P \<Longrightarrow> thread_step cancelled P P' \<Longrightarrow> receipts_stored P P' \<Longrightarrow> calm opts j P'"
| clicked: "calm opts j P \<Longrightarrow> click opts answer action service actor resolve None now P = (res, P') \<Longrightarrow>
    calm opts j P'"

lemma calm_reachable: "calm opts j P \<Longrightarrow> journal_inv j \<Longrightarrow> reachable opts P"
  by (induction rule: calm.induct) (blast intro: reachable.intros pool_step.intros)+

text \<open>Every open row is one the process found, or its run is in flight and owes the receipt.\<close>

definition owed :: "journal \<Rightarrow> pool \<Rightarrow> bool" where
  "owed j P \<longleftrightarrow>
     (\<forall>i \<in> open_ids (pl_journal P). i \<in> open_ids j \<or> (\<exists>th. pl_runs P i = Some th \<and> owes i (th_prog th)))"

lemma owed_goes_on:
  assumes "owed j P" "pl_runs P i = Some th" "pl_runs P' = pl_runs P"
    and "open_ids (pl_journal P') \<subseteq> open_ids (pl_journal P)"
    and "i \<in> open_ids (pl_journal P') \<Longrightarrow> owes i (th_prog th) \<Longrightarrow> owes i p"
  shows "owed j (goes_on P' i th p)"
  unfolding owed_def
proof
  fix k
  assume k: "k \<in> open_ids (pl_journal (goes_on P' i th p))"
  then have k': "k \<in> open_ids (pl_journal P')" by (simp add: goes_on_def)
  then have "k \<in> open_ids j \<or> (\<exists>th. pl_runs P k = Some th \<and> owes k (th_prog th))"
    using assms(1,4) unfolding owed_def by blast
  then show "k \<in> open_ids j \<or> (\<exists>th'. pl_runs (goes_on P' i th p) k = Some th' \<and> owes k (th_prog th'))"
    using assms(2,3,5) k' by (cases "k = i") (auto simp: goes_on_def)
qed

lemma owed_thread:
  assumes "thread_step cancelled P P'" "owed j P" "receipts_stored P P'"
  shows "owed j P'"
  using assms
proof (induction rule: thread_step.induct)
  case (ucall P i th c p P')
  then show ?case
    using ucall_effect_keeps [OF ucall(3)]
    by (intro owed_goes_on) (auto dest: owes_next)
next
  case (journalled P i th c k f now r j')
  note open' = open_ids_call [OF journalled(3)]
  show ?case
  proof (cases "\<exists>st d. c = JFinish i st d")
    case True
    then obtain st d where c: "c = JFinish i st d" by blast
    let ?Q = "goes_on (P\<lparr>pl_journal := j'\<rparr>) i th (k r)"
    have "pl_runs ?Q i = Some th \<or> (\<exists>now. pl_journal ?Q = snd (journal_Finish None now i st d (pl_journal P)))"
      using journalled(5) journalled(1,2) unfolding receipts_stored_def c by blast
    moreover have "th_prog th = k r" if "pl_runs ?Q i = Some th"
      using that by (cases th) (simp add: goes_on_def)
    moreover have "i \<notin> open_ids (snd (journal_Finish None now i st d (pl_journal P)))" for now
      using open_ids_finish by blast
    ultimately have "th_prog th = k r \<or> i \<notin> open_ids j'" by (auto simp: goes_on_def)
    then show ?thesis using journalled(1,4) open' by (intro owed_goes_on) auto
  next
    case False
    then show ?thesis
      using journalled(1,2,4) open' by (intro owed_goes_on) (auto dest: owes_next)
  qed
next
  case (ended P i th)
  then show ?case using not_owes_Stop unfolding owed_def by fastforce
qed (rule owed_goes_on; (auto dest: owes_next)?)+

lemma owed_click:
  assumes "click opts answer action service actor resolve None now P = (res, P')" "owed j P"
  shows "owed j P'"
proof -
  obtain r launched pend j' where
    s: "start answer action service actor resolve None now (pl_pending P) (pl_journal P) = (r, launched, pend, j')"
    by (metis prod_cases4)
  show ?thesis
  proof (cases launched)
    case None
    then show ?thesis using assms s start_opens [OF s] by (auto simp: click_def owed_def)
  next
    case (Some req)
    let ?runs = "(pl_runs P)(rq_id req \<mapsto> \<lparr>th_req = req, th_prog = run opts req\<rparr>)"
    have P': "pl_journal P' = j'" "pl_runs P' = ?runs"
      using assms(1) unfolding click_def s prod.case Some option.case by auto
    have ids: "open_ids j' = insert (rq_id req) (open_ids (pl_journal P))"
      using start_opens [OF s] unfolding Some option.case .
    have "i \<in> open_ids j \<or> (\<exists>th. ?runs i = Some th \<and> owes i (th_prog th))"
      if "i \<in> insert (rq_id req) (open_ids (pl_journal P))" for i
    proof (cases "i = rq_id req")
      case True
      then show ?thesis using run_owes [of req opts] by simp
    next
      case False
      then show ?thesis using that assms(2) unfolding owed_def by simp
    qed
    then show ?thesis unfolding owed_def P' ids by blast
  qed
qed

lemma calm_owed: "calm opts j P \<Longrightarrow> owed j P"
proof (induction rule: calm.induct)
  case init
  then show ?case by (simp add: owed_def new_pool_def)
next
  case (thread P cancelled P')
  then show ?case by (blast intro: owed_thread)
next
  case (clicked P answer action service actor resolve now res P')
  then show ?case by (blast intro: owed_click)
qed

lemma unfinished_ids:
  assumes "journal_Unfinished None j = Inr es"
  shows "ent_ID ` set es = open_ids j"
proof -
  have "set es = scanEntry ` {r \<in> set (j_rows j). row_finished_at r = None}"
    using assms by (auto simp: journal_Unfinished_def query_fault_def oldest_first_def)
  then show ?thesis by (simp add: open_ids_def image_image scanEntry_def)
qed



end
