(* ===== verification/Serving.thy ===== *)
theory Serving
  imports Daemon Shutdown
begin

text \<open>
  The daemon while it serves and how it stops, \<open>serve\<close>, \<open>listen\<close>, \<open>close\<close>, \<open>run\<close> and \<open>main\<close> of
  \<open>cmd/snowdeployd/main.go\<close>: five goroutines in an error group, two HTTP servers with the requests they
  are answering, the signal, and the drain with its deadline, as a labelled step relation. The error
  group is a record of operations whose documented behaviour is \<open>errgroup\<close>; of \<open>net/http\<close> the rules of
  \<open>ListenAndServe\<close> and \<open>Shutdown\<close> are written out.
\<close>

section \<open>The state of a serving daemon\<close>

record 'g group =
  gp_new :: 'g
  gp_Returned :: "go_error option \<Rightarrow> 'g \<Rightarrow> 'g"
  gp_Cancel :: "'g \<Rightarrow> 'g"
  gp_done :: "'g \<Rightarrow> bool"
  gp_err :: "'g \<Rightarrow> go_error option"

text \<open>
  \<open>errgroup\<close>: the group keeps the first error a goroutine returns; its context is done once the parent
  is cancelled or an error was returned, and stays so.
\<close>

definition errgroup :: "'g group \<Rightarrow> bool" where
  "errgroup gp \<longleftrightarrow>
     gp_err gp (gp_new gp) = None \<and> \<not> gp_done gp (gp_new gp) \<and>
     (\<forall>e g. gp_err gp (gp_Returned gp e g) = (case gp_err gp g of Some x \<Rightarrow> Some x | None \<Rightarrow> e) \<and>
            gp_done gp (gp_Returned gp e g) = (gp_done gp g \<or> e \<noteq> None)) \<and>
     (\<forall>g. gp_err gp (gp_Cancel gp g) = gp_err gp g \<and> gp_done gp (gp_Cancel gp g))"

datatype listener = ApiServer | MetricsServer

text \<open>A connection that is being answered: an event stream, or any other request.\<close>

datatype conn = Stream | Request

text \<open>\<open>hs_serving\<close>: \<open>ListenAndServe\<close> has not returned; \<open>hs_closing\<close>: \<open>Shutdown\<close> was called.\<close>

record http_server =
  hs_serving :: bool
  hs_closing :: bool
  hs_active :: "conn multiset"

datatype stopping = Waiting | Draining listener | Stopped

record 'g serving =
  sv_group :: 'g
  sv_server :: "listener \<Rightarrow> http_server"
  sv_watching :: bool
  sv_drifting :: bool
  sv_stop :: stopping
  sv_graceOver :: bool
  sv_errs :: "go_error list"

definition serving0 :: "'g group \<Rightarrow> 'g serving" where
  "serving0 gp =
     \<lparr>sv_group = gp_new gp,
      sv_server = (\<lambda>_. \<lparr>hs_serving = True, hs_closing = False, hs_active = {#}\<rparr>),
      sv_watching = True, sv_drifting = True, sv_stop = Waiting, sv_graceOver = False, sv_errs = []\<rparr>"

definition listener_name :: "listener \<Rightarrow> string" where
  "listener_name l = (case l of ApiServer \<Rightarrow> ''api'' | MetricsServer \<Rightarrow> ''metrics'')"

definition err_ServerClosed :: go_error where
  "err_ServerClosed = errorf ''http: Server closed''"

definition err_DeadlineExceeded :: go_error where
  "err_DeadlineExceeded = \<lparr>err_text = ''context deadline exceeded'', err_chain = [ContextDeadlineExceeded]\<rparr>"

abbreviation on_server :: "listener \<Rightarrow> (http_server \<Rightarrow> http_server) \<Rightarrow> 'g serving \<Rightarrow> 'g serving" where
  "on_server l f s \<equiv> s\<lparr>sv_server := (sv_server s)(l := f (sv_server s l))\<rparr>"

definition returned :: "'g group \<Rightarrow> go_error option \<Rightarrow> 'g serving \<Rightarrow> 'g serving" where
  "returned gp e s = s\<lparr>sv_group := gp_Returned gp e (sv_group s)\<rparr>"

text \<open>
  The fifth goroutine: the API server is shut down first, then the metrics server, with one deadline;
  then what the two calls said is joined and returned.
\<close>

definition shut :: "listener \<Rightarrow> 'g serving \<Rightarrow> 'g serving" where
  "shut l s = on_server l (\<lambda>h. h\<lparr>hs_closing := True\<rparr>) (s\<lparr>sv_stop := Draining l\<rparr>)"

definition drained :: "'g group \<Rightarrow> listener \<Rightarrow> go_error list \<Rightarrow> 'g serving \<Rightarrow> 'g serving" where
  "drained gp l es s =
     (let s' = s\<lparr>sv_errs := sv_errs s @ es\<rparr> in
      case l of
        ApiServer \<Rightarrow> shut MetricsServer s'
      | MetricsServer \<Rightarrow> returned gp (errors_join (sv_errs s')) (s'\<lparr>sv_stop := Stopped\<rparr>))"

datatype label =
    Signal
  | ListenFails listener go_error
  | ListenCloses listener
  | WatcherReturns
  | DriftReturns
  | StopBegins
  | Drained listener
  | TimesOut listener
  | GraceOver
  | Arrives listener conn
  | Leaves listener conn

inductive serve_step :: "'g group \<Rightarrow> 'g serving \<Rightarrow> label \<Rightarrow> 'g serving \<Rightarrow> bool" for gp where
  signal: "serve_step gp s Signal (s\<lparr>sv_group := gp_Cancel gp (sv_group s)\<rparr>)"
| fails: "hs_serving (sv_server s l) \<Longrightarrow> \<not> hs_closing (sv_server s l) \<Longrightarrow>
    serve_step gp s (ListenFails l e)
      (returned gp (listen (listener_name l) (Some e) False) (on_server l (\<lambda>h. h\<lparr>hs_serving := False\<rparr>) s))"
| closes: "hs_serving (sv_server s l) \<Longrightarrow> hs_closing (sv_server s l) \<Longrightarrow>
    serve_step gp s (ListenCloses l)
      (returned gp (listen (listener_name l) (Some err_ServerClosed) True)
         (on_server l (\<lambda>h. h\<lparr>hs_serving := False\<rparr>) s))"
| watcher: "sv_watching s \<Longrightarrow> gp_done gp (sv_group s) \<Longrightarrow>
    serve_step gp s WatcherReturns (returned gp None (s\<lparr>sv_watching := False\<rparr>))"
| drift: "sv_drifting s \<Longrightarrow> gp_done gp (sv_group s) \<Longrightarrow>
    serve_step gp s DriftReturns (returned gp None (s\<lparr>sv_drifting := False\<rparr>))"
| begins: "sv_stop s = Waiting \<Longrightarrow> gp_done gp (sv_group s) \<Longrightarrow> serve_step gp s StopBegins (shut ApiServer s)"
| idle: "sv_stop s = Draining l \<Longrightarrow> hs_active (sv_server s l) = {#} \<Longrightarrow>
    serve_step gp s (Drained l) (drained gp l [] s)"
| late: "sv_stop s = Draining l \<Longrightarrow> hs_active (sv_server s l) \<noteq> {#} \<Longrightarrow> sv_graceOver s \<Longrightarrow>
    serve_step gp s (TimesOut l) (drained gp l [err_DeadlineExceeded] s)"
| grace: "sv_stop s = Draining l \<Longrightarrow> \<not> sv_graceOver s \<Longrightarrow> serve_step gp s GraceOver (s\<lparr>sv_graceOver := True\<rparr>)"
| arrives: "hs_serving (sv_server s l) \<Longrightarrow> \<not> hs_closing (sv_server s l) \<Longrightarrow>
    serve_step gp s (Arrives l c) (on_server l (\<lambda>h. h\<lparr>hs_active := add_mset c (hs_active h)\<rparr>) s)"
| leaves: "c \<in># hs_active (sv_server s l) \<Longrightarrow>
    serve_step gp s (Leaves l c) (on_server l (\<lambda>h. h\<lparr>hs_active := hs_active h - {#c#}\<rparr>) s)"

inductive serve_run :: "'g group \<Rightarrow> 'g serving \<Rightarrow> label list \<Rightarrow> 'g serving \<Rightarrow> bool" for gp s where
  start: "serve_run gp s [] s"
| more: "serve_run gp s tr s1 \<Longrightarrow> serve_step gp s1 a s2 \<Longrightarrow> serve_run gp s (tr @ [a]) s2"

text \<open>\<open>group.Wait\<close> returns when the five goroutines have.\<close>

definition all_returned :: "'g serving \<Rightarrow> bool" where
  "all_returned s \<longleftrightarrow>
     (\<forall>l. \<not> hs_serving (sv_server s l)) \<and> \<not> sv_watching s \<and> \<not> sv_drifting s \<and> sv_stop s = Stopped"

definition serve :: "'g group \<Rightarrow> 'g serving \<Rightarrow> go_error option" where
  "serve gp s = serve_result (gp_err gp (sv_group s))"

section \<open>What the stop has seen\<close>

definition listen_errors :: "label list \<Rightarrow> go_error list" where
  "listen_errors tr = List.map_filter (\<lambda>a. case a of
     ListenFails l e \<Rightarrow> listen (listener_name l) (Some e) False | _ \<Rightarrow> None) tr"

definition drain_errors :: "label list \<Rightarrow> go_error list" where
  "drain_errors tr = List.map_filter (\<lambda>a. case a of TimesOut l \<Rightarrow> Some err_DeadlineExceeded | _ \<Rightarrow> None) tr"

lemma errors_snoc:
  "listen_errors [] = []" "drain_errors [] = []"
  "listen_errors (tr @ [a]) =
     listen_errors tr @ (case a of ListenFails l e \<Rightarrow> [wrap (listener_name l @ '' listener: '') e] | _ \<Rightarrow> [])"
  "drain_errors (tr @ [a]) = drain_errors tr @ (case a of TimesOut l \<Rightarrow> [err_DeadlineExceeded] | _ \<Rightarrow> [])"
  by (simp_all add: listen_errors_def drain_errors_def listen_def List.map_filter_def split: label.split)

definition closed_by :: "stopping \<Rightarrow> listener \<Rightarrow> bool" where
  "closed_by st l \<longleftrightarrow> st = Stopped \<or> st = Draining MetricsServer \<or> st = Draining ApiServer \<and> l = ApiServer"

definition seen :: "'g group \<Rightarrow> label list \<Rightarrow> 'g serving \<Rightarrow> bool" where
  "seen gp tr s \<longleftrightarrow>
     gp_err gp (sv_group s) =
       (case listen_errors tr of e # _ \<Rightarrow> Some e
        | [] \<Rightarrow> if sv_stop s = Stopped then errors_join (drain_errors tr) else None) \<and>
     sv_errs s = drain_errors tr \<and>
     (\<forall>l. hs_closing (sv_server s l) = closed_by (sv_stop s) l) \<and>
     (sv_stop s \<noteq> Waiting \<or> gp_done gp (sv_group s) \<longrightarrow> Signal \<in> set tr \<or> listen_errors tr \<noteq> []) \<and>
     (sv_stop s \<noteq> Waiting \<longrightarrow> gp_done gp (sv_group s)) \<and>
     (drain_errors tr = [] \<longrightarrow>
        (sv_stop s \<in> {Draining MetricsServer, Stopped} \<longrightarrow> hs_active (sv_server s ApiServer) = {#}) \<and>
        (sv_stop s = Stopped \<longrightarrow> hs_active (sv_server s MetricsServer) = {#}))"

lemma other_listener [simp]: "l \<noteq> MetricsServer \<longleftrightarrow> l = ApiServer" "l \<noteq> ApiServer \<longleftrightarrow> l = MetricsServer"
  by (cases l; simp)+

lemma closed_by_simps [simp]:
  "\<not> closed_by Waiting l" "closed_by Stopped l" "closed_by (Draining MetricsServer) l"
  "closed_by (Draining ApiServer) l = (l = ApiServer)"
  by (auto simp: closed_by_def)

lemma errgroup_simps:
  assumes "errgroup gp"
  shows "gp_err gp (gp_new gp) = None" "\<not> gp_done gp (gp_new gp)"
    "gp_err gp (gp_Returned gp e g) = (case gp_err gp g of Some x \<Rightarrow> Some x | None \<Rightarrow> e)"
    "gp_done gp (gp_Returned gp e g) = (gp_done gp g \<or> e \<noteq> None)"
    "gp_err gp (gp_Cancel gp g) = gp_err gp g" "gp_done gp (gp_Cancel gp g)"
  using assms by (auto simp: errgroup_def)

lemma seenD:
  assumes "seen gp tr s"
  shows "gp_err gp (sv_group s) =
       (case listen_errors tr of e # _ \<Rightarrow> Some e
        | [] \<Rightarrow> if sv_stop s = Stopped then errors_join (drain_errors tr) else None)"
    "sv_errs s = drain_errors tr"
    "hs_closing (sv_server s l) = closed_by (sv_stop s) l"
    "sv_stop s \<noteq> Waiting \<or> gp_done gp (sv_group s) \<Longrightarrow> Signal \<in> set tr \<or> listen_errors tr \<noteq> []"
    "sv_stop s \<noteq> Waiting \<Longrightarrow> gp_done gp (sv_group s)"
    "drain_errors tr = [] \<Longrightarrow> sv_stop s = Draining MetricsServer \<or> sv_stop s = Stopped \<Longrightarrow>
       hs_active (sv_server s ApiServer) = {#}"
    "drain_errors tr = [] \<Longrightarrow> sv_stop s = Stopped \<Longrightarrow> hs_active (sv_server s MetricsServer) = {#}"
  using assms by (auto simp: seen_def)

text \<open>The steps of the group's goroutines, those of the drain, and those of the clients.\<close>

definition groups :: "label \<Rightarrow> bool" where
  "groups a = (case a of ListenFails _ _ \<Rightarrow> True | ListenCloses _ \<Rightarrow> True | WatcherReturns \<Rightarrow> True |
     DriftReturns \<Rightarrow> True | _ \<Rightarrow> False)"

definition drains :: "label \<Rightarrow> bool" where
  "drains a = (case a of StopBegins \<Rightarrow> True | Drained _ \<Rightarrow> True | TimesOut _ \<Rightarrow> True | _ \<Rightarrow> False)"

lemma seen_step_group:
  assumes gp: "errgroup gp" and st: "serve_step gp s a s'" and inv: "seen gp tr s" and "groups a"
  shows "seen gp (tr @ [a]) s'"
  using st
proof cases
  case (fails l e)
  then have "sv_stop s \<noteq> Stopped" using seenD(3) [OF inv, of l] by auto
  then show ?thesis using fails seenD [OF inv]
    by (cases "listen_errors tr") (simp_all add: seen_def errors_snoc errgroup_simps [OF gp] returned_def listen_def)
qed (use seenD [OF inv] assms(4) in \<open>cases "listen_errors tr";
  simp add: seen_def errors_snoc errgroup_simps [OF gp] returned_def listen_def groups_def split: option.split\<close>)+

lemma seen_step_drain:
  assumes gp: "errgroup gp" and st: "serve_step gp s a s'" and inv: "seen gp tr s" and "drains a"
  shows "seen gp (tr @ [a]) s'"
  using st
proof cases
  case begins
  then show ?thesis using seenD [OF inv]
    by (cases "listen_errors tr") (auto simp: seen_def errors_snoc errgroup_simps [OF gp] shut_def)
next
  case (idle l)
  then show ?thesis using seenD [OF inv]
    by (cases l; cases "listen_errors tr")
       (simp_all add: seen_def errors_snoc errgroup_simps [OF gp] drained_def Let_def shut_def returned_def)
next
  case (late l)
  then show ?thesis using seenD [OF inv]
    by (cases l; cases "listen_errors tr")
       (simp_all add: seen_def errors_snoc errgroup_simps [OF gp] drained_def Let_def shut_def returned_def)
qed (use assms(4) in \<open>simp_all add: drains_def\<close>)

lemma seen_step:
  assumes gp: "errgroup gp" and st: "serve_step gp s a s'" and inv: "seen gp tr s"
  shows "seen gp (tr @ [a]) s'"
proof (cases "groups a \<or> drains a")
  case True
  then show ?thesis using seen_step_group [OF gp st inv] seen_step_drain [OF gp st inv] by blast
next
  case other: False
  from st show ?thesis
  proof cases
    case signal
    then show ?thesis using seenD [OF inv]
      by (cases "listen_errors tr") (simp_all add: seen_def errors_snoc errgroup_simps [OF gp])
  next
    case (grace l)
    then show ?thesis using seenD [OF inv] by (cases "listen_errors tr") (simp_all add: seen_def errors_snoc)
  next
    case (arrives l c)
    then have "\<not> closed_by (sv_stop s) l" using seenD(3) [OF inv, of l] by simp
    then have "sv_stop s \<noteq> Stopped \<and> (l = ApiServer \<longrightarrow> sv_stop s \<noteq> Draining MetricsServer)" by auto
    then show ?thesis using arrives(1,2) seenD [OF inv]
      by (cases l; cases "listen_errors tr") (simp_all add: seen_def errors_snoc)
  next
    case (leaves c l)
    then show ?thesis using seenD [OF inv] by (cases l; cases "listen_errors tr") (simp_all add: seen_def errors_snoc)
  qed (use other in \<open>simp_all add: groups_def drains_def\<close>)
qed

lemma seen_run: "serve_run gp (serving0 gp) tr s \<Longrightarrow> errgroup gp \<Longrightarrow> seen gp tr s"
proof (induction rule: serve_run.induct)
  case start
  then show ?case by (simp add: seen_def serving0_def errors_snoc errgroup_simps)
next
  case (more tr s1 a s2)
  then show ?case by (blast intro: seen_step)
qed

text \<open>
  C24. What a stopped daemon says. It returns only after a signal or the failure of a listener. When it
  does, its error is the first listener failure; without one, it is nil exactly when both servers
  were drained before the deadline, and then no request is left unanswered; otherwise it is the
  deadline's, once for each server that still had requests.
\<close>

theorem stop_result_exact:
  assumes "errgroup gp" "serve_run gp (serving0 gp) tr s" "all_returned s"
  shows "serve gp s = serve_result
      (case listen_errors tr of e # _ \<Rightarrow> Some e | [] \<Rightarrow> errors_join (drain_errors tr)) \<and>
    (Signal \<in> set tr \<or> listen_errors tr \<noteq> []) \<and>
    (drain_errors tr = [] \<longrightarrow> (\<forall>l. hs_active (sv_server s l) = {#}))"
proof -
  have stop: "sv_stop s = Stopped" using assms(3) by (simp add: all_returned_def)
  note inv = seenD [OF seen_run [OF assms(2,1)]]
  have "hs_active (sv_server s l) = {#}" if "drain_errors tr = []" for l
    using inv(6,7) [OF that] stop by (cases l) simp_all
  moreover have "Signal \<in> set tr \<or> listen_errors tr \<noteq> []" using inv(4) stop by simp
  moreover have "gp_err gp (sv_group s) =
      (case listen_errors tr of e # _ \<Rightarrow> Some e | [] \<Rightarrow> errors_join (drain_errors tr))"
    unfolding inv(1) using stop by (simp split: list.split)
  ultimately show ?thesis by (simp add: serve_def)
qed

section \<open>The stop ends\<close>

text \<open>The steps of the daemon and of its timer; the others are the operator's and the clients'.\<close>

definition own :: "label \<Rightarrow> bool" where
  "own a = (case a of Signal \<Rightarrow> False | Arrives _ _ \<Rightarrow> False | Leaves _ _ \<Rightarrow> False | _ \<Rightarrow> True)"

definition steps_left :: "'g serving \<Rightarrow> nat" where
  "steps_left s =
     of_bool (hs_serving (sv_server s ApiServer)) + of_bool (hs_serving (sv_server s MetricsServer)) +
     of_bool (sv_watching s) + of_bool (sv_drifting s) + of_bool (\<not> sv_graceOver s) +
     (case sv_stop s of Waiting \<Rightarrow> 3 | Draining ApiServer \<Rightarrow> 2 | Draining MetricsServer \<Rightarrow> 1 | Stopped \<Rightarrow> 0)"

lemma steps_left_step: "serve_step gp s a s' \<Longrightarrow> steps_left s = steps_left s' + of_bool (own a)"
proof (induction rule: serve_step.induct)
  case (fails s l e)
  then show ?case by (cases l) (simp_all add: steps_left_def own_def returned_def)
next
  case (closes s l)
  then show ?case by (cases l) (simp_all add: steps_left_def own_def returned_def)
next
  case (idle s l)
  then show ?case by (cases l) (simp_all add: steps_left_def own_def returned_def drained_def shut_def Let_def)
next
  case (late s l)
  then show ?case by (cases l) (simp_all add: steps_left_def own_def returned_def drained_def shut_def Let_def)
next
  case (arrives s l c)
  then show ?case by (cases l) (simp_all add: steps_left_def own_def)
next
  case (leaves c s l)
  then show ?case by (cases l) (simp_all add: steps_left_def own_def)
qed (simp_all add: steps_left_def own_def returned_def shut_def)

lemma steps_left_run: "serve_run gp s tr s' \<Longrightarrow> steps_left s = steps_left s' + length (filter own tr)"
  by (induction rule: serve_run.induct) (auto dest: steps_left_step)

lemma own_labels:
  "own StopBegins" "own (Drained l)" "own (TimesOut l)" "own GraceOver" "own WatcherReturns"
  "own DriftReturns" "own (ListenCloses l)"
  by (simp_all add: own_def)

lemma stop_goes_on:
  assumes "seen gp tr s" "gp_done gp (sv_group s)" "\<not> all_returned s"
  shows "\<exists>a s'. own a \<and> serve_step gp s a s'"
proof (cases "sv_stop s")
  case Waiting
  then show ?thesis using serve_step.begins [OF Waiting assms(2)] own_labels(1) by blast
next
  case (Draining l)
  consider "hs_active (sv_server s l) = {#}" | "hs_active (sv_server s l) \<noteq> {#}" "sv_graceOver s"
    | "\<not> sv_graceOver s" by blast
  then show ?thesis
    using serve_step.idle [OF Draining] serve_step.late [OF Draining] serve_step.grace [OF Draining]
    by cases (blast intro: own_labels)+
next
  case Stopped
  then have closing: "hs_closing (sv_server s l)" for l using seenD(3) [OF assms(1)] by simp
  consider l where "hs_serving (sv_server s l)" | "sv_watching s" | "sv_drifting s"
    using assms(3) Stopped by (auto simp: all_returned_def)
  then show ?thesis
    using serve_step.closes [OF _ closing] serve_step.watcher [OF _ assms(2)] serve_step.drift [OF _ assms(2)]
    by cases (blast intro: own_labels)+
qed

text \<open>
  A stop ends. Whatever requests arrive and leave meanwhile, the daemon and its timer make at most
  eight steps in all; and from the signal or the first failure on, as long as a goroutine has not
  returned one of those steps can be made: no client and no order of the goroutines can keep
  \<open>serve\<close> from returning.
\<close>

theorem stop_ends:
  assumes "errgroup gp" "serve_run gp (serving0 gp) tr s"
  shows "length (filter own tr) \<le> 8 \<and>
    (gp_done gp (sv_group s) \<longrightarrow> all_returned s \<or> (\<exists>a s'. own a \<and> serve_step gp s a s'))"
proof -
  have "steps_left (serving0 gp) = 8" by (simp add: steps_left_def serving0_def)
  then have "length (filter own tr) \<le> 8" using steps_left_run [OF assms(2)] by simp
  then show ?thesis using stop_goes_on [OF seen_run [OF assms(2,1)]] by blast
qed

section \<open>An event stream outlives the drain\<close>

lemma stream_stays:
  assumes "serve_step gp s a s'" "Stream \<in># hs_active (sv_server s ApiServer)" "a \<noteq> Leaves ApiServer Stream"
  shows "Stream \<in># hs_active (sv_server s' ApiServer)"
  using assms
proof (induction rule: serve_step.induct)
  case (idle s l)
  then show ?case by (cases l) (simp_all add: drained_def shut_def returned_def Let_def)
next
  case (late s l)
  then show ?case by (cases l) (simp_all add: drained_def shut_def returned_def Let_def)
next
  case (leaves c s l)
  then show ?case by (cases l; cases c) (auto simp: in_diff_count)
qed (auto simp: returned_def shut_def)

definition stream_waits :: "'g serving \<Rightarrow> bool" where
  "stream_waits s \<longleftrightarrow>
     Stream \<in># hs_active (sv_server s ApiServer) \<and>
     (sv_stop s \<in> {Waiting, Draining ApiServer} \<or> sv_errs s \<noteq> [])"

lemma stream_waits_step:
  assumes "serve_step gp s a s'" "stream_waits s" "a \<noteq> Leaves ApiServer Stream"
  shows "stream_waits s'"
proof -
  have "Stream \<in># hs_active (sv_server s' ApiServer)"
    using stream_stays [OF assms(1) _ assms(3)] assms(2) by (simp add: stream_waits_def)
  moreover have "sv_stop s' \<in> {Waiting, Draining ApiServer} \<or> sv_errs s' \<noteq> []"
    using assms
  proof (induction rule: serve_step.induct)
    case (idle s l)
    then show ?case by (cases l) (auto simp: stream_waits_def drained_def shut_def returned_def Let_def)
  next
    case (late s l)
    then show ?case by (cases l) (auto simp: stream_waits_def drained_def shut_def returned_def Let_def)
  qed (auto simp: stream_waits_def returned_def shut_def)
  ultimately show ?thesis by (simp add: stream_waits_def)
qed

lemma stream_waits_run:
  "serve_run gp s tr s' \<Longrightarrow> stream_waits s \<Longrightarrow> Leaves ApiServer Stream \<notin> set tr \<Longrightarrow> stream_waits s'"
  by (induction rule: serve_run.induct) (auto intro: stream_waits_step)

lemma serve_run_append:
  assumes "serve_run gp s1 tr2 s2" "serve_run gp s0 tr1 s1"
  shows "serve_run gp s0 (tr1 @ tr2) s2"
  using assms by (induction rule: serve_run.induct) (auto simp flip: append_assoc intro: serve_run.more)

text \<open>
  C25. One open event stream fails an orderly stop. If a client is following the event stream when the
  daemon is told to stop, and does not hang up by itself, the drain never sees the server idle: the
  stop takes the whole grace period and \<open>serve\<close> returns the deadline's error, although no listener
  failed, so that the process exits with 1.
\<close>

theorem open_stream_fails_the_stop:
  assumes "errgroup gp" "serve_run gp (serving0 gp) tr s" "sv_stop s = Waiting"
    and "Stream \<in># hs_active (sv_server s ApiServer)"
    and "serve_run gp s tr' s'" "Leaves ApiServer Stream \<notin> set tr'" "all_returned s'"
    and "listen_errors (tr @ tr') = []"
  shows "\<exists>e. serve gp s' = Some e \<and> errors_is e ContextDeadlineExceeded"
proof -
  have run: "serve_run gp (serving0 gp) (tr @ tr') s'" using serve_run_append [OF assms(5,2)] .
  note inv = seenD [OF seen_run [OF run assms(1)]]
  have "stream_waits s" using assms(3,4) by (simp add: stream_waits_def)
  then have "stream_waits s'" using stream_waits_run [OF assms(5) _ assms(6)] by blast
  then have ne: "drain_errors (tr @ tr') \<noteq> []"
    using inv(2) assms(7) by (auto simp: stream_waits_def all_returned_def)
  have all: "\<forall>e \<in> set (drain_errors (tr @ tr')). e = err_DeadlineExceeded"
    by (auto simp: drain_errors_def List.map_filter_def split: label.splits)
  have "gp_err gp (sv_group s') = errors_join (drain_errors (tr @ tr'))"
    using inv(1) assms(7,8) by (simp add: all_returned_def)
  then obtain e where e: "gp_err gp (sv_group s') = Some e"
      "err_chain e = concat (map err_chain (drain_errors (tr @ tr')))"
    using ne by (auto simp: errors_join_def)
  have "set (err_chain e) = {ContextDeadlineExceeded}"
    unfolding e(2) using ne all by (cases "drain_errors (tr @ tr')") (auto simp: err_DeadlineExceeded_def)
  then show ?thesis using e(1) by (simp add: serve_def serve_result_def errors_is_def)
qed

section \<open>Leaving the process\<close>

text \<open>
  \<open>close\<close>: the engine's runs are waited for, then the database is closed; \<open>run\<close>, on what \<open>serve\<close>
  returned; \<open>main\<close>'s exit code. \<open>serving\<close> and \<open>waited\<close> are what serving and waiting do to the world.
\<close>

definition daemon_close :: "'w host \<Rightarrow> ('w \<Rightarrow> 'w) \<Rightarrow> config \<Rightarrow> 'w \<Rightarrow> 'w" where
  "daemon_close ho waited cfg w = snd (journal_Close (ho_db ho) (cf_JournalPath cfg) (waited w))"

definition daemon_run ::
    "'w host \<Rightarrow> ((string \<times> string) list \<Rightarrow> (string \<times> string) list) \<Rightarrow> (string \<Rightarrow> config result) \<Rightarrow>
     (config \<Rightarrow> 'w daemon \<Rightarrow> 'w check_act) \<Rightarrow> ('w \<Rightarrow> 'w) \<Rightarrow> string \<Rightarrow> bool \<Rightarrow> string \<Rightarrow> 'w \<Rightarrow>
     string list \<times> go_error option \<times> 'w" where
  "daemon_run ho ranged decode serving waited configPath showVersion version w =
     (if showVersion then ([''snowdeployd '' @ version], None, w)
      else (case Daemon.start ho ranged decode configPath w of
              (Inl e, w') \<Rightarrow> ([], Some e, w')
            | (Inr (cfg, d), w') \<Rightarrow>
                (case serving cfg d w' of (r, w'') \<Rightarrow> ([], r, daemon_close ho waited cfg w''))))"

definition exit_code :: "go_error option \<Rightarrow> int" where
  "exit_code err = (if err = None then 0 else 1)"

section \<open>Examples\<close>

fun serve_next :: "'g group \<Rightarrow> label \<Rightarrow> 'g serving \<Rightarrow> 'g serving option" where
  "serve_next gp Signal s = Some (s\<lparr>sv_group := gp_Cancel gp (sv_group s)\<rparr>)"
| "serve_next gp (ListenFails l e) s =
     (if hs_serving (sv_server s l) \<and> \<not> hs_closing (sv_server s l)
      then Some (returned gp (listen (listener_name l) (Some e) False) (on_server l (\<lambda>h. h\<lparr>hs_serving := False\<rparr>) s))
      else None)"
| "serve_next gp (ListenCloses l) s =
     (if hs_serving (sv_server s l) \<and> hs_closing (sv_server s l)
      then Some (returned gp (listen (listener_name l) (Some err_ServerClosed) True)
             (on_server l (\<lambda>h. h\<lparr>hs_serving := False\<rparr>) s))
      else None)"
| "serve_next gp WatcherReturns s =
     (if sv_watching s \<and> gp_done gp (sv_group s) then Some (returned gp None (s\<lparr>sv_watching := False\<rparr>)) else None)"
| "serve_next gp DriftReturns s =
     (if sv_drifting s \<and> gp_done gp (sv_group s) then Some (returned gp None (s\<lparr>sv_drifting := False\<rparr>)) else None)"
| "serve_next gp StopBegins s =
     (if sv_stop s = Waiting \<and> gp_done gp (sv_group s) then Some (shut ApiServer s) else None)"
| "serve_next gp (Drained l) s =
     (if sv_stop s = Draining l \<and> hs_active (sv_server s l) = {#} then Some (drained gp l [] s) else None)"
| "serve_next gp (TimesOut l) s =
     (if sv_stop s = Draining l \<and> hs_active (sv_server s l) \<noteq> {#} \<and> sv_graceOver s
      then Some (drained gp l [err_DeadlineExceeded] s) else None)"
| "serve_next gp GraceOver s =
     (if (\<exists>l \<in> {ApiServer, MetricsServer}. sv_stop s = Draining l) \<and> \<not> sv_graceOver s
      then Some (s\<lparr>sv_graceOver := True\<rparr>) else None)"
| "serve_next gp (Arrives l c) s =
     (if hs_serving (sv_server s l) \<and> \<not> hs_closing (sv_server s l)
      then Some (on_server l (\<lambda>h. h\<lparr>hs_active := add_mset c (hs_active h)\<rparr>) s) else None)"
| "serve_next gp (Leaves l c) s =
     (if c \<in># hs_active (sv_server s l)
      then Some (on_server l (\<lambda>h. h\<lparr>hs_active := hs_active h - {#c#}\<rparr>) s) else None)"

lemma serve_step_next: "serve_step gp s a s' \<longleftrightarrow> serve_next gp a s = Some s'"
proof
  show "serve_step gp s a s' \<Longrightarrow> serve_next gp a s = Some s'"
  proof (induction rule: serve_step.induct)
    case (grace s l)
    then show ?case by (cases l) simp_all
  qed simp_all
  show "serve_next gp a s = Some s' \<Longrightarrow> serve_step gp s a s'"
    by (cases a) (auto intro: serve_step.intros split: if_splits)
qed

fun serve_all :: "'g group \<Rightarrow> label list \<Rightarrow> 'g serving \<Rightarrow> 'g serving option" where
  "serve_all gp [] s = Some s"
| "serve_all gp (a # tr) s = (case serve_next gp a s of None \<Rightarrow> None | Some s' \<Rightarrow> serve_all gp tr s')"

lemma serve_all_run: "serve_all gp tr s1 = Some s2 \<Longrightarrow> serve_run gp s0 tr0 s1 \<Longrightarrow> serve_run gp s0 (tr0 @ tr) s2"
proof (induction tr arbitrary: s1 tr0)
  case (Cons a tr)
  then obtain s' where s': "serve_step gp s1 a s'" "serve_all gp tr s' = Some s2"
    by (auto simp: serve_step_next split: option.splits)
  then show ?case using Cons.IH [OF s'(2) serve_run.more [OF Cons.prems(2) s'(1)]] by simp
qed simp

definition sample_group :: "(bool \<times> go_error option) group" where
  "sample_group =
     \<lparr>gp_new = (False, None), gp_Returned = (\<lambda>e (d, x). (d \<or> e \<noteq> None, case x of Some y \<Rightarrow> Some y | None \<Rightarrow> e)),
      gp_Cancel = (\<lambda>(d, x). (True, x)), gp_done = fst, gp_err = snd\<rparr>"

lemma sample_errgroup: "errgroup sample_group"
  by (auto simp: errgroup_def sample_group_def)

definition sample_browser :: "label list" where
  "sample_browser = [Arrives ApiServer Stream]"

definition sample_stop :: "label list" where
  "sample_stop = [Signal, WatcherReturns, DriftReturns, StopBegins, ListenCloses ApiServer, GraceOver,
     TimesOut ApiServer, Drained MetricsServer, ListenCloses MetricsServer]"

definition sample_watched :: "(bool \<times> go_error option) serving" where
  "sample_watched = the (serve_all sample_group sample_browser (serving0 sample_group))"

definition sample_stopped :: "(bool \<times> go_error option) serving" where
  "sample_stopped = the (serve_all sample_group sample_stop sample_watched)"

lemmas sample_serve_defs = sample_group_def sample_browser_def sample_stop_def serving0_def drained_def
  shut_def returned_def listen_def Let_def

lemma sample_watched:
  "serve_all sample_group sample_browser (serving0 sample_group) = Some sample_watched"
  "sv_stop sample_watched = Waiting" "Stream \<in># hs_active (sv_server sample_watched ApiServer)"
  unfolding sample_watched_def by (simp_all add: sample_serve_defs)

lemma sample_stopped:
  "serve_all sample_group sample_stop sample_watched = Some sample_stopped" "all_returned sample_stopped"
  unfolding sample_stopped_def sample_watched_def
  by (simp_all add: sample_serve_defs all_returned_def split: listener.split)

lemma sample_runs:
  "serve_run sample_group (serving0 sample_group) sample_browser sample_watched"
  "serve_run sample_group sample_watched sample_stop sample_stopped"
  using serve_all_run [OF sample_watched(1) serve_run.start] serve_all_run [OF sample_stopped(1) serve_run.start]
  by simp_all

lemma sample_stop_errors: "listen_errors (sample_browser @ sample_stop) = []"
  by (simp add: listen_errors_def sample_browser_def sample_stop_def List.map_filter_def)

theorem open_stream_fails_the_stop_witness: "exit_code (serve sample_group sample_stopped) = 1"
proof -
  have "Leaves ApiServer Stream \<notin> set sample_stop" by (simp add: sample_stop_def)
  then show ?thesis
    using open_stream_fails_the_stop [OF sample_errgroup sample_runs(1) sample_watched(2,3) sample_runs(2) _
        sample_stopped(2) sample_stop_errors]
    by (auto simp: exit_code_def)
qed

theorem stop_result_exact_witness:
  "serve sample_group sample_stopped = Some err_DeadlineExceeded"
proof -
  have "drain_errors (sample_browser @ sample_stop) = [err_DeadlineExceeded]"
    by (simp add: drain_errors_def sample_browser_def sample_stop_def List.map_filter_def)
  then show ?thesis
    using stop_result_exact [OF sample_errgroup serve_run_append [OF sample_runs(2,1)] sample_stopped(2)]
    by (simp add: sample_stop_errors errors_join_def serve_result_def errors_is_def err_DeadlineExceeded_def)
qed

theorem stop_ends_witness: "length (filter own (sample_browser @ sample_stop)) \<le> 8"
  using stop_ends [OF sample_errgroup serve_run_append [OF sample_runs(2,1)]] by blast

end
