(* ===== verification/Mux.thy ===== *)
theory Mux
  imports Go_Url
begin

text \<open>
  The request router of \<open>net/http\<close>, for the patterns the program registers: a method and segments that
  are literal or one wildcard each, and the pattern \<open>/\<close> for everything else. Requests are routed by the
  escaped path; one that is not clean is redirected to the clean one, and segments are unescaped one
  by one.
\<close>

section \<open>Routing\<close>

text \<open>\<open>http.cleanPath\<close>.\<close>

definition cleanPath :: "string \<Rightarrow> string" where
  "cleanPath p =
     (let q = (if is_rooted p then p else slash # p); np = Clean q in
      if HasSuffix q [slash] \<and> np \<noteq> [slash] then np @ [slash] else np)"

datatype segment = Lit string | Wild

datatype pattern = Pattern string "segment list"

fun match_segs :: "segment list \<Rightarrow> string list \<Rightarrow> string list option" where
  "match_segs [] [] = Some []"
| "match_segs (Lit l # ps) (s # ss) = (if s = l then match_segs ps ss else None)"
| "match_segs (Wild # ps) (s # ss) =
     (if s = [] \<or> s = [slash] then None else map_option (Cons s) (match_segs ps ss))"
| "match_segs _ _ = None"

text \<open>The segments of an escaped path; a segment that cannot be unescaped stands for itself.\<close>

definition unescaped :: "string \<Rightarrow> string" where
  "unescaped s = (case PathUnescape s of None \<Rightarrow> s | Some t \<Rightarrow> t)"

definition path_segs :: "string \<Rightarrow> string list" where
  "path_segs p = map unescaped (tl (split_on slash p))"

definition match_pattern :: "string \<Rightarrow> string \<Rightarrow> pattern \<Rightarrow> string list option" where
  "match_pattern verb p pat =
     (case pat of Pattern m ps \<Rightarrow>
        if m = verb \<or> m = ''GET'' \<and> verb = ''HEAD'' then match_segs ps (path_segs p) else None)"

datatype 'e routed = Moved string | Routed 'e "string list" | MethodNotAllowed | NoRoute

text \<open>
  The patterns' methods and literals exclude each other here, so the first that matches is the one;
  \<open>rest\<close> is what \<open>/\<close> is registered for.
\<close>

definition mux :: "(pattern \<times> 'e) list \<Rightarrow> 'e option \<Rightarrow> string \<Rightarrow> string \<Rightarrow> 'e routed" where
  "mux routes rest verb p =
     (if verb \<noteq> ''CONNECT'' \<and> cleanPath p \<noteq> p then Moved (cleanPath p)
      else (case List.map_filter (\<lambda>(pat, e). map_option (Routed e) (match_pattern verb p pat)) routes of
              r # _ \<Rightarrow> r
            | [] \<Rightarrow>
                (case rest of
                   Some e \<Rightarrow> Routed e []
                 | None \<Rightarrow>
                     if \<exists>(pat, _) \<in> set routes. \<exists>m \<in> {''GET'', ''POST''}. match_pattern m p pat \<noteq> None
                     then MethodNotAllowed else NoRoute)))"

section \<open>Clean paths\<close>

lemma is_rooted_simps [simp]: "is_rooted (slash # p)" "\<not> is_rooted []"
  by (simp_all add: is_rooted_def HasPrefix_def)

lemma clean_segments:
  assumes "\<forall>e \<in> set es. plain_elem e" "es \<noteq> []"
  shows "cleanPath (slash # join_with [slash] es) = slash # join_with [slash] es"
    "split_on slash (slash # join_with [slash] es) = [] # es"
proof -
  let ?p = "slash # join_with [slash] es"
  have split: "split_on slash (join_with [slash] es) = es"
    using assms by (intro split_on_join) (auto simp: plain_elem_def)
  then show s: "split_on slash ?p = [] # es" by simp
  have "path_elems ?p = es"
    unfolding path_elems_def s using assms by (simp add: clean_stack_plain)
  then have clean: "Clean ?p = ?p" by (simp add: Clean_rooted)
  have "\<not> HasSuffix ?p [slash]"
  proof
    assume "HasSuffix ?p [slash]"
    then obtain x where x: "?p = x @ [slash]" by (auto simp: HasSuffix_def suffix_def)
    have "split_on slash (x @ slash # []) = split_on slash x @ split_on slash []"
      by (induction x) (auto split: list.splits)
    then have "[] # es = split_on slash x @ [[]]" using s unfolding x by simp
    then have "last es = []" using assms(2) by (metis last_ConsR last_snoc)
    then show False using assms last_in_set [of es] by (auto simp: plain_elem_def)
  qed
  then show "cleanPath ?p = ?p" by (simp add: cleanPath_def clean Let_def)
qed

lemma unescaped_Escape [simp]: "unescaped (PathEscape s) = s"
  by (simp add: unescaped_def PathUnescape_Escape)

lemma Clean_trailing: "is_rooted p \<Longrightarrow> Clean (Clean p @ [slash]) = Clean p"
proof -
  assume r: "is_rooted p"
  have one: "split_on slash (x @ [slash]) = split_on slash x @ [[]]" for x
    by (induction x) (auto split: list.splits)
  have root: "is_rooted (Clean p @ [slash])" using is_rooted_Clean [OF r] by (simp add: is_rooted_def HasPrefix_def)
  then have "path_elems (Clean p @ [slash]) = path_elems (Clean p)"
    using is_rooted_Clean [OF r] by (simp add: path_elems_def one clean_stack_append)
  then have "path_elems (Clean p @ [slash]) = path_elems p" by (simp only: path_elems_Clean [OF r])
  then show ?thesis using Clean_rooted [OF root] Clean_rooted [OF r] by simp
qed

lemma cleanPath_rooted:
  "is_rooted q \<Longrightarrow>
     cleanPath q = (if HasSuffix q [slash] \<and> Clean q \<noteq> [slash] then Clean q @ [slash] else Clean q)"
  by (simp add: cleanPath_def Let_def)

text \<open>A redirect goes to a path that is not redirected again.\<close>

lemma cleanPath_idem: "cleanPath (cleanPath p) = cleanPath p"
proof -
  define q where "q = (if is_rooted p then p else slash # p)"
  have q: "is_rooted q" by (simp add: q_def)
  have cp: "cleanPath p = cleanPath q" by (simp add: cleanPath_def Let_def q_def)
  have rc: "is_rooted (Clean q)" using q by (rule is_rooted_Clean)
  show ?thesis
  proof (cases "HasSuffix q [slash] \<and> Clean q \<noteq> [slash]")
    case True
    then have c: "cleanPath q = Clean q @ [slash]" by (simp add: cleanPath_rooted [OF q])
    have "is_rooted (Clean q @ [slash])" using rc by (simp add: is_rooted_def HasPrefix_def)
    then have "cleanPath (Clean q @ [slash]) = Clean q @ [slash]"
      using True Clean_trailing [OF q] by (simp add: cleanPath_rooted HasSuffix_def)
    then show ?thesis by (simp only: cp c)
  next
    case False
    then have c: "cleanPath q = Clean q" using cleanPath_rooted [OF q] by auto
    have "cleanPath (Clean q) = Clean q"
    proof (cases "path_elems q = []")
      case True
      then have "Clean q = [slash]" by (simp add: Clean_rooted [OF q])
      then show ?thesis using cleanPath_rooted [OF rc] Clean_idem [OF q] by simp
    next
      case False
      moreover have "\<forall>e \<in> set (path_elems q). plain_elem e" using q path_elems_plain by blast
      ultimately show ?thesis unfolding Clean_rooted [OF q] by (intro clean_segments(1))
    qed
    then show ?thesis by (simp only: cp c)
  qed
qed

end
