(* ===== verification/Validate_Cmd.thy ===== *)
theory Validate_Cmd
  imports Repo
begin

text \<open>
  The command line and \<open>snowdeploy validate\<close>, \<open>cmd/snowdeploy/main.go\<close> and \<open>validate.go\<close>: what Go's
  \<open>flag\<close> package makes of the arguments, the operand on either side of the flags, and the check of a
  directory of manifests that needs no daemon. Directory, files and the YAML and URL parsers are
  arguments. Output is a list of lines.
\<close>

section \<open>Flags\<close>

text \<open>
  Package \<open>flag\<close>, for flags that take a value: a flag set is its flags by name, each with the error
  its \<open>Set\<close> answers. Parsing stops at the first argument that is no flag. The result is the
  values set, in order, and the arguments left.
\<close>

type_synonym flag_set = "string \<rightharpoonup> (string \<Rightarrow> go_error option)"

definition ErrHelp :: go_error where
  "ErrHelp = errorf ''flag: help requested''"

definition flag_name :: "string \<Rightarrow> string" where
  "flag_name s = (if HasPrefix s ''--'' then drop 2 s else drop 1 s)"

definition flag_value :: "string \<Rightarrow> string \<times> string option" where
  "flag_value name =
     (case name of
        [] \<Rightarrow> ([], None)
      | c # t \<Rightarrow> (case Cut t (CHR ''='') of (before, after, found) \<Rightarrow>
                   (c # before, if found then Some after else None)))"

definition set_flag :: "flag_set \<Rightarrow> string \<Rightarrow> string \<Rightarrow> go_error option" where
  "set_flag fs name v =
     (case the (fs name) v of
        None \<Rightarrow> None
      | Some e \<Rightarrow> Some (wrap (''invalid value '' @ quote v @ '' for flag -'' @ name @ '': '') e))"

fun flag_parse ::
    "flag_set \<Rightarrow> (string \<times> string) list \<Rightarrow> string list \<Rightarrow>
     ((string \<times> string) list \<times> string list) result" where
  "flag_parse fs got [] = Inr (got, [])"
| "flag_parse fs got (s # args) =
     (if length s < 2 \<or> hd s \<noteq> CHR ''-'' then Inr (got, s # args)
      else if s = ''--'' then Inr (got, args)
      else if flag_name s = [] \<or> hd (flag_name s) \<in> {CHR ''-'', CHR ''=''}
      then Inl (errorf (''bad flag syntax: '' @ s))
      else (case flag_value (flag_name s) of (name, given) \<Rightarrow>
             if fs name = None
             then Inl (if name = ''help'' \<or> name = ''h'' then ErrHelp
                       else errorf (''flag provided but not defined: -'' @ name))
             else (case given of
                     Some v \<Rightarrow>
                       (case set_flag fs name v of
                          Some e \<Rightarrow> Inl e
                        | None \<Rightarrow> flag_parse fs (got @ [(name, v)]) args)
                   | None \<Rightarrow>
                       (case args of
                          [] \<Rightarrow> Inl (errorf (''flag needs an argument: -'' @ name))
                        | v # args' \<Rightarrow>
                            (case set_flag fs name v of
                               Some e \<Rightarrow> Inl e
                             | None \<Rightarrow> flag_parse fs (got @ [(name, v)]) args')))))"

text \<open>The value of a flag after parsing: the last one set, or its default.\<close>

definition value_of :: "(string \<times> string) list \<Rightarrow> string \<Rightarrow> string \<Rightarrow> string" where
  "value_of got name fallback = (case map_of (rev got) name of None \<Rightarrow> fallback | Some v \<Rightarrow> v)"

definition string_flag :: "string \<Rightarrow> go_error option" where
  "string_flag v = None"

definition parseWithOperand ::
    "flag_set \<Rightarrow> string list \<Rightarrow> ((string \<times> string) list \<times> string) result" where
  "parseWithOperand fs args =
     (case args of
        op # rest \<Rightarrow>
          if \<not> HasPrefix op ''-'' then
            (case flag_parse fs [] rest of
               Inl e \<Rightarrow> Inl e
             | Inr (got, left) \<Rightarrow>
                 if left \<noteq> [] then Inl (errorf (''unexpected extra arguments: '' @ show_strings left))
                 else Inr (got, op))
          else
            (case flag_parse fs [] args of
               Inl e \<Rightarrow> Inl e
             | Inr (got, left) \<Rightarrow>
                 if length left \<noteq> 1 then Inl (errorf ''exactly one operand is required'')
                 else Inr (got, hd left))
      | [] \<Rightarrow>
          (case flag_parse fs [] args of
             Inl e \<Rightarrow> Inl e
           | Inr (got, left) \<Rightarrow>
               if length left \<noteq> 1 then Inl (errorf ''exactly one operand is required'')
               else Inr (got, hd left)))"

section \<open>Checking a directory\<close>

definition splitList :: "string \<Rightarrow> string list" where
  "splitList raw =
     (if TrimSpace raw = [] then []
      else filter (\<lambda>p. p \<noteq> []) (map TrimSpace (split_on (CHR '','') raw)))"

definition manifestFiles :: "string \<Rightarrow> (string \<times> bool) list result \<Rightarrow> string list result" where
  "manifestFiles dir listing =
     (case listing of
        Inl e \<Rightarrow> Inl (wrap ''read manifest directory: '' e)
      | Inr entries \<Rightarrow>
          Inr (map (\<lambda>(n, _). PathJoin [dir, n])
                (filter (\<lambda>(n, is_dir). \<not> is_dir \<and> Ext n = ''.yaml'') entries)))"

text \<open>\<open>filepath.Base\<close>.\<close>

definition Base :: "string \<Rightarrow> string" where
  "Base p =
     (let s = rev (dropWhile (\<lambda>c. c = slash) (rev p)) in
      if p = [] then ''.'' else if s = [] then [slash] else after_last_slash s)"

definition checkOne ::
    "(string \<Rightarrow> string result) \<Rightarrow> (string \<Rightarrow> manifest result) \<Rightarrow> (string \<Rightarrow> go_url result) \<Rightarrow>
     string \<Rightarrow> limits \<Rightarrow> go_error option" where
  "checkOne read decode parse_url p lim =
     (case read p of
        Inl e \<Rightarrow> Some e
      | Inr raw \<Rightarrow>
     (case Parse decode raw of
        Inl e \<Rightarrow> Some e
      | Inr m \<Rightarrow>
     (case Validate parse_url lim m of
        Some e \<Rightarrow> Some e
      | None \<Rightarrow>
          let name = TrimSuffix (Base p) ''.yaml'' in
          if m_Name m \<noteq> name
          then Some (errorf (''name '' @ quote (m_Name m) @ '' does not match the file name '' @ quote name
                 @ ''; the daemon addresses services by file name''))
          else None)))"

definition report_lines :: "string \<Rightarrow> go_error option \<Rightarrow> string list" where
  "report_lines p res =
     (case res of
        None \<Rightarrow> [''ok   '' @ p]
      | Some e \<Rightarrow> (''FAIL '' @ p) # map (\<lambda>l. ''       '' @ l) (split_on newline (err_text e)))"

definition validate_files ::
    "(string \<Rightarrow> string result) \<Rightarrow> (string \<Rightarrow> manifest result) \<Rightarrow> (string \<Rightarrow> go_url result) \<Rightarrow>
     limits \<Rightarrow> string list \<Rightarrow> go_error option \<times> string list" where
  "validate_files read decode parse_url lim ps =
     (let results = map (\<lambda>p. checkOne read decode parse_url p lim) ps;
          failures = length (filter (\<lambda>res. res \<noteq> None) results);
          said = concat (map (\<lambda>(p, res). report_lines p res) (zip ps results))
      in if failures > 0
         then (Some (errorf (Itoa (int failures) @ '' of '' @ Itoa (int (length ps))
                 @ '' manifests failed validation'')), said)
         else (None, said @ [[], Itoa (int (length ps)) @ '' manifests validated.'']))"

definition validate_flags :: flag_set where
  "validate_flags = [''volume-prefixes'' \<mapsto> string_flag, ''env-file-prefixes'' \<mapsto> string_flag]"

definition validate_limits :: "(string \<times> string) list \<Rightarrow> limits" where
  "validate_limits got =
     \<lparr>lim_VolumePrefixes = splitList (value_of got ''volume-prefixes'' []),
      lim_EnvFilePrefixes = splitList (value_of got ''env-file-prefixes'' [])\<rparr>"

definition cmdValidate ::
    "(string \<Rightarrow> (string \<times> bool) list result) \<Rightarrow> (string \<Rightarrow> string result) \<Rightarrow>
     (string \<Rightarrow> manifest result) \<Rightarrow> (string \<Rightarrow> go_url result) \<Rightarrow>
     string list \<Rightarrow> go_error option \<times> string list" where
  "cmdValidate read_dir read decode parse_url args =
     (case parseWithOperand validate_flags args of
        Inl e \<Rightarrow> (Some e, [])
      | Inr (got, dir) \<Rightarrow>
     (case manifestFiles dir (read_dir dir) of
        Inl e \<Rightarrow> (Some e, [])
      | Inr ps \<Rightarrow>
          if ps = [] then (Some (errorf (''no *.yaml manifests found in '' @ dir)), [])
          else validate_files read decode parse_url (validate_limits got) ps))"

section \<open>The operand on either side\<close>

lemma flag_parse_operand:
  assumes "length op < 2 \<or> hd op \<noteq> CHR ''-''"
  shows "flag_parse fs got args = Inr (g, []) \<Longrightarrow> flag_parse fs got (args @ [op]) = Inr (g, [op])"
  using assms
  by (induction fs got args rule: flag_parse.induct)
     (auto split: if_splits prod.splits option.splits list.splits)

lemma no_dash: "\<not> HasPrefix s ''-'' \<Longrightarrow> length s < 2 \<or> hd s \<noteq> CHR ''-''"
  by (cases s) (auto simp: HasPrefix_def)

text \<open>
  The operand may stand on either side of the flags. Whatever a command line with the operand
  first is accepted as, the same flags followed by the operand are accepted as the same.
\<close>

theorem operand_on_either_side:
  assumes "\<not> HasPrefix op ''-''" and "parseWithOperand fs (op # args) = Inr r"
  shows "parseWithOperand fs (args @ [op]) = Inr r"
proof -
  obtain g where g: "flag_parse fs [] args = Inr (g, [])" "r = (g, op)"
    using assms by (auto simp: parseWithOperand_def split: sum.splits if_splits)
  have turned: "flag_parse fs [] (args @ [op]) = Inr (g, [op])"
    by (rule flag_parse_operand [OF no_dash [OF assms(1)] g(1)])
  show ?thesis
  proof (cases args)
    case Nil
    then show ?thesis using assms by simp
  next
    case (Cons a as)
    have "HasPrefix a ''-''"
    proof (rule ccontr)
      assume "\<not> HasPrefix a ''-''"
      then have "flag_parse fs [] args = Inr ([], args)" using no_dash by (simp add: Cons)
      then show False using g(1) Cons by simp
    qed
    then show ?thesis using turned g(2) by (simp add: Cons parseWithOperand_def)
  qed
qed

theorem operand_on_either_side_witness:
  "parseWithOperand [''digest'' \<mapsto> string_flag] [''--digest'', ''sha256:1'', ''web''] =
     Inr ([(''digest'', ''sha256:1'')], ''web'')"
proof -
  have "parseWithOperand [''digest'' \<mapsto> string_flag] [''web'', ''--digest'', ''sha256:1''] =
      Inr ([(''digest'', ''sha256:1'')], ''web'')"
    by (simp add: parseWithOperand_def HasPrefix_def flag_name_def flag_value_def set_flag_def
        string_flag_def)
  from operand_on_either_side [OF _ this] show ?thesis by (simp add: HasPrefix_def)
qed

section \<open>Validation is the daemon's gate\<close>

lemma clean_elems:
  assumes "xs \<noteq> []" "\<forall>x \<in> set xs. slash \<notin> set x" "last xs \<noteq> []"
  shows "Base ((if r then [slash] else []) @ join_with [slash] xs) = last xs"
proof -
  have parts: "split_on slash (join_with [slash] xs) = xs" using assms by (simp add: split_on_join)
  have ne: "join_with [slash] xs \<noteq> []" using parts assms by auto
  moreover have "last (join_with [slash] xs) \<noteq> slash"
  proof -
    obtain ys y where xs: "xs = ys @ [y]" using assms(1) by (cases xs rule: rev_cases) auto
    then have y: "y \<noteq> []" "slash \<notin> set y" using assms by auto
    then have "last (join_with [slash] xs) = last y"
      using join_with_append [of ys "[y]" "[slash]"] by (cases "ys = []") (simp_all add: xs)
    then show ?thesis using y by (metis last_in_set)
  qed
  ultimately have "rev (dropWhile (\<lambda>c. c = slash) (rev (pre @ join_with [slash] xs))) = pre @ join_with [slash] xs"
    for pre by (cases "join_with [slash] xs" rule: rev_cases) auto
  then show ?thesis using parts assms ne
    by (simp add: Base_def Let_def after_last_slash_def)
qed

lemma Base_Join:
  assumes "plain_elem n"
  shows "Base (PathJoin [dir, n]) = n"
proof -
  let ?p = "if dir = [] then n else dir @ slash # n"
  have n: "n \<noteq> []" "slash \<notin> set n" "clean_stack r st [n] = n # st" for r st
    using assms by (auto simp: plain_elem_def)
  have one: "split_on slash (x @ slash # y) = split_on slash x @ split_on slash y" for x y :: string
    by (induction x) (auto split: list.splits)
  have sp: "split_on slash n = [n]" using n by (simp add: split_on_single)
  obtain xs where xs: "path_elems ?p = xs @ [n]"
    using n sp by (cases "dir = []") (simp_all add: path_elems_def one clean_stack_append)
  have "\<forall>x \<in> set (path_elems ?p). slash \<notin> set x"
    using path_elems_no_slash by blast
  then have "Base ((if is_rooted ?p then [slash] else []) @ join_with [slash] (path_elems ?p)) = n"
    using n by (subst clean_elems) (simp_all add: xs)
  moreover have "join_with [slash] (path_elems ?p) \<noteq> []"
    using n by (cases xs rule: remdups_adj.cases) (auto simp: xs join_with_append)
  moreover have "PathJoin [dir, n] = Clean ?p" using n by (simp add: PathJoin_def)
  ultimately show ?thesis by (simp add: Clean_def)
qed

text \<open>What the daemon makes of one service: the manifest it would hand on, named like its file.\<close>

definition served ::
    "(string \<Rightarrow> manifest result) \<Rightarrow> (string \<Rightarrow> go_url result) \<Rightarrow> 'w repo_config \<Rightarrow> mirror \<Rightarrow>
     (string \<Rightarrow> string result) \<Rightarrow> limits \<Rightarrow> string \<Rightarrow> bool" where
  "served decode parse_url cfg mr files lim service \<longleftrightarrow>
     (case repo_Manifest decode cfg mr files service of
        Inl _ \<Rightarrow> False
      | Inr (m, _) \<Rightarrow> Validate parse_url lim m = None \<and> m_Name m = service)"

lemma Ext_yaml: "Ext n = ''.yaml'' \<Longrightarrow> TrimSuffix n ''.yaml'' @ ''.yaml'' = n"
proof -
  assume e: "Ext n = ''.yaml''"
  then have dot: "CHR ''.'' \<in> set n" by (simp add: Ext_def split: if_splits)
  have rest: "rev (takeWhile (\<lambda>c. c \<noteq> CHR ''.'') (rev n)) = ''yaml''" using e dot by (simp add: Ext_def)
  obtain a b where n: "rev n = a @ CHR ''.'' # b" "CHR ''.'' \<notin> set a"
    using dot split_list_first [of "CHR ''.''" "rev n"] by auto
  have "takeWhile (\<lambda>c. c \<noteq> CHR ''.'') (rev n) = a"
    using n by (simp add: takeWhile_append)
  then have "a = rev ''yaml''" using rest by (metis rev_rev_ident)
  then have "n = rev b @ ''.yaml''" using n by (metis rev_rev_ident rev_append rev.simps(2) append.assoc append_Cons append_Nil)
  then show ?thesis by (simp add: TrimSuffix_def HasSuffix_def suffix_def)
qed

lemma checkOne_served:
  assumes "plain_elem n" "Ext n = ''.yaml''" "requireSyncedLocked mr = None"
    and "checkName (TrimSuffix n ''.yaml'') = None"
    and "read (PathJoin [dir, n]) = files (PathJoin [rc_CacheDir cfg, rc_ManifestDir cfg, n])"
  shows "checkOne read decode parse_url (PathJoin [dir, n]) lim = None \<longleftrightarrow>
    served decode parse_url cfg mr files lim (TrimSuffix n ''.yaml'')"
  using assms
  by (auto simp: checkOne_def served_def repo_Manifest_def readRelative_def Base_Join Ext_yaml Let_def
      split: sum.splits option.splits)


definition sample_args :: "string list" where
  "sample_args = [''/var/cache/deploy/manifests'', ''--volume-prefixes=/srv/acme/'',
     ''--env-file-prefixes'', ''/etc/acme'']"

definition sample_listing :: "(string \<times> bool) list" where
  "sample_listing = [(''README'', False), (''web.yaml'', False)]"

lemma sample_got:
  "parseWithOperand validate_flags sample_args =
     Inr ([(''volume-prefixes'', ''/srv/acme/''), (''env-file-prefixes'', ''/etc/acme'')],
          ''/var/cache/deploy/manifests'')"
  by (simp add: sample_args_def parseWithOperand_def HasPrefix_def flag_name_def flag_value_def
      validate_flags_def set_flag_def string_flag_def)

lemma sample_served:
  "served (\<lambda>_. Inr sample_manifest) sample_url sample_config \<lparr>mr_synced = True, mr_failure = None\<rparr>
     sample_files sample_limits ''web''"
proof -
  have f: "sample_files (PathJoin [rc_CacheDir sample_config, rc_ManifestDir sample_config,
      ''web'' @ ''.yaml'']) = Inr ''name: web''" by code_simp
  have c: "checkName ''web'' = None" by code_simp
  have v: "Validate sample_url sample_limits (applyDefaults sample_manifest) = None" by code_simp
  have n: "m_Name (applyDefaults sample_manifest) = ''web''" by code_simp
  show ?thesis
    unfolding served_def repo_Manifest_def readRelative_def f c
    by (simp add: requireSyncedLocked_def Parse_def v n)
qed


text \<open>
  Where the two gates differ: a file named \<open>a..b.yaml\<close> that names its service so passes the check
  of its name, and the daemon, which lists it, never reads it.
\<close>

lemma dotted_name_only_in_ci:
  "TrimSuffix (Base ''/m/a..b.yaml'') ''.yaml'' = ''a..b'' \<and>
   (\<forall>decode cfg m files. \<exists>e. repo_Manifest decode cfg m files ''a..b'' = Inl e)"
proof -
  have "checkName ''a..b'' \<noteq> None" by code_simp
  then have "\<exists>e. repo_Manifest decode cfg m files ''a..b'' = Inl e" for decode cfg m files
    by (auto simp: repo_Manifest_def readRelative_def split: option.splits)
  moreover have "TrimSuffix (Base ''/m/a..b.yaml'') ''.yaml'' = ''a..b''" by code_simp
  ultimately show ?thesis by blast
qed

end
