(* ===== verification/Cli.thy ===== *)
theory Cli
  imports Api Observability Validate_Cmd Go_Url
begin

text \<open>
  The command line's client, \<open>cmd/snowdeploy/client.go\<close> and \<open>main.go\<close>: requests and their answers,
  the event stream a command follows to its exit code, and the tables. The network is an operation
  on a world; JSON, URLs, files and the rendering of times are arguments. The CLI's copies of the API's
  rows are the API's records. A table is its rows, to be aligned by \<open>text/tabwriter\<close>; output is a list
  of lines.
\<close>

section \<open>Requests\<close>

record cli_client =
  cl_baseURL :: string
  cl_tokenFile :: string

record cli_request =
  cq_Method :: string
  cq_URL :: string
  cq_Header :: "(string \<times> string) list"
  cq_Body :: "string option"

record answer =
  an_StatusCode :: int
  an_Status :: string
  an_Body :: string

type_synonym 'w net = "cli_request \<Rightarrow> 'w \<Rightarrow> answer result \<times> 'w"

text \<open>\<open>j_error\<close> is the \<open>error\<close> field of a body that is a JSON object.\<close>

record codec =
  j_digest :: "string \<Rightarrow> string result"
  j_error :: "string \<Rightarrow> string option"
  j_services :: "string \<Rightarrow> service_status list result"
  j_history :: "string \<Rightarrow> entry list result"
  j_started :: "string \<Rightarrow> int result"

record surroundings =
  su_url :: "string \<Rightarrow> go_error option"
  su_request :: "string \<Rightarrow> string \<Rightarrow> go_error option"
  su_file :: "string \<Rightarrow> string result"
  su_server :: string
  su_tokenFile :: string
  su_duration :: "string \<Rightarrow> go_error option"
  su_int :: "string \<Rightarrow> int result"
  su_localTime :: "int option \<Rightarrow> string"

definition newClient :: "surroundings \<Rightarrow> string \<Rightarrow> string \<Rightarrow> cli_client result" where
  "newClient su server tokenFile =
     (let server = TrimSuffix (TrimSpace server) ''/'' in
      if server = [] then Inl (errorf ''no server address: pass --server or set SNOWDEPLOY_SERVER'')
      else (case su_url su server of
              Some e \<Rightarrow> Inl (wrap (''server address '' @ quote server @ '': '') e)
            | None \<Rightarrow> Inr \<lparr>cl_baseURL = server, cl_tokenFile = tokenFile\<rparr>))"

definition authorize :: "surroundings \<Rightarrow> cli_client \<Rightarrow> cli_request \<Rightarrow> cli_request result" where
  "authorize su c q =
     (if cl_tokenFile c = [] then Inr q
      else (case su_file su (cl_tokenFile c) of
              Inl e \<Rightarrow> Inl (wrap ''read token file: '' e)
            | Inr raw \<Rightarrow>
                let token = TrimSpace raw in
                if token = [] then Inl (errorf (''token file '' @ cl_tokenFile c @ '' is empty''))
                else Inr (q\<lparr>cq_Header := cq_Header q @ [(''Authorization'', ''Bearer '' @ token)]\<rparr>)))"

definition newRequest ::
    "surroundings \<Rightarrow> cli_client \<Rightarrow> string \<Rightarrow> string \<Rightarrow> string result option \<Rightarrow> cli_request result" where
  "newRequest su c verb p content =
     (case content of
        Some (Inl e) \<Rightarrow> Inl (wrap ''encode request: '' e)
      | _ \<Rightarrow>
     (case su_request su verb (cl_baseURL c @ p) of
        Some e \<Rightarrow> Inl (wrap ''build request: '' e)
      | None \<Rightarrow>
          authorize su c \<lparr>cq_Method = verb, cq_URL = cl_baseURL c @ p,
            cq_Header = (if content = None then [] else [(''Content-Type'', ''application/json'')]),
            cq_Body = map_option projr content\<rparr>))"

definition describe :: "codec \<Rightarrow> answer \<Rightarrow> string" where
  "describe j resp =
     (let content = take 8192 (an_Body resp); trimmed = TrimSpace content in
      case j_error j content of
        Some (c # err) \<Rightarrow> an_Status resp @ '': '' @ c # err
      | _ \<Rightarrow> if trimmed = [] then an_Status resp else an_Status resp @ '': '' @ trimmed)"

definition cli_do ::
    "codec \<Rightarrow> surroundings \<Rightarrow> 'w net \<Rightarrow> cli_client \<Rightarrow> string \<Rightarrow> string \<Rightarrow> string result option \<Rightarrow>
     (string \<Rightarrow> 'a result) \<Rightarrow> ('w, 'a) act" where
  "cli_do j su net c verb p content decode w =
     (case newRequest su c verb p content of
        Inl e \<Rightarrow> (Inl e, w)
      | Inr q \<Rightarrow>
     (case net q w of
        (Inl e, w') \<Rightarrow> (Inl (wrap (verb @ '' '' @ p @ '': '') e), w')
      | (Inr resp, w') \<Rightarrow>
          if an_StatusCode resp < 200 \<or> an_StatusCode resp > 299
          then (Inl (errorf (verb @ '' '' @ p @ '': '' @ describe j resp)), w')
          else (case decode (an_Body resp) of
                  Inl e \<Rightarrow> (Inl (wrap_in (''decode '' @ p @ '' response: '') e []), w')
                | Inr x \<Rightarrow> (Inr x, w'))))"

definition cli_services :: "codec \<Rightarrow> surroundings \<Rightarrow> 'w net \<Rightarrow> cli_client \<Rightarrow> ('w, service_status list) act" where
  "cli_services j su net c = cli_do j su net c ''GET'' ''/api/v1/services'' None (j_services j)"

definition cli_history ::
    "codec \<Rightarrow> surroundings \<Rightarrow> 'w net \<Rightarrow> cli_client \<Rightarrow> string \<Rightarrow> int \<Rightarrow> ('w, entry list) act" where
  "cli_history j su net c service n =
     cli_do j su net c ''GET''
       (''/api/v1/services/'' @ PathEscape service @ ''/history?n='' @ Itoa n) None (j_history j)"

definition start_path :: "string \<Rightarrow> string \<Rightarrow> string" where
  "start_path action service = ''/api/v1/services/'' @ PathEscape service @ ''/'' @ action"

definition startDeploy ::
    "codec \<Rightarrow> surroundings \<Rightarrow> 'w net \<Rightarrow> cli_client \<Rightarrow> string \<Rightarrow> string \<Rightarrow> string \<Rightarrow> ('w, int) act" where
  "startDeploy j su net c action service digest =
     cli_do j su net c ''POST'' (start_path action service)
       (if action \<noteq> ''converge'' then Some (j_digest j digest) else None) (j_started j)"

text \<open>The stream is the body of the answer, as the scanner will read it.\<close>

definition openEvents :: "codec \<Rightarrow> surroundings \<Rightarrow> 'w net \<Rightarrow> cli_client \<Rightarrow> ('w, string) act" where
  "openEvents j su net c w =
     (case newRequest su c ''GET'' ''/api/v1/events'' None of
        Inl e \<Rightarrow> (Inl e, w)
      | Inr q \<Rightarrow>
     (case net (q\<lparr>cq_Header := cq_Header q @ [(''Accept'', ''text/event-stream'')]\<rparr>) w of
        (Inl e, w') \<Rightarrow> (Inl (wrap ''connect to the event stream: '' e), w')
      | (Inr resp, w') \<Rightarrow>
          if an_StatusCode resp \<noteq> 200
          then (Inl (errorf (''event stream: '' @ describe j resp)), w')
          else (Inr (an_Body resp), w')))"

section \<open>Following a run\<close>

record cli_event =
  ce_Service :: string
  ce_Action :: string
  ce_State :: string
  ce_Detail :: string
  ce_JournalID :: int
  ce_PRURL :: string
  ce_MergeURL :: string

definition terminalStates :: "string list" where
  "terminalStates = [''healthy'', ''rolled-back'', ''failed'']"

text \<open>The next event of a run among the lines left, and what is left after it.\<close>

fun nextEvent :: "(string \<Rightarrow> cli_event option) \<Rightarrow> int \<Rightarrow> string list \<Rightarrow> (cli_event \<times> string list) option" where
  "nextEvent unmarshal jid [] = None"
| "nextEvent unmarshal jid (l # ls) =
     (if \<not> HasPrefix l ''data: '' then nextEvent unmarshal jid ls
      else (case unmarshal (TrimPrefix l ''data: '') of
              None \<Rightarrow> nextEvent unmarshal jid ls
            | Some ev \<Rightarrow>
                if jid \<noteq> 0 \<and> ce_JournalID ev \<noteq> jid then nextEvent unmarshal jid ls
                else Some (ev, ls)))"

lemma nextEvent_shorter: "nextEvent um jid ls = Some (ev, rest) \<Longrightarrow> length rest < length ls"
  by (induction um jid ls rule: nextEvent.induct) (auto split: if_splits option.splits)

type_synonym outcome = "int \<times> string list \<times> string list"

definition progress_line :: "cli_event \<Rightarrow> string" where
  "progress_line ev =
     ''  '' @ ce_State ev @ replicate (13 - length (ce_State ev)) (CHR '' '') @ '' '' @ ce_Detail ev"

function follow :: "(string \<Rightarrow> cli_event option) \<Rightarrow> int \<Rightarrow> string list \<Rightarrow> outcome" where
  "follow um jid ls =
     (case nextEvent um jid ls of
        None \<Rightarrow> (1, [], [''snowdeploy: the event stream ended before a terminal state''])
      | Some (ev, rest) \<Rightarrow>
          if ce_State ev \<in> set terminalStates
          then (if ce_State ev = ''healthy'' then 0 else 1, [progress_line ev], [])
          else (case follow um jid rest of (code, out, err) \<Rightarrow> (code, progress_line ev # out, err)))"
  by pat_completeness auto
termination
  by (relation "measure (\<lambda>(_, _, ls). length ls)") (auto dest: nextEvent_shorter)

declare follow.simps [simp del]

definition latestFor :: "codec \<Rightarrow> surroundings \<Rightarrow> 'w net \<Rightarrow> cli_client \<Rightarrow> string \<Rightarrow> ('w, string) act" where
  "latestFor j su net c service =
     try_val (cli_services j su net c) (\<lambda>e. e) (\<lambda>services.
       case find (\<lambda>s. ss_Name s = service) services of
         None \<Rightarrow> failing_with (errorf (''no such service: '' @ service))
       | Some s \<Rightarrow>
           if ss_LatestAvailable s = []
           then failing_with (errorf (''no digest is known for '' @ service @ '' yet; pass --digest''))
           else done_with (ss_LatestAvailable s))"

definition connection_flags :: flag_set where
  "connection_flags = [''server'' \<mapsto> string_flag, ''token-file'' \<mapsto> string_flag]"

definition flag_client :: "surroundings \<Rightarrow> (string \<times> string) list \<Rightarrow> cli_client result" where
  "flag_client su got =
     newClient su (value_of got ''server'' (su_server su)) (value_of got ''token-file'' (su_tokenFile su))"

definition digest_flag :: "string \<Rightarrow> string" where
  "digest_flag action = (if action = ''rollback'' then ''to'' else ''digest'')"

definition followed_flags :: "surroundings \<Rightarrow> string \<Rightarrow> flag_set" where
  "followed_flags su action =
     (let fs = connection_flags(''timeout'' \<mapsto> su_duration su) in
      if action \<noteq> ''converge'' then fs(digest_flag action \<mapsto> string_flag) else fs)"

definition complaint :: "go_error \<Rightarrow> outcome" where
  "complaint e = (1, [], [''snowdeploy: '' @ err_text e])"

text \<open>The digest asked for: the flag's, or for a bare deploy the latest known.\<close>

definition asked_digest ::
    "codec \<Rightarrow> surroundings \<Rightarrow> 'w net \<Rightarrow> cli_client \<Rightarrow> string \<Rightarrow> string \<Rightarrow> (string \<times> string) list \<Rightarrow>
     ('w, string) act" where
  "asked_digest j su net c action service got =
     (let d = if action \<noteq> ''converge'' then value_of got (digest_flag action) [] else [] in
      if d = [] \<and> action = ''deploy'' then latestFor j su net c service else done_with d)"

text \<open>The second half of \<open>followedCommand\<close>: subscribe, start, follow.\<close>

definition start_and_follow ::
    "codec \<Rightarrow> (string \<Rightarrow> cli_event option) \<Rightarrow> surroundings \<Rightarrow> 'w net \<Rightarrow> cli_client \<Rightarrow> string \<Rightarrow>
     string \<Rightarrow> string \<Rightarrow> 'w \<Rightarrow> outcome \<times> 'w" where
  "start_and_follow j um su net c action service target w =
     (case openEvents j su net c w of
        (Inl e, w1) \<Rightarrow> (complaint e, w1)
      | (Inr stream, w1) \<Rightarrow>
     (case startDeploy j su net c action service target w1 of
        (Inl e, w2) \<Rightarrow> (complaint e, w2)
      | (Inr jid, w2) \<Rightarrow>
          (case follow um jid (fst (scan_lines stream)) of
             (code, out, err) \<Rightarrow>
               ((code, (action @ '' '' @ service @ '' (journal entry '' @ Itoa jid @ '')'') # out, err), w2))))"

definition followedCommand ::
    "codec \<Rightarrow> (string \<Rightarrow> cli_event option) \<Rightarrow> surroundings \<Rightarrow> 'w net \<Rightarrow> string \<Rightarrow> string list \<Rightarrow>
     'w \<Rightarrow> outcome \<times> 'w" where
  "followedCommand j um su net action args w =
     (case parseWithOperand (followed_flags su action) args of
        Inl e \<Rightarrow> ((2, [], [''snowdeploy '' @ action @ '': '' @ err_text e]), w)
      | Inr (got, service) \<Rightarrow>
     (case flag_client su got of
        Inl e \<Rightarrow> (complaint e, w)
      | Inr c \<Rightarrow>
     (case asked_digest j su net c action service got w of
        (Inl e, w1) \<Rightarrow> (complaint e, w1)
      | (Inr target, w1) \<Rightarrow> start_and_follow j um su net c action service target w1)))"

section \<open>Tables\<close>

definition short :: "string \<Rightarrow> string" where
  "short digest =
     (if digest = [] then ''-''
      else let trimmed = TrimPrefix digest ''sha256:'' in
           if length trimmed > 12 then take 12 trimmed else trimmed)"

text \<open>\<open>truncate\<close>, on bytes; the ellipsis is three of them.\<close>

definition truncate_text :: "string \<Rightarrow> nat \<Rightarrow> string" where
  "truncate_text s n =
     (let s = map (\<lambda>c. if c = CHR 0x0A then CHR '' '' else c) s in
      if length s \<le> n then s else take (n - 1) s @ [CHR 0xE2, CHR 0x80, CHR 0xA6])"

definition inFlight :: "entry option \<Rightarrow> bool" where
  "inFlight e \<longleftrightarrow> (case e of None \<Rightarrow> False | Some e \<Rightarrow> ent_FinishedAt e = None)"

definition state_cell :: "service_status \<Rightarrow> string" where
  "state_cell s =
     (if inFlight (ss_LastDeploy s)
      then ent_Action (the (ss_LastDeploy s)) @ '' in flight ('' @ ent_State (the (ss_LastDeploy s)) @ '')''
      else if ss_Drifted s then ''DRIFTED''
      else if ss_LatestAvailable s \<noteq> [] \<and> ss_LatestAvailable s \<noteq> ss_ManifestDigest s
      then ''update available''
      else ''in sync'')"

definition subject_cell :: "service_status \<Rightarrow> string" where
  "subject_cell s =
     (case ss_Revisions s of
        None \<Rightarrow> ''-''
      | Some revs \<Rightarrow>
          (case map_of revs (ss_ManifestDigest s) of
             None \<Rightarrow> ''-''
           | Some r \<Rightarrow> if rv_Subject r \<noteq> [] then truncate_text (rv_Subject r) 50 else ''-''))"

definition status_row :: "service_status \<Rightarrow> string list" where
  "status_row s =
     [ss_Name s, short (ss_RunningDigest s), short (ss_ManifestDigest s), short (ss_LatestAvailable s),
      state_cell s, subject_cell s]"

definition cmdStatus ::
    "codec \<Rightarrow> surroundings \<Rightarrow> 'w net \<Rightarrow> string list \<Rightarrow> ('w, string list list) act" where
  "cmdStatus j su net args w =
     (case flag_parse connection_flags [] args of
        Inl e \<Rightarrow> (Inl e, w)
      | Inr (got, _) \<Rightarrow>
     (case flag_client su got of
        Inl e \<Rightarrow> (Inl e, w)
      | Inr c \<Rightarrow>
          try_val (cli_services j su net c) (\<lambda>e. e) (\<lambda>services.
            done_with ([''SERVICE'', ''RUNNING'', ''MANIFEST'', ''LATEST'', ''STATE'', ''COMMIT'']
                       # map status_row services)) w))"

definition history_row :: "surroundings \<Rightarrow> entry \<Rightarrow> string list" where
  "history_row su e =
     [su_localTime su (ent_StartedAt e), ent_Action e, ent_Actor e, short (ent_NewDigest e),
      if ent_PRNumber e > 0 then ''#'' @ Itoa (ent_PRNumber e) else ''-'', ent_State e,
      truncate_text (ent_Detail e) 60]"

definition int_flag :: "surroundings \<Rightarrow> string \<Rightarrow> go_error option" where
  "int_flag su v = (case su_int su v of Inl e \<Rightarrow> Some e | Inr _ \<Rightarrow> None)"

definition count_of :: "surroundings \<Rightarrow> (string \<times> string) list \<Rightarrow> int" where
  "count_of su got = (case map_of (rev got) ''n'' of None \<Rightarrow> 20 | Some v \<Rightarrow> projr (su_int su v))"

definition cmdHistory ::
    "codec \<Rightarrow> surroundings \<Rightarrow> 'w net \<Rightarrow> string list \<Rightarrow> ('w, string list list) act" where
  "cmdHistory j su net args w =
     (case parseWithOperand (connection_flags(''n'' \<mapsto> int_flag su)) args of
        Inl e \<Rightarrow> (Inl e, w)
      | Inr (got, service) \<Rightarrow>
     (case flag_client su got of
        Inl e \<Rightarrow> (Inl e, w)
      | Inr c \<Rightarrow>
          try_val (cli_history j su net c service (count_of su got)) (\<lambda>e. e) (\<lambda>entries.
            done_with ([''WHEN'', ''ACTION'', ''ACTOR'', ''DIGEST'', ''PR'', ''STATE'', ''DETAIL'']
                       # map (history_row su) entries)) w))"

section \<open>Subcommands\<close>

text \<open>\<open>run\<close>: the exit code of each subcommand. A table becomes lines by \<open>tab\<close>; \<open>usage\<close> is the help text.\<close>

definition tabled :: "(string list list \<Rightarrow> string list) \<Rightarrow> string list list result \<times> 'w \<Rightarrow> outcome \<times> 'w" where
  "tabled tab rw =
     (case rw of (Inl e, w) \<Rightarrow> (complaint e, w) | (Inr rows, w) \<Rightarrow> ((0, tab rows, []), w))"

definition cli_run ::
    "codec \<Rightarrow> (string \<Rightarrow> cli_event option) \<Rightarrow> surroundings \<Rightarrow> 'w net \<Rightarrow>
     (string list \<Rightarrow> go_error option \<times> string list) \<Rightarrow> (string list list \<Rightarrow> string list) \<Rightarrow>
     string list \<Rightarrow> string \<Rightarrow> string list \<Rightarrow> 'w \<Rightarrow> outcome \<times> 'w" where
  "cli_run j um su net validate tab usage version args w =
     (case args of
        [] \<Rightarrow> ((2, [], usage), w)
      | sub # rest \<Rightarrow>
          if sub \<in> {''--version'', ''-version'', ''version''} then ((0, [''snowdeploy '' @ version], []), w)
          else if sub = ''validate'' then
            (case validate rest of
               (Some e, out) \<Rightarrow> ((1, out, [''snowdeploy: '' @ err_text e]), w)
             | (None, out) \<Rightarrow> ((0, out, []), w))
          else if sub = ''status'' then tabled tab (cmdStatus j su net rest w)
          else if sub \<in> {''deploy'', ''rollback'', ''converge''} then followedCommand j um su net sub rest w
          else if sub = ''history'' then tabled tab (cmdHistory j su net rest w)
          else if sub \<in> {''help'', ''-h'', ''--help''} then ((0, usage, []), w)
          else ((2, [], (''snowdeploy: unknown subcommand '' @ quote sub) # [] # usage), w))"

section \<open>Frames come through\<close>

text \<open>The events of a stream, as the lines of it carry them.\<close>

definition carried :: "(string \<Rightarrow> cli_event option) \<Rightarrow> string \<Rightarrow> cli_event option" where
  "carried um l = (if HasPrefix l ''data: '' then um (TrimPrefix l ''data: '') else None)"

definition received :: "(string \<Rightarrow> cli_event option) \<Rightarrow> int \<Rightarrow> string list \<Rightarrow> cli_event list" where
  "received um jid ls =
     filter (\<lambda>ev. jid = 0 \<or> ce_JournalID ev = jid) (List.map_filter (carried um) ls)"

lemma nextEvent_None: "nextEvent um jid ls = None \<longleftrightarrow> received um jid ls = []"
  by (induction um jid ls rule: nextEvent.induct) (auto simp: received_def carried_def split: option.split)

lemma nextEvent_Some:
  "nextEvent um jid ls = Some (ev, rest) \<Longrightarrow> received um jid ls = ev # received um jid rest"
  by (induction um jid ls rule: nextEvent.induct)
     (auto simp: received_def carried_def split: if_splits option.splits)

text \<open>The exit code is decided by the first terminal event.\<close>

lemma follow_code:
  "fst (follow um jid ls) =
     (case find (\<lambda>ev. ce_State ev \<in> set terminalStates) (received um jid ls) of
        None \<Rightarrow> 1 | Some ev \<Rightarrow> if ce_State ev = ''healthy'' then 0 else 1)"
proof (induction um jid ls rule: follow.induct)
  case (1 um jid ls)
  show ?case
  proof (cases "nextEvent um jid ls")
    case None
    then have "received um jid ls = []" by (simp add: nextEvent_None)
    with None show ?thesis by (subst follow.simps) simp
  next
    case (Some p)
    then show ?thesis
      using "1.IH" nextEvent_Some [of um jid ls "fst p" "snd p"]
      by (subst follow.simps) (cases p; simp add: split_beta)
  qed
qed

lemma digit_chars: "c \<in> set (digits_of n) \<Longrightarrow> 0 \<le> n \<Longrightarrow> c \<in> set ''0123456789''"
proof (induction n rule: digits_of.induct)
  case (1 n)
  have one: "char_of (48 + k) \<in> set ''0123456789''" if "0 \<le> k" "k < 10" for k :: int
  proof -
    have "k = 0 \<or> k = 1 \<or> k = 2 \<or> k = 3 \<or> k = 4 \<or> k = 5 \<or> k = 6 \<or> k = 7 \<or> k = 8 \<or> k = 9"
      using that by arith
    then show ?thesis by (elim disjE) (simp_all only:, code_simp+)
  qed
  show ?case
  proof (cases "n < 10")
    case True
    then show ?thesis using "1.prems" one [of n] by (subst (asm) digits_of.simps) simp
  next
    case False
    then have "c \<in> set (digits_of (n div 10)) \<or> c = char_of (48 + n mod 10)"
      using "1.prems"(1) by (subst (asm) digits_of.simps) auto
    then show ?thesis using "1.IH" False one [of "n mod 10"] "1.prems"(2) by fastforce
  qed
qed

lemma digits_length: "0 \<le> n \<Longrightarrow> n < 10 ^ Suc k \<Longrightarrow> length (digits_of n) \<le> Suc k"
proof (induction k arbitrary: n)
  case 0
  then show ?case by (subst digits_of.simps) simp
next
  case (Suc k)
  have "length (digits_of (n div 10)) \<le> Suc k" using Suc by (intro Suc.IH) auto
  then show ?case by (subst digits_of.simps) simp
qed

lemma digits_nonempty [simp]: "digits_of n \<noteq> []"
  by (subst digits_of.simps) simp

definition int64 :: "int \<Rightarrow> bool" where
  "int64 i \<longleftrightarrow> - (2 ^ 63) \<le> i \<and> i < 2 ^ 63"

lemma Itoa_int64:
  assumes "int64 i"
  shows "length (Itoa i) \<le> 20" "line_end \<notin> set (Itoa i) \<and> CHR 0x0D \<notin> set (Itoa i)" "Itoa i \<noteq> []"
proof -
  have "length (digits_of \<bar>i\<bar>) \<le> Suc 18" using assms by (intro digits_length) (auto simp: int64_def)
  then show "length (Itoa i) \<le> 20" by (auto simp: Itoa_def)
  show "line_end \<notin> set (Itoa i) \<and> CHR 0x0D \<notin> set (Itoa i)"
    by (auto simp: Itoa_def line_end_def dest: digit_chars)
  show "Itoa i \<noteq> []" by (simp add: Itoa_def)
qed

text \<open>A line that the scanner hands on as it is.\<close>

definition clean_line :: "string \<Rightarrow> bool" where
  "clean_line l \<longleftrightarrow> line_end \<notin> set l \<and> CHR 0x0D \<notin> set l \<and> Text_Io.fits l"

lemma scan_clean: "list_all clean_line ls \<Longrightarrow> scan_lines (unlines ls) = (ls, None)"
proof -
  assume c: "list_all clean_line ls"
  have "map drop_cr ls = ls"
    using c last_in_set by (intro map_idI drop_cr_same) (fastforce simp: list_all_iff clean_line_def)
  then show ?thesis using c scan_unlines [of ls] by (simp add: list_all_iff clean_line_def)
qed

definition cli_event_of :: "event \<Rightarrow> cli_event" where
  "cli_event_of ev =
     \<lparr>ce_Service = ev_Service ev, ce_Action = ev_Action ev, ce_State = ev_State ev,
      ce_Detail = ev_Detail ev, ce_JournalID = ev_JournalID ev, ce_PRURL = ev_PRURL ev,
      ce_MergeURL = ev_MergeURL ev\<rparr>"

text \<open>
  An event that fits a frame: its JSON is one line, short enough for the scanner, and is read back as
  the same fields.
\<close>

definition framed :: "(event \<Rightarrow> string option) \<Rightarrow> (string \<Rightarrow> cli_event option) \<Rightarrow> event \<Rightarrow> bool" where
  "framed marshal um ev \<longleftrightarrow>
     int64 (ev_JournalID ev) \<and>
     (case marshal ev of
        None \<Rightarrow> False
      | Some payload \<Rightarrow>
          line_end \<notin> set payload \<and> CHR 0x0D \<notin> set payload \<and>
          length payload + 6 < max_scan_token \<and> um payload = Some (cli_event_of ev))"

fun frame_events :: "stream_input list \<Rightarrow> event list" where
  "frame_events [] = []"
| "frame_events (KeepAlive # xs) = frame_events xs"
| "frame_events (Frame ev # xs) = ev # frame_events xs"

lemma id_line_clean:
  assumes "int64 i" "int64 q"
  shows "clean_line (''id: '' @ Itoa i @ ''-'' @ Itoa q)"
proof -
  have "line_end \<notin> set ''id: -'' \<and> CHR 0x0D \<notin> set ''id: -''" by (simp add: line_end_def)
  then show ?thesis
    using assms Itoa_int64(1,2) [of i] Itoa_int64(1,2) [of q]
    by (simp add: clean_line_def Text_Io.fits_def max_scan_token_def)
qed

lemma stream_lines_clean:
  assumes "list_all (framed marshal um) (frame_events xs)" "0 \<le> seq" "seq + int (length xs) < 2 ^ 63"
  shows "list_all clean_line (stream_lines marshal seq xs) \<and>
    List.map_filter (carried um) (stream_lines marshal seq xs) = map cli_event_of (frame_events xs)"
  using assms
proof (induction xs arbitrary: seq rule: frame_events.induct)
  case 1
  then show ?case by simp
next
  case (2 xs)
  then show ?case
    by (auto simp: keep_alive_lines_def clean_line_def line_end_def Text_Io.fits_def max_scan_token_def carried_def
        HasPrefix_def)
next
  case (3 ev xs)
  then obtain payload where p: "marshal ev = Some payload" "line_end \<notin> set payload"
      "CHR 0x0D \<notin> set payload" "length payload + 6 < max_scan_token" "um payload = Some (cli_event_of ev)"
      "int64 (ev_JournalID ev)"
    by (auto simp: framed_def split: option.splits)
  have "int64 (seq + 1)" using "3.prems" by (simp add: int64_def)
  then have lines: "list_all clean_line (frame_lines (ev_JournalID ev) (seq + 1) payload)"
    using p id_line_clean by (auto simp: frame_lines_def clean_line_def line_end_def Text_Io.fits_def max_scan_token_def
        simp del: append_Cons)
  have "List.map_filter (carried um) (frame_lines (ev_JournalID ev) (seq + 1) payload) = [cli_event_of ev]"
    using p(5) by (simp add: frame_lines_def carried_def HasPrefix_def TrimPrefix_def)
  then show ?case
    using "3.IH" [of "seq + 1"] "3.prems" lines p(1) by (simp add: List.map_filter_def)
qed

lemma frames_received:
  assumes "list_all (framed marshal um) (frame_events xs)" "int (length xs) < 2 ^ 63"
  shows "scan_lines (unlines (stream_lines marshal 0 xs)) = (stream_lines marshal 0 xs, None)"
    and "received um jid (stream_lines marshal 0 xs) =
      filter (\<lambda>ev. jid = 0 \<or> ce_JournalID ev = jid) (map cli_event_of (frame_events xs))"
  using stream_lines_clean [of marshal um xs 0] assms scan_clean by (simp_all add: received_def)

text \<open>
  What the daemon streams is what the command reads. Over frames and keep-alives in any mixture,
  for events whose JSON is one line that fits the scanner and decodes to the same fields, the scanner
  reads the stream to its end without an error and the command is handed the run's events, all of them,
  once, in the order they were sent.
\<close>

theorem frames_round_trip:
  assumes "list_all (framed marshal um) (frame_events xs)" "int (length xs) < 2 ^ 63"
  shows "snd (scan_lines (unlines (stream_lines marshal 0 xs))) = None \<and>
    received um jid (fst (scan_lines (unlines (stream_lines marshal 0 xs)))) =
      filter (\<lambda>ev. jid = 0 \<or> ce_JournalID ev = jid) (map cli_event_of (frame_events xs))"
  using frames_received [OF assms] by simp

text \<open>A codec that carries the state and the detail of one run's events.\<close>

definition sample_marshal :: "event \<Rightarrow> string option" where
  "sample_marshal ev = Some (ev_State ev @ ''|'' @ ev_Detail ev)"

definition sample_unmarshal :: "string \<Rightarrow> cli_event option" where
  "sample_unmarshal s = (case Cut s (CHR ''|'') of (st, d, _) \<Rightarrow>
     Some \<lparr>ce_Service = ''web'', ce_Action = ''converge'', ce_State = st, ce_Detail = d, ce_JournalID = 7,
           ce_PRURL = [], ce_MergeURL = []\<rparr>)"

definition sample_frame :: event where
  "sample_frame = sample_event\<lparr>ev_Action := ''converge''\<rparr>"

definition sample_fits :: "event \<Rightarrow> bool" where
  "sample_fits ev \<longleftrightarrow>
     ev_Service ev = ''web'' \<and> ev_Action ev = ''converge'' \<and> ev_JournalID ev = 7 \<and>
     ev_PRURL ev = [] \<and> ev_MergeURL ev = [] \<and> CHR ''|'' \<notin> set (ev_State ev) \<and>
     list_all (\<lambda>c. c \<noteq> line_end \<and> c \<noteq> CHR 0x0D) (ev_State ev @ ev_Detail ev) \<and>
     length (ev_State ev @ ev_Detail ev) < 200"

lemma Cut_at: "c \<notin> set s \<Longrightarrow> Cut (s @ c # t) c = (s, t, True)"
  by (induction s) auto

lemma sample_framed:
  assumes "sample_fits ev"
  shows "framed sample_marshal sample_unmarshal ev"
proof -
  have "CHR ''|'' \<noteq> line_end" by (simp add: line_end_def)
  then show ?thesis
    using assms Cut_at [of "CHR ''|''" "ev_State ev" "ev_Detail ev"]
    by (auto simp: framed_def sample_marshal_def sample_unmarshal_def sample_fits_def int64_def
        max_scan_token_def cli_event_of_def list_all_iff)
qed

lemma sample_frame_fits: "sample_fits sample_frame"
  by (simp add: sample_fits_def sample_frame_def sample_event_def line_end_def)

theorem frames_round_trip_witness:
  "received sample_unmarshal 7
     (fst (scan_lines (unlines (stream_lines sample_marshal 0 [KeepAlive, Frame sample_frame])))) =
   [cli_event_of sample_frame]"
  using frames_round_trip [of sample_marshal sample_unmarshal "[KeepAlive, Frame sample_frame]" 7]
    sample_framed [OF sample_frame_fits] by (simp add: cli_event_of_def sample_frame_def sample_event_def)

section \<open>The exit code\<close>

lemma find_cli: "find (\<lambda>ev. ce_State ev \<in> set terminalStates) (map cli_event_of evs) =
    map_option cli_event_of (find (\<lambda>e. isTerminal (ev_State e)) evs)"
  by (induction evs) (auto simp: cli_event_of_def terminalStates_def isTerminal_def)

lemma find_last:
  "list_all (\<lambda>x. \<not> P x) xs \<Longrightarrow> P y \<Longrightarrow> find P (xs @ [y]) = Some y"
  by (induction xs) simp_all

text \<open>
  C10. The exit code is the receipt. A command that follows a run over a stream on which the run's
  events arrive whole and in order, between frames of other runs and keep-alives, exits with 0 exactly
  when the last thing the run journalled is \<open>healthy\<close>, and with 1 otherwise.
\<close>

theorem exit_code_is_receipt:
  assumes "opt_Notify opts" "rq_id req \<noteq> 0" "int (length xs) < 2 ^ 63"
    and "list_all (framed marshal um) (frame_events xs)"
    and "filter (\<lambda>e. ev_JournalID e = rq_id req) (frame_events xs) = events (run_log h opts req w)"
  shows "\<exists>st d. last (jnotes (run_log h opts req w)) = (rq_id req, st, d) \<and> isTerminal st \<and>
    fst (follow um (rq_id req) (fst (scan_lines (unlines (stream_lines marshal 0 xs))))) =
      (if st = StateHealthy then 0 else 1)"
proof -
  let ?evs = "events (run_log h opts req w)" and ?ns = "jnotes (run_log h opts req w)"
  have told: "list_all2 (tells req) ?evs ?ns" using run_told [OF assms(1)] by (simp add: told_def)
  obtain before ev where evs: "?evs = before @ [ev]" "isTerminal (ev_State ev)"
      "list_all (\<lambda>e. \<not> isTerminal (ev_State e)) before" "ev_JournalID ev = rq_id req"
    using run_stream [OF assms(1), of req h w] unfolding ended_stream_def by auto
  obtain before' n where "?ns = before' @ [n]" "tells req ev n"
    using told unfolding evs(1) by (auto simp: list_all2_append1 list_all2_Cons1)
  then have said: "last ?ns = (rq_id req, ev_State ev, ev_Detail ev)"
    using evs(4) by (simp add: tells_def)
  have got: "received um (rq_id req) (stream_lines marshal 0 xs) = map cli_event_of ?evs"
    unfolding frames_received(2) [OF assms(4,3)] assms(5) [symmetric] filter_map
    using assms(2) by (simp add: comp_def cli_event_of_def)
  have "find (\<lambda>e. isTerminal (ev_State e)) ?evs = Some ev"
    unfolding evs(1) by (rule find_last [OF evs(3,2)])
  then have "fst (follow um (rq_id req) (stream_lines marshal 0 xs)) = (if ev_State ev = StateHealthy then 0 else 1)"
    unfolding follow_code got find_cli by (simp add: cli_event_of_def)
  then show ?thesis using said evs(2) frames_received(1) [OF assms(4,3)] by auto
qed

definition sample_failure :: "event list" where
  "sample_failure = events (run_log sample_handler sample_options (sample_request ActionConverge) 0)"

lemma sample_failure_fits: "list_all sample_fits sample_failure" "length sample_failure = 2"
  by code_simp+

theorem exit_code_is_receipt_witness:
  "\<exists>st. isTerminal st \<and>
     fst (follow sample_unmarshal 7 (fst (scan_lines (unlines (stream_lines sample_marshal 0
       (map Frame sample_failure)))))) = (if st = StateHealthy then 0 else 1)"
proof -
  let ?r = "sample_request ActionConverge" and ?xs = "map Frame sample_failure"
  have fr: "frame_events (map Frame es) = es" for es by (induction es) simp_all
  have id: "rq_id ?r \<noteq> 0" by (simp add: sample_request_sel)
  have few: "int (length ?xs) < 2 ^ 63" by (simp add: sample_failure_fits)
  have framed: "list_all (framed sample_marshal sample_unmarshal) (frame_events ?xs)"
    unfolding fr using sample_failure_fits(1) by (rule list.pred_mono_strong) (rule sample_framed)
  have own: "filter (\<lambda>e. ev_JournalID e = rq_id ?r) (frame_events ?xs) =
      events (run_log sample_handler sample_options ?r 0)"
    using sample_failure_fits(1) unfolding fr sample_failure_def [symmetric]
    by (auto simp: filter_id_conv list_all_iff sample_request_sel(3) sample_fits_def)
  obtain st d where "isTerminal st"
      "fst (follow sample_unmarshal (rq_id ?r) (fst (scan_lines (unlines (stream_lines sample_marshal 0 ?xs))))) =
        (if st = StateHealthy then 0 else 1)"
    using exit_code_is_receipt [OF sample_options_sel(1) id few framed own] by blast
  then show ?thesis unfolding sample_request_sel(3) by blast
qed

section \<open>The token\<close>

lemma TrimLeftSpace_done: "TrimLeftSpace s = [] \<or> space_len (TrimLeftSpace s) = 0"
proof (induction s rule: TrimLeftSpace.induct)
  case (1 s)
  show ?case
  proof (cases "s \<noteq> [] \<and> space_len s \<noteq> 0")
    case True
    then show ?thesis using "1.IH" by (subst (1 2) TrimLeftSpace.simps) simp
  next
    case False
    then show ?thesis by (subst (1 2) TrimLeftSpace.simps) auto
  qed
qed

lemma TrimRightSpace_prefix: "prefix (TrimRightSpace s) s"
proof (induction s rule: TrimRightSpace.induct)
  case (1 s)
  show ?case
  proof (cases "s \<noteq> [] \<and> space_len_end s \<noteq> 0")
    case True
    then have "TrimRightSpace s = TrimRightSpace (take (length s - space_len_end s) s)"
      by (subst TrimRightSpace.simps) simp
    then show ?thesis using "1.IH" True take_is_prefix prefix_order.trans by metis
  next
    case False
    then show ?thesis by (subst TrimRightSpace.simps) auto
  qed
qed

lemma space_len_mono: "prefix y t \<Longrightarrow> space_len t = 0 \<Longrightarrow> space_len y = 0"
  unfolding space_len_def rune_len_zero [OF no_empty_rune(1)] using prefix_order.trans by blast

lemma TrimSpace_idem: "TrimSpace (TrimSpace s) = TrimSpace s"
proof -
  have "space_len (TrimSpace s) = 0"
  proof (cases "TrimLeftSpace s = []")
    case True
    then show ?thesis unfolding TrimSpace_def by (subst TrimRightSpace.simps) simp
  next
    case False
    then show ?thesis
      unfolding TrimSpace_def using space_len_mono [OF TrimRightSpace_prefix] TrimLeftSpace_done by blast
  qed
  then have "TrimLeftSpace (TrimSpace s) = TrimSpace s" by (subst TrimLeftSpace.simps) simp
  moreover have "TrimRightSpace (TrimSpace s) = TrimSpace s"
    using TrimRightSpace_done [of "TrimLeftSpace s"] by (subst TrimRightSpace.simps) (auto simp: TrimSpace_def)
  ultimately show ?thesis unfolding TrimSpace_def [of "TrimSpace s"] by simp
qed

definition header_of :: "(string \<times> string) list \<Rightarrow> header" where
  "header_of hs name = map snd (filter (\<lambda>(n, _). n = name) hs)"

text \<open>
  The operator's token is the daemon's. Whatever white space the token file has around its token, a
  request the client could authorize is judged by the daemon as carrying exactly that token, and never
  falls to the browser's path.
\<close>

theorem token_reaches_the_daemon:
  assumes "authorize su c q = Inr q'" "cl_tokenFile c \<noteq> []"
    and "''Authorization'' \<notin> fst ` set (cq_Header q)"
  shows "\<exists>raw. su_file su (cl_tokenFile c) = Inr raw \<and> TrimSpace raw \<noteq> [] \<and>
    bearerToken (header_of (cq_Header q')) = Some (TrimSpace raw) \<and>
    actor hex_sha sha read a (header_of (cq_Header q')) = matchToken hex_sha read a (TrimSpace raw)"
proof -
  obtain raw where raw: "su_file su (cl_tokenFile c) = Inr raw" "TrimSpace raw \<noteq> []"
      "cq_Header q' = cq_Header q @ [(''Authorization'', ''Bearer '' @ TrimSpace raw)]"
    using assms(1,2) by (auto simp: authorize_def Let_def split: sum.splits if_splits)
  have "filter (\<lambda>(n, _). n = ''Authorization'') (cq_Header q) = []"
    using assms(3) by (force simp: filter_empty_conv)
  then have "header_Get (header_of (cq_Header q')) ''Authorization'' = ''Bearer '' @ TrimSpace raw"
    by (simp add: header_of_def raw(3) header_Get_def)
  then have "bearerToken (header_of (cq_Header q')) = Some (TrimSpace raw)"
    using raw(2) by (simp add: bearerToken_def Let_def HasPrefix_def TrimPrefix_def TrimSpace_idem)
  then show ?thesis using raw by (simp add: actor_def)
qed

definition sample_surroundings :: surroundings where
  "sample_surroundings =
     \<lparr>su_url = (\<lambda>_. None), su_request = (\<lambda>_ _. None),
      su_file = (\<lambda>_. Inr (''s3cret'' @ [CHR 0x0A])), su_server = ''http://127.0.0.1:8092/'',
      su_tokenFile = ''/t'', su_duration = (\<lambda>_. None), su_int = (\<lambda>_. Inr 1), su_localTime = (\<lambda>_. ''now'')\<rparr>"

definition sample_client :: cli_client where
  "sample_client = \<lparr>cl_baseURL = ''http://127.0.0.1:8092'', cl_tokenFile = ''/t''\<rparr>"

lemma sample_newClient: "newClient sample_surroundings ''http://127.0.0.1:8092/'' ''/t'' = Inr sample_client"
  by code_simp

theorem token_reaches_the_daemon_witness:
  "bearerToken (header_of [(''Authorization'', ''Bearer s3cret'')]) = Some ''s3cret''"
proof -
  let ?q = "\<lparr>cq_Method = ''GET'', cq_URL = ''/'', cq_Header = [], cq_Body = None\<rparr>"
  have trim: "TrimSpace (''s3cret'' @ [CHR 0x0A]) = ''s3cret''" by code_simp
  have "authorize sample_surroundings sample_client ?q =
      Inr (?q\<lparr>cq_Header := [(''Authorization'', ''Bearer s3cret'')]\<rparr>)"
    using trim by (simp add: authorize_def sample_surroundings_def sample_client_def)
  from token_reaches_the_daemon [OF this] trim show ?thesis
    by (simp add: sample_client_def sample_surroundings_def)
qed

section \<open>What a command sends\<close>

text \<open>The network with a log of the requests it was given.\<close>

definition logged :: "'w net \<Rightarrow> ('w \<times> cli_request list) net" where
  "logged net q wl = (case net q (fst wl) of (r, w') \<Rightarrow> (r, (w', snd wl @ [q])))"

definition asks :: "cli_client \<Rightarrow> string \<Rightarrow> string \<Rightarrow> cli_request \<Rightarrow> bool" where
  "asks c verb p q \<longleftrightarrow> cq_Method q = verb \<and> cq_URL q = cl_baseURL c @ p"

lemma newRequest_asks:
  "newRequest su c verb p content = Inr q \<Longrightarrow>
     asks c verb p q \<and> cq_Body q = map_option projr content \<and> (\<forall>e. content \<noteq> Some (Inl e))"
  by (auto simp: newRequest_def authorize_def asks_def Let_def split: option.splits sum.splits if_splits)

lemma cli_do_log:
  assumes "cli_do j su (logged net) c verb p content dec (w, log) = (r, (w', log'))"
  shows "log' = log \<and> isl r \<or> (\<exists>q. log' = log @ [q] \<and> newRequest su c verb p content = Inr q)"
  using assms
  by (auto simp: cli_do_def logged_def split: sum.splits prod.splits if_splits)

lemma openEvents_log:
  assumes "openEvents j su (logged net) c (w, log) = (r, (w', log'))"
  shows "log' = log \<and> isl r \<or> (\<exists>q. log' = log @ [q] \<and> asks c ''GET'' ''/api/v1/events'' q)"
  using assms
  by (auto simp: openEvents_def logged_def asks_def dest!: newRequest_asks
      split: sum.splits prod.splits if_splits)

lemma asked_digest_log:
  assumes "asked_digest j su (logged net) c action service got (w, log) = (r, (w', log'))"
  shows "log' = log \<or> (\<exists>q. log' = log @ [q] \<and> asks c ''GET'' ''/api/v1/services'' q)"
proof (cases "asked_digest j su (logged net) c action service got = latestFor j su (logged net) c service")
  case True
  obtain r1 w1 log1 where "cli_services j su (logged net) c (w, log) = (r1, (w1, log1))"
    by (metis prod.collapse)
  moreover have "log' = log1"
    using assms calculation unfolding True
    by (auto simp: latestFor_def act_defs split: sum.splits option.splits if_splits)
  ultimately show ?thesis
    using cli_do_log [of j su net c "''GET''" "''/api/v1/services''" None "j_services j" w log r1 w1 log1]
    by (auto simp: cli_services_def dest: newRequest_asks)
next
  case False
  then show ?thesis using assms by (auto simp: asked_digest_def Let_def act_defs split: if_splits)
qed

text \<open>
  What a followed command may have sent when it is done: nothing that changes anything, or one post,
  as the last request and right after the event stream was asked for.
\<close>

definition one_post :: "codec \<Rightarrow> cli_client \<Rightarrow> string \<Rightarrow> string \<Rightarrow> string \<Rightarrow> cli_request list \<Rightarrow> bool" where
  "one_post j c action service target log \<longleftrightarrow>
     (\<exists>before events post. log = before @ [events, post] \<and>
        list_all (\<lambda>q. cq_Method q = ''GET'') before \<and>
        asks c ''GET'' ''/api/v1/events'' events \<and> asks c ''POST'' (start_path action service) post \<and>
        cq_Body post = (if action = ''converge'' then None else Some (projr (j_digest j target))))"

lemma start_and_follow_log:
  assumes "start_and_follow j um su (logged net) c action service target (w, log) = ((code, out, err), (w', log'))"
    and "list_all (\<lambda>q. cq_Method q = ''GET'') log"
  shows "list_all (\<lambda>q. cq_Method q = ''GET'') log' \<and> code \<noteq> 0 \<or> one_post j c action service target log'"
proof -
  obtain r1 w1 log1 where o: "openEvents j su (logged net) c (w, log) = (r1, (w1, log1))"
    by (metis prod.collapse)
  have reads: "list_all (\<lambda>q. cq_Method q = ''GET'') log1"
    using openEvents_log [OF o] assms(2) by (auto simp: asks_def)
  show ?thesis
  proof (cases r1)
    case (Inl e)
    then show ?thesis using assms(1) o reads by (auto simp: start_and_follow_def complaint_def)
  next
    case (Inr stream)
    then obtain ev where ev: "log1 = log @ [ev]" "asks c ''GET'' ''/api/v1/events'' ev"
      using openEvents_log [OF o] by auto
    obtain r2 w2 log2 where st: "startDeploy j su (logged net) c action service target (w1, log1) = (r2, (w2, log2))"
      by (metis prod.collapse)
    have log2: "log' = log2" and code: "isl r2 \<Longrightarrow> code = 1"
      using assms(1) o Inr st
      by (auto simp: start_and_follow_def complaint_def isl_def split: sum.splits prod.splits)
    consider "log2 = log1" "isl r2" | q where "log2 = log1 @ [q]"
        "newRequest su c ''POST'' (start_path action service)
           (if action \<noteq> ''converge'' then Some (j_digest j target) else None) = Inr q"
      using cli_do_log [OF st [unfolded startDeploy_def]] by blast
    then show ?thesis
    proof cases
      case 1
      then show ?thesis using log2 code reads by simp
    next
      case (2 q)
      then show ?thesis
        using newRequest_asks [OF 2(2)] ev assms(2) log2 unfolding one_post_def by auto
    qed
  qed
qed

text \<open>
  A command changes at most what it was asked to. Whatever the network answers, \<open>deploy\<close>,
  \<open>rollback\<close> and \<open>converge\<close> send nothing but reads, or end with exactly one post: to the action's path
  of the one service named, after the event stream was opened, carrying the digest of the flag, or of the
  newest known image for a bare deploy, or no body for converge. An exit code of 0 means the post was sent.
\<close>

theorem command_sends_one_post:
  assumes "followedCommand j um su (logged net) action args (w, []) = ((code, out, err), (w', log))"
  shows "(list_all (\<lambda>q. cq_Method q = ''GET'') log \<and> code \<noteq> 0) \<or>
    (\<exists>got service c target w1 log1.
       parseWithOperand (followed_flags su action) args = Inr (got, service) \<and>
       flag_client su got = Inr c \<and>
       asked_digest j su (logged net) c action service got (w, []) = (Inr target, (w1, log1)) \<and>
       one_post j c action service target log)"
proof -
  have get: "cq_Method q = ''GET''" if "asks c ''GET'' p q" for c p q using that by (simp add: asks_def)
  show ?thesis
  proof (cases "parseWithOperand (followed_flags su action) args")
    case (Inl e)
    then show ?thesis using assms by (auto simp: followedCommand_def)
  next
    case (Inr gs)
    then obtain got service where gs: "parseWithOperand (followed_flags su action) args = Inr (got, service)"
      by (cases gs) simp
    show ?thesis
    proof (cases "flag_client su got")
      case (Inl e)
      then show ?thesis using assms gs by (auto simp: followedCommand_def complaint_def)
    next
      case (Inr c)
      obtain t w1 log1 where t: "asked_digest j su (logged net) c action service got (w, []) = (t, (w1, log1))"
        by (metis prod.collapse)
      have reads: "list_all (\<lambda>q. cq_Method q = ''GET'') log1"
        using asked_digest_log [OF t] get by auto
      show ?thesis
      proof (cases t)
        case (Inl e)
        then show ?thesis using assms gs \<open>flag_client su got = Inr c\<close> t reads
          by (auto simp: followedCommand_def complaint_def)
      next
        case (Inr target)
        then have "start_and_follow j um su (logged net) c action service target (w1, log1) = ((code, out, err), (w', log))"
          using assms gs \<open>flag_client su got = Inr c\<close> t by (simp add: followedCommand_def)
        from start_and_follow_log [OF this reads] show ?thesis
          using gs \<open>flag_client su got = Inr c\<close> t Inr by blast
      qed
    qed
  qed
qed

definition sample_codec :: codec where
  "sample_codec =
     \<lparr>j_digest = (\<lambda>d. Inr d), j_error = (\<lambda>_. None), j_services = (\<lambda>_. Inr []), j_history = (\<lambda>_. Inr []),
      j_started = (\<lambda>_. Inr 7)\<rparr>"

definition sample_net :: "unit net" where
  "sample_net q w = (Inr \<lparr>an_StatusCode = 200, an_Status = ''200 OK'', an_Body = []\<rparr>, w)"

definition sample_command :: "outcome \<times> (unit \<times> cli_request list)" where
  "sample_command =
     followedCommand sample_codec sample_unmarshal sample_surroundings (logged sample_net)
       ''converge'' [''web'', ''--timeout=5m''] ((), [])"

lemma sample_command_log: "map cq_Method (snd (snd sample_command)) = [''GET'', ''POST'']"
  by code_simp

theorem command_sends_one_post_witness:
  "\<exists>service target. one_post sample_codec sample_client ''converge'' service target (snd (snd sample_command))"
proof -
  obtain code out err w' log where o: "sample_command = ((code, out, err), (w', log))"
    by (metis prod.collapse)
  have posted: "\<not> list_all (\<lambda>q. cq_Method q = ''GET'') log"
    using sample_command_log by (auto simp: o list_all_iff)
  have c: "flag_client sample_surroundings got = Inr sample_client"
    if "parseWithOperand (followed_flags sample_surroundings ''converge'') [''web'', ''--timeout=5m''] = Inr (got, service)"
    for got service
  proof -
    have "parseWithOperand (followed_flags sample_surroundings ''converge'') [''web'', ''--timeout=5m''] =
        Inr ([(''timeout'', ''5m'')], ''web'')" by code_simp
    then have "got = [(''timeout'', ''5m'')]" using that by simp
    moreover have "flag_client sample_surroundings [(''timeout'', ''5m'')] = Inr sample_client" by code_simp
    ultimately show ?thesis by simp
  qed
  from command_sends_one_post [OF o [unfolded sample_command_def]] posted c
  show ?thesis unfolding o snd_conv by fastforce
qed

end
