(* ===== verification/Ui.thy ===== *)
theory Ui
  imports Go_Path
begin

text \<open>
  The embedded single-page app, \<open>api/ui.go\<close> and \<open>web/embed.go\<close>: which request paths answer with a
  file of the build, which fall back to \<open>index.html\<close> and which are not found. The embedded tree is a
  function from names to files and directories; of \<open>io/fs\<close> the check of a name and of \<open>net/http\<close> the
  file server's rules are written out.
\<close>

section \<open>The embedded tree\<close>

datatype asset = AssetFile string | AssetDir "string list"

datatype fs_fault = NotExist | Invalid

type_synonym fs = "string \<Rightarrow> fs_fault + asset"

text \<open>\<open>utf8.ValidString\<close>, on bytes.\<close>

abbreviation byte :: "char \<Rightarrow> nat" where "byte c \<equiv> of_char c"

definition cont :: "char \<Rightarrow> bool" where
  "cont c \<longleftrightarrow> 0x80 \<le> byte c \<and> byte c \<le> 0xBF"

fun utf8_valid :: "string \<Rightarrow> bool" where
  "utf8_valid [] = True"
| "utf8_valid (a # s) =
     (let n = byte a in
      if n < 0x80 then utf8_valid s
      else if 0xC2 \<le> n \<and> n \<le> 0xDF then
        (case s of b # t \<Rightarrow> cont b \<and> utf8_valid t | _ \<Rightarrow> False)
      else if 0xE0 \<le> n \<and> n \<le> 0xEF then
        (case s of
           b # c # t \<Rightarrow> cont b \<and> cont c \<and> (n = 0xE0 \<longrightarrow> 0xA0 \<le> byte b) \<and> (n = 0xED \<longrightarrow> byte b \<le> 0x9F) \<and>
                     utf8_valid t
         | _ \<Rightarrow> False)
      else if 0xF0 \<le> n \<and> n \<le> 0xF4 then
        (case s of
           b # c # d # t \<Rightarrow> cont b \<and> cont c \<and> cont d \<and> (n = 0xF0 \<longrightarrow> 0x90 \<le> byte b) \<and>
                          (n = 0xF4 \<longrightarrow> byte b \<le> 0x8F) \<and> utf8_valid t
         | _ \<Rightarrow> False)
      else False)"

text \<open>\<open>fs.ValidPath\<close>, and \<open>fs.Sub\<close> as \<open>Assets\<close> calls it.\<close>

definition ValidPath :: "string \<Rightarrow> bool" where
  "ValidPath name \<longleftrightarrow>
     utf8_valid name \<and>
     (name = ''.'' \<or> list_all (\<lambda>e. e \<noteq> [] \<and> e \<noteq> ''.'' \<and> e \<noteq> ''..'') (split_on slash name))"

definition Assets :: "fs \<Rightarrow> fs_fault + fs" where
  "Assets embedded =
     (if \<not> ValidPath ''dist'' then Inl Invalid
      else Inr (\<lambda>name. if \<not> ValidPath name then Inl Invalid else embedded (PathJoin [''dist'', name])))"

definition ReadFile :: "fs \<Rightarrow> string \<Rightarrow> string option" where
  "ReadFile assets name = (case assets name of Inr (AssetFile content) \<Rightarrow> Some content | _ \<Rightarrow> None)"

section \<open>The handler\<close>

datatype ui_answer =
    UiError nat string
  | UiIndex string
  | UiFile string string
  | UiListing "string list"
  | UiMoved string

definition ui_status :: "ui_answer \<Rightarrow> nat" where
  "ui_status a = (case a of UiError code _ \<Rightarrow> code | UiMoved _ \<Rightarrow> 301 | _ \<Rightarrow> 200)"

definition page_not_found :: ui_answer where
  "page_not_found = UiError 404 ''404 page not found''"

definition serveIndex :: "fs \<Rightarrow> ui_answer" where
  "serveIndex assets =
     (case ReadFile assets ''index.html'' of
        None \<Rightarrow> UiError 500 ''web UI unavailable''
      | Some content \<Rightarrow> UiIndex content)"

text \<open>
  \<open>http.FileServerFS\<close>: the name is the cleaned path; an \<open>index.html\<close> and a directory without its slash
  are redirected, a directory answers with its \<open>index.html\<close> or with the list of its entries.
\<close>

definition Base :: "string \<Rightarrow> string" where
  "Base p = (case path_elems p of [] \<Rightarrow> ''/'' | es \<Rightarrow> last es)"

definition fs_name :: "string \<Rightarrow> string" where
  "fs_name p = (if Clean p = ''/'' then ''.'' else TrimPrefix (Clean p) ''/'')"

definition local_redirect :: "string \<Rightarrow> string \<Rightarrow> ui_answer" where
  "local_redirect target query = UiMoved (if query = [] then target else target @ ''?'' @ query)"

definition serve_dir :: "fs \<Rightarrow> string \<Rightarrow> string list \<Rightarrow> ui_answer" where
  "serve_dir assets name entries =
     (case assets (if name = ''.'' then ''index.html'' else name @ ''/index.html'') of
        Inr (AssetFile content) \<Rightarrow> UiFile (name @ ''/index.html'') content
      | Inr (AssetDir inner) \<Rightarrow> UiListing inner
      | Inl _ \<Rightarrow> UiListing entries)"

definition file_server :: "fs \<Rightarrow> string \<Rightarrow> string \<Rightarrow> ui_answer" where
  "file_server assets p query =
     (let url = (if HasPrefix p ''/'' then p else ''/'' @ p); name = fs_name url in
      if HasSuffix url ''/index.html'' then local_redirect ''./'' query
      else (case assets name of
              Inl NotExist \<Rightarrow> page_not_found
            | Inl Invalid \<Rightarrow> UiError 500 ''500 Internal Server Error''
            | Inr (AssetDir entries) \<Rightarrow>
                if \<not> HasSuffix url ''/'' then local_redirect (Base url @ ''/'') query
                else serve_dir assets name entries
            | Inr (AssetFile content) \<Rightarrow>
                if HasSuffix url ''/'' then local_redirect (''../'' @ Base url) query
                else UiFile name content))"

definition ui_handler :: "fs \<Rightarrow> string \<Rightarrow> string \<Rightarrow> ui_answer" where
  "ui_handler assets p query =
     (let clean = Clean (''/'' @ TrimPrefix p ''/'') in
      if clean = ''/'' then serveIndex assets
      else (case assets (TrimPrefix clean ''/'') of
              Inl e \<Rightarrow>
                if e \<noteq> NotExist \<or> HasPrefix clean ''/assets/'' then page_not_found
                else serveIndex assets
            | Inr _ \<Rightarrow> file_server assets p query))"

definition UI :: "fs \<Rightarrow> string \<Rightarrow> string \<Rightarrow> ui_answer" where
  "UI embedded p query =
     (case Assets embedded of Inl _ \<Rightarrow> page_not_found | Inr assets \<Rightarrow> ui_handler assets p query)"

section \<open>What a name of the tree is\<close>

text \<open>The name in the embedded tree of the elements a request's path is made of.\<close>

definition web_name :: "string list \<Rightarrow> string" where
  "web_name es = join_with ''/'' (''dist'' # es)"

lemma dist_plain: "plain_elem ''dist''"
  by (simp add: plain_elem_def)

lemma PathJoin_plain:
  assumes "\<forall>e \<in> set es. plain_elem e" "es \<noteq> []"
  shows "PathJoin [''dist'', join_with [slash] es] = web_name es"
proof -
  have one: "join_with [slash] [''dist'', join_with [slash] es] = web_name es"
    using assms(2) by (cases es) (simp_all add: web_name_def)
  have "split_on slash (web_name es) = ''dist'' # es"
    unfolding web_name_def using assms dist_plain by (intro split_on_join) (auto simp: plain_elem_def)
  moreover have "\<not> is_rooted (web_name es)"
    by (cases es) (simp_all add: web_name_def is_rooted_def HasPrefix_def)
  moreover have "\<forall>e \<in> set (''dist'' # es). plain_elem e" using assms(1) dist_plain by simp
  ultimately have "path_elems (web_name es) = ''dist'' # es"
    unfolding path_elems_def by (simp only: clean_stack_plain) simp
  then have "Clean (web_name es) = web_name es"
    using \<open>\<not> is_rooted (web_name es)\<close>
    by (simp add: Clean_def web_name_def) (cases es; simp)
  then show ?thesis unfolding PathJoin_def one [symmetric] by (simp add: Let_def)
qed

lemma ValidPath_elems:
  assumes "\<forall>e \<in> set es. plain_elem e" "es \<noteq> []"
  shows "ValidPath (join_with [slash] es) = utf8_valid (join_with [slash] es)"
proof -
  have "split_on slash (join_with [slash] es) = es"
    using assms by (intro split_on_join) (auto simp: plain_elem_def)
  then show ?thesis using assms(1) by (auto simp: ValidPath_def list_all_iff plain_elem_def)
qed

lemma ValidPath_name:
  assumes "ValidPath name"
  shows "\<exists>es. (\<forall>e \<in> set es. plain_elem e) \<and> PathJoin [''dist'', name] = web_name es"
proof (cases "name = ''.''")
  case True
  have "PathJoin [''dist'', ''.''] = web_name []" by code_simp
  then show ?thesis using True by (metis empty_iff list.set(1))
next
  case False
  have "\<forall>e \<in> set (split_on slash name). plain_elem e"
    using assms False split_on_no_sep by (fastforce simp: ValidPath_def list_all_iff plain_elem_def)
  then have "PathJoin [''dist'', name] = web_name (split_on slash name)"
    using PathJoin_plain [of "split_on slash name"] by (simp add: join_split_on)
  with \<open>\<forall>e \<in> set (split_on slash name). plain_elem e\<close> show ?thesis by blast
qed

lemma Assets_dist: "Assets embedded = Inr (\<lambda>name. if \<not> ValidPath name then Inl Invalid else embedded (PathJoin [''dist'', name]))"
proof -
  have "ValidPath ''dist''" by code_simp
  then show ?thesis by (simp add: Assets_def)
qed

text \<open>
  Nothing outside the build is served. Two embedded trees that agree below \<open>dist\<close>, at names whose
  elements are plain, answer every request the same, whatever dots and slashes its path has.
\<close>

theorem ui_serves_below_dist:
  assumes "\<And>es. (\<forall>e \<in> set es. plain_elem e) \<Longrightarrow> e1 (web_name es) = e2 (web_name es)"
  shows "UI e1 p query = UI e2 p query"
proof -
  have "Assets e1 = Assets e2"
    unfolding Assets_dist using assms ValidPath_name by (intro arg_cong [of _ _ Inr] ext) (metis)
  then show ?thesis by (simp add: UI_def)
qed

section \<open>What a request is answered\<close>

text \<open>The elements of a request's path, and the answers of the tree at them.\<close>

definition ui_elems :: "string \<Rightarrow> string list" where
  "ui_elems p = path_elems (''/'' @ TrimPrefix p ''/'')"

definition index_page :: "fs \<Rightarrow> ui_answer" where
  "index_page embedded =
     (case embedded ''dist/index.html'' of
        Inr (AssetFile content) \<Rightarrow> UiIndex content
      | _ \<Rightarrow> UiError 500 ''web UI unavailable'')"

lemma serveIndex_dist: "Assets embedded = Inr assets \<Longrightarrow> serveIndex assets = index_page embedded"
proof -
  assume "Assets embedded = Inr assets"
  moreover have "ValidPath ''index.html''" "PathJoin [''dist'', ''index.html''] = ''dist/index.html''"
    by code_simp+
  ultimately show ?thesis
    by (auto simp: Assets_dist serveIndex_def ReadFile_def index_page_def split: sum.splits asset.splits)
qed

lemma ui_elems_plain: "\<forall>e \<in> set (ui_elems p). plain_elem e"
  unfolding ui_elems_def by (intro ballI path_elems_plain) (simp_all add: is_rooted_def HasPrefix_def)

lemma ui_clean: "Clean (''/'' @ TrimPrefix p ''/'') = ''/'' @ join_with ''/'' (ui_elems p)"
  unfolding ui_elems_def by (subst Clean_rooted) (simp_all add: is_rooted_def HasPrefix_def)

lemma join_Nil_iff: "\<forall>e \<in> set es. plain_elem e \<Longrightarrow> join_with ''/'' es = [] \<longleftrightarrow> es = []"
  by (cases es rule: remdups_adj.cases) (auto simp: plain_elem_def)

lemma under_assets:
  "HasPrefix (''/'' @ join_with ''/'' (ui_elems p)) ''/assets/'' \<longleftrightarrow>
     (\<exists>gs. gs \<noteq> [] \<and> ui_elems p = ''assets'' # gs)"
  using prefix_join_iff [of "[''assets'']" slash "ui_elems p"] ui_elems_plain [of p]
  by (simp add: HasPrefix_def plain_elem_def)

lemma tree_at:
  assumes "Assets embedded = Inr assets" "\<forall>e \<in> set es. plain_elem e" "es \<noteq> []"
  shows "assets (join_with ''/'' es) =
    (if utf8_valid (join_with ''/'' es) then embedded (web_name es) else Inl Invalid)"
  using assms ValidPath_elems [of es] PathJoin_plain [of es] by (auto simp: Assets_dist)

lemma utf8_append: "utf8_valid s \<Longrightarrow> utf8_valid (s @ t) = utf8_valid t"
proof (induction s rule: utf8_valid.induct)
  case (2 a s)
  have "utf8_valid (a # s @ t) = utf8_valid t"
    using 2 unfolding utf8_valid.simps(2) [of a s] utf8_valid.simps(2) [of a "s @ t"] Let_def
    by (auto simp del: utf8_valid.simps(2) split: if_splits list.splits)
  then show ?case by simp
qed simp

lemma serve_dir_exact:
  assumes "Assets embedded = Inr assets" "\<forall>e \<in> set es. plain_elem e" "es \<noteq> []" "utf8_valid (join_with ''/'' es)"
  shows "serve_dir assets (join_with ''/'' es) names =
    (case embedded (web_name (es @ [''index.html''])) of
       Inr (AssetFile content) \<Rightarrow> UiFile (join_with ''/'' es @ ''/index.html'') content
     | Inr (AssetDir inner) \<Rightarrow> UiListing inner
     | Inl _ \<Rightarrow> UiListing names)"
proof -
  have "join_with ''/'' es \<noteq> ''.''"
    using assms(2,3) by (cases es rule: remdups_adj.cases) (auto simp: plain_elem_def append_eq_Cons_conv)
  moreover have "join_with ''/'' es @ ''/index.html'' = join_with ''/'' (es @ [''index.html''])"
    using assms(3) by (subst join_with_append) simp_all
  moreover have "assets (join_with ''/'' (es @ [''index.html''])) = embedded (web_name (es @ [''index.html'']))"
  proof -
    have "utf8_valid (join_with ''/'' es @ ''/index.html'')"
      unfolding utf8_append [OF assms(4)] by code_simp
    then have "utf8_valid (join_with ''/'' (es @ [''index.html'']))" by (simp only: calculation(2))
    moreover have "\<forall>e \<in> set (es @ [''index.html'']). plain_elem e"
      using assms(2) by (auto simp: plain_elem_def)
    ultimately show ?thesis using tree_at [OF assms(1), of "es @ [''index.html'']"] by simp
  qed
  ultimately show ?thesis
    unfolding serve_dir_def by (simp split: sum.split asset.split)
qed

lemma ui_request:
  assumes "Assets embedded = Inr assets" "ui_elems p \<noteq> []"
  shows "ui_handler assets p query =
    (case assets (join_with ''/'' (ui_elems p)) of
       Inl e \<Rightarrow>
         if e \<noteq> NotExist \<or> hd (ui_elems p) = ''assets'' \<and> tl (ui_elems p) \<noteq> [] then page_not_found
         else index_page embedded
     | Inr _ \<Rightarrow> file_server assets p query)"
proof -
  have "(\<exists>gs. gs \<noteq> [] \<and> ui_elems p = ''assets'' # gs) \<longleftrightarrow> hd (ui_elems p) = ''assets'' \<and> tl (ui_elems p) \<noteq> []"
    using assms(2) by (cases "ui_elems p") auto
  then have below: "HasPrefix (''/'' @ join_with ''/'' (ui_elems p)) ''/assets/'' \<longleftrightarrow>
      hd (ui_elems p) = ''assets'' \<and> tl (ui_elems p) \<noteq> []"
    by (simp only: under_assets)
  show ?thesis
    unfolding ui_handler_def Let_def ui_clean below serveIndex_dist [OF assms(1)]
    using assms(2) join_Nil_iff [OF ui_elems_plain [of p]]
    by (simp add: TrimPrefix_def HasPrefix_def)
qed

lemma file_server_exact:
  assumes "ui_elems p \<noteq> []" "assets (join_with ''/'' (ui_elems p)) = Inr node"
  shows "file_server assets p query =
    (if HasSuffix (''/'' @ p) ''/index.html'' then local_redirect ''./'' query
     else case node of
       AssetFile content \<Rightarrow>
         if HasSuffix (''/'' @ p) ''/'' then local_redirect (''../'' @ last (ui_elems p)) query
         else UiFile (join_with ''/'' (ui_elems p)) content
     | AssetDir names \<Rightarrow>
         if HasSuffix (''/'' @ p) ''/'' then serve_dir assets (join_with ''/'' (ui_elems p)) names
         else local_redirect (last (ui_elems p) @ ''/'') query)"
proof -
  let ?url = "''/'' @ TrimPrefix p ''/''"
  have url: "(if HasPrefix p ''/'' then p else ''/'' @ p) = ?url"
    by (auto simp: HasPrefix_def TrimPrefix_def prefix_def)
  have ends: "HasSuffix ?url ''/index.html'' = HasSuffix (''/'' @ p) ''/index.html''"
      "HasSuffix ?url ''/'' = HasSuffix (''/'' @ p) ''/''"
    using url by (auto simp: HasPrefix_def TrimPrefix_def HasSuffix_def suffix_Cons prefix_def split: if_splits)
  have name: "fs_name ?url = join_with ''/'' (ui_elems p)"
    unfolding fs_name_def ui_clean using assms(1) join_Nil_iff [OF ui_elems_plain [of p]]
    by (simp add: TrimPrefix_def HasPrefix_def)
  have base: "Base ?url = last (ui_elems p)"
    using assms(1) by (simp add: Base_def ui_elems_def split: list.split)
  show ?thesis
    unfolding file_server_def Let_def url name ends base assms(2) by (simp split: asset.split)
qed

text \<open>
  C40. What the app's path is answered with, for every path and every tree. The root is the index. A
  name that is not one (bytes that are not UTF-8) is not found. A missing name is not found below
  \<open>assets\<close> and the index elsewhere, so that a deep link survives a reload; a file answers with its
  content, a directory with its \<open>index.html\<close> or the list of its entries, and the two redirect to
  the path with or without the slash.
\<close>

theorem deep_links_fall_back:
  "UI embedded p query =
    (let es = ui_elems p; name = join_with ''/'' es in
     if es = [] then index_page embedded
     else if \<not> utf8_valid name then page_not_found
     else case embedded (web_name es) of
       Inl Invalid \<Rightarrow> page_not_found
     | Inl NotExist \<Rightarrow> if hd es = ''assets'' \<and> tl es \<noteq> [] then page_not_found else index_page embedded
     | Inr node \<Rightarrow>
         if HasSuffix (''/'' @ p) ''/index.html'' then local_redirect ''./'' query
         else case node of
           AssetFile content \<Rightarrow>
             if HasSuffix (''/'' @ p) ''/'' then local_redirect (''../'' @ last es) query
             else UiFile name content
         | AssetDir names \<Rightarrow>
             if HasSuffix (''/'' @ p) ''/'' then
               (case embedded (web_name (es @ [''index.html''])) of
                  Inr (AssetFile content) \<Rightarrow> UiFile (name @ ''/index.html'') content
                | Inr (AssetDir inner) \<Rightarrow> UiListing inner
                | Inl _ \<Rightarrow> UiListing names)
             else local_redirect (last es @ ''/'') query)"
proof -
  obtain assets where a: "Assets embedded = Inr assets" by (simp add: Assets_dist)
  show ?thesis
  proof (cases "ui_elems p = []")
    case True
    then have "Clean (''/'' @ TrimPrefix p ''/'') = ''/''" by (simp add: ui_clean del: append.append_Cons)
    then show ?thesis using True by (simp add: UI_def a ui_handler_def serveIndex_dist [OF a])
  next
    case False
    note tree = tree_at [OF a ui_elems_plain False] and dir = serve_dir_exact [OF a ui_elems_plain False]
      and request = ui_request [OF a False, of query]
    show ?thesis
    proof (cases "assets (join_with ''/'' (ui_elems p))")
      case (Inl e)
      then show ?thesis
        using tree False by (cases e) (auto simp: UI_def a request Let_def split: if_splits)
    next
      case (Inr node)
      then have "utf8_valid (join_with ''/'' (ui_elems p))" "embedded (web_name (ui_elems p)) = Inr node"
        using tree by (auto split: if_splits)
      then show ?thesis
        using False Inr file_server_exact [OF False, where assets = assets and node = node and query = query]
        by (simp add: UI_def a request Let_def dir split: asset.split)
    qed
  qed
qed

end
