(* ===== verification/Routes.thy ===== *)
theory Routes
  imports Mux Cli Ui
begin

text \<open>
  The daemon's two listeners as the router sees them, \<open>Handler\<close> and \<open>MetricsHandler\<close> of \<open>api/api.go\<close>,
  and the command line against them: which handler, for which service, a path the client builds
  reaches, and what a click from the terminal comes to.
\<close>

section \<open>The listeners\<close>

datatype route = Api endpoint | Page

definition service_pattern :: "string \<Rightarrow> string \<Rightarrow> pattern" where
  "service_pattern verb act = Pattern verb [Lit ''api'', Lit ''v1'', Lit ''services'', Wild, Lit act]"

definition api_routes :: "(pattern \<times> route) list" where
  "api_routes =
     [(Pattern ''GET'' [Lit ''healthz''], Api GetHealthz),
      (Pattern ''GET'' [Lit ''api'', Lit ''v1'', Lit ''services''], Api GetServices),
      (service_pattern ''GET'' ''history'', Api GetHistory),
      (service_pattern ''GET'' ''revisions'', Api GetRevisions),
      (service_pattern ''POST'' ''deploy'', Api PostDeploy),
      (service_pattern ''POST'' ''rollback'', Api PostRollback),
      (service_pattern ''POST'' ''converge'', Api PostConverge),
      (Pattern ''GET'' [Lit ''api'', Lit ''v1'', Lit ''events''], Api GetEvents)]"

datatype http_answer = Answer response | PageAnswer ui_answer | Redirect string | Status nat

text \<open>\<open>ui\<close> is the embedded tree when the options carry a UI; the request's name is the path's.\<close>

definition server_Handler ::
    "auth_env \<Rightarrow> 'w deps \<Rightarrow> fs option \<Rightarrow> authenticator \<Rightarrow> string \<Rightarrow> string \<Rightarrow> string \<Rightarrow> http_request \<Rightarrow> 'w \<Rightarrow>
     http_answer \<times> authenticator \<times> 'w" where
  "server_Handler env d ui a verb p query r w =
     (case mux api_routes (map_option (\<lambda>_. Page) ui) verb p of
        Moved q \<Rightarrow> (Redirect (if query = [] then q else q @ ''?'' @ query), a, w)
      | Routed (Api e) ws \<Rightarrow>
          (case api_Handler env d e a (r\<lparr>hr_Name := (case ws of n # _ \<Rightarrow> n | [] \<Rightarrow> [])\<rparr>) w of
             (resp, a', w') \<Rightarrow> (Answer resp, a', w'))
      | Routed Page _ \<Rightarrow>
          (case ui of Some tree \<Rightarrow> (PageAnswer (UI tree (unescaped p) query), a, w) | None \<Rightarrow> (Status 404, a, w))
      | MethodNotAllowed \<Rightarrow> (Status 405, a, w)
      | NoRoute \<Rightarrow> (Status 404, a, w))"

text \<open>\<open>scrape\<close> is the text of the registry.\<close>

definition metrics_routes :: "(pattern \<times> bool) list" where
  "metrics_routes = [(Pattern ''GET'' [Lit ''metrics''], True), (Pattern ''GET'' [Lit ''healthz''], False)]"

definition MetricsHandler :: "string \<Rightarrow> string \<Rightarrow> string \<Rightarrow> http_answer" where
  "MetricsHandler scrape verb p =
     (case mux metrics_routes None verb p of
        Moved q \<Rightarrow> Redirect q
      | Routed metrics _ \<Rightarrow> Answer (200, TextBody (if metrics then scrape else ''ok'' @ [CHR 0x0A]))
      | MethodNotAllowed \<Rightarrow> Status 405
      | NoRoute \<Rightarrow> Status 404)"

section \<open>The paths the client builds\<close>

definition posted :: "string \<Rightarrow> endpoint" where
  "posted act = (if act = ''deploy'' then PostDeploy else if act = ''rollback'' then PostRollback else PostConverge)"

lemma start_path_split:
  assumes "slash \<notin> set act"
  shows "split_on slash (start_path act s) = [[], ''api'', ''v1'', ''services'', PathEscape s, act]"
proof -
  have "start_path act s = slash # join_with [slash] [''api'', ''v1'', ''services'', PathEscape s, act]"
    by (simp add: start_path_def)
  moreover have "split_on slash (join_with [slash] [''api'', ''v1'', ''services'', PathEscape s, act]) =
      [''api'', ''v1'', ''services'', PathEscape s, act]"
    using assms PathEscape_no_slash by (intro split_on_join) auto
  ultimately show ?thesis by simp
qed

lemma start_path_clean:
  assumes "plain_elem act" "s \<notin> {[], ''.'', ''..''}"
  shows "cleanPath (start_path act s) = start_path act s"
proof -
  have "start_path act s = slash # join_with [slash] [''api'', ''v1'', ''services'', PathEscape s, act]"
    by (simp add: start_path_def)
  moreover have "\<forall>e \<in> set [''api'', ''v1'', ''services'', PathEscape s, act]. plain_elem e"
    using assms PathEscape_plain [of s] by (auto simp: plain_elem_def)
  ultimately show ?thesis using clean_segments(1) by (metis list.discI)
qed

lemma start_path_unclean:
  assumes "act \<in> {''deploy'', ''rollback'', ''converge''}" "s \<in> {[], ''.'', ''..''}"
  shows "cleanPath (start_path act s) \<noteq> start_path act s"
proof -
  have "\<forall>act \<in> set [''deploy'', ''rollback'', ''converge'']. \<forall>s \<in> set [[], ''.'', ''..''].
      cleanPath (start_path act s) \<noteq> start_path act s"
    by code_simp
  then show ?thesis using assms by auto
qed

lemma path_segs_start:
  "slash \<notin> set act \<Longrightarrow> unescaped act = act \<Longrightarrow>
     path_segs (start_path act s) = [''api'', ''v1'', ''services'', s, act]"
proof -
  assume "slash \<notin> set act" "unescaped act = act"
  moreover have "unescaped ''api'' = ''api''" "unescaped ''v1'' = ''v1''" "unescaped ''services'' = ''services''"
    by code_simp+
  ultimately show ?thesis by (simp add: path_segs_def start_path_split)
qed

lemma actions_plain:
  assumes "act \<in> {''deploy'', ''rollback'', ''converge''}"
  shows "plain_elem act" "slash \<notin> set act" "unescaped act = act"
proof -
  have "\<forall>act \<in> set [''deploy'', ''rollback'', ''converge'']. unescaped act = act" by code_simp
  then show "unescaped act = act" using assms by auto
  show "plain_elem act" "slash \<notin> set act" using assms by (auto simp: plain_elem_def)
qed

lemma post_matches:
  assumes "act \<in> {''deploy'', ''rollback'', ''converge''}"
  shows "List.map_filter (\<lambda>(pat, e). map_option (Routed e) (match_pattern ''POST'' (start_path act s) pat)) api_routes =
    (if s = [] \<or> s = ''/'' then [] else [Routed (Api (posted act)) [s]])"
proof -
  have segs: "path_segs (start_path a s) = [''api'', ''v1'', ''services'', s, a]"
    if "a \<in> {''deploy'', ''rollback'', ''converge''}" for a
    using path_segs_start actions_plain [OF that] by blast
  consider "act = ''deploy''" | "act = ''rollback''" | "act = ''converge''" using assms by blast
  then show ?thesis
    by cases (simp_all add: segs api_routes_def match_pattern_def service_pattern_def posted_def
        List.map_filter_simps)
qed

lemma slash_matches_nothing:
  assumes "act \<in> {''deploy'', ''rollback'', ''converge''}" "(pat, e) \<in> set api_routes"
  shows "match_pattern m (start_path act ''/'') pat = None"
proof -
  have segs: "path_segs (start_path act ''/'') = [''api'', ''v1'', ''services'', ''/'', act]"
    using path_segs_start actions_plain [OF assms(1)] by blast
  show ?thesis
    using assms(2) by (auto simp: api_routes_def match_pattern_def segs service_pattern_def)
qed

text \<open>
  A command reaches its service or none. Whatever text is given as the service, the post of
  \<open>deploy\<close>, \<open>rollback\<close> or \<open>converge\<close> is routed to that action's handler with exactly that text as the
  name; but for the empty name and the two dot names, which are redirected away before any handler,
  and the name \<open>/\<close>, which matches no route of the API.
\<close>

theorem post_reaches_its_service:
  assumes "act \<in> {''deploy'', ''rollback'', ''converge''}"
  shows "mux api_routes rest ''POST'' (start_path act s) =
    (if s \<in> {[], ''.'', ''..''} then Moved (cleanPath (start_path act s))
     else if s = ''/'' then (case rest of Some e \<Rightarrow> Routed e [] | None \<Rightarrow> NoRoute)
     else Routed (Api (posted act)) [s])"
proof (cases "s \<in> {[], ''.'', ''..''}")
  case True
  then show ?thesis using start_path_unclean [OF assms] by (simp add: mux_def)
next
  case False
  then have clean: "cleanPath (start_path act s) = start_path act s"
    using start_path_clean [OF actions_plain(1) [OF assms]] by blast
  show ?thesis
  proof (cases "s = ''/''")
    case True
    then have "\<not> (\<exists>(pat, _) \<in> set api_routes. \<exists>m \<in> {''GET'', ''POST''}. match_pattern m (start_path act s) pat \<noteq> None)"
      using slash_matches_nothing [OF assms] by fastforce
    then show ?thesis
      unfolding mux_def post_matches [OF assms] using clean True False by simp
  next
    case other: False
    then show ?thesis
      unfolding mux_def post_matches [OF assms] using clean False by simp
  qed
qed

section \<open>A command against a daemon\<close>

text \<open>
  The network between one client and one daemon: \<open>base\<close> is the daemon's address, \<open>dec\<close> what the
  daemon's decoder makes of a body, \<open>enc\<close> the answer on the wire. The client follows a redirect, which
  is not redirected again; whether it repeats a post as a post or as a get depends on the status of
  the redirect, which differs between releases of \<open>net/http\<close>, and is the argument \<open>again\<close>.
\<close>

definition serve_request ::
    "auth_env \<Rightarrow> 'v deps \<Rightarrow> fs option \<Rightarrow> string \<Rightarrow> (string \<Rightarrow> go_error option \<times> string) \<Rightarrow> cli_request \<Rightarrow>
     'v \<times> authenticator \<Rightarrow> http_answer \<times> 'v \<times> authenticator" where
  "serve_request env d ui base dec q w =
     (case Cut (drop (length base) (cq_URL q)) (CHR ''?'') of (p, query, _) \<Rightarrow>
        (case server_Handler env d ui (snd w) (cq_Method q) p query
                \<lparr>hr_Header = header_of (cq_Header q), hr_Name = [], hr_Query = (\<lambda>n. TrimPrefix query (n @ ''='')),
                 hr_Decoded = (case cq_Body q of None \<Rightarrow> (Some (errorf ''EOF''), []) | Some b \<Rightarrow> dec b)\<rparr> (fst w) of
           (ans, a', v') \<Rightarrow> (ans, v', a')))"

definition redirected :: "bool \<Rightarrow> string \<Rightarrow> string \<Rightarrow> cli_request \<Rightarrow> cli_request" where
  "redirected again base loc q =
     (let q' = q\<lparr>cq_URL := base @ loc\<rparr> in if again then q' else q'\<lparr>cq_Method := ''GET'', cq_Body := None\<rparr>)"

definition wired ::
    "bool \<Rightarrow> auth_env \<Rightarrow> 'v deps \<Rightarrow> fs option \<Rightarrow> string \<Rightarrow> (string \<Rightarrow> go_error option \<times> string) \<Rightarrow> (http_answer \<Rightarrow> answer) \<Rightarrow>
     ('v \<times> authenticator) net" where
  "wired again env d ui base dec enc q w =
     (case serve_request env d ui base dec q w of
        (Redirect loc, w') \<Rightarrow>
          (case serve_request env d ui base dec (redirected again base loc q) w' of
             (ans, w'') \<Rightarrow> (Inr (enc ans), w''))
      | (ans, w') \<Rightarrow> (Inr (enc ans), w'))"

text \<open>The engine call a command stands for.\<close>

definition engine_click :: "'v deps \<Rightarrow> string \<Rightarrow> string \<Rightarrow> string \<Rightarrow> string \<Rightarrow> 'v click" where
  "engine_click d act service digest who =
     (if act = ''deploy'' then ad_Deploy d service digest who
      else if act = ''rollback'' then ad_Rollback d service digest who
      else ad_Converge d service who)"

definition accepted_answer :: "int \<Rightarrow> http_answer \<Rightarrow> bool" where
  "accepted_answer i ans \<longleftrightarrow> (\<exists>joined. ans = Answer (202, AcceptedBody i joined))"

lemma authed_not: "(\<And>who. fst (fst (h who r w)) \<noteq> 202) \<Longrightarrow> fst (fst (authed env h a r w)) \<noteq> 202"
  by (auto simp: authed_def identify_def refuse_def writeError_def split: prod.splits option.splits sum.splits)
     (metis fst_conv)

lemma reads_not_accepted: "\<not> mutating e \<Longrightarrow> fst (fst (api_Handler env d e a r w)) \<noteq> 202"
proof -
  assume e: "\<not> mutating e"
  have named: "fst resp \<noteq> 202" if "service_name d r w = Inl resp" for resp
    using service_name_cases [of d r w] that by (auto simp: refusal_def)
  have "fst (fst (handleServices d r w)) \<noteq> 202"
    by (auto simp: handleServices_def writeUnavailable_def writeError_def split: prod.splits sum.splits)
  moreover have "fst (fst (handleHistory d r w)) \<noteq> 202"
    using named by (auto simp: handleHistory_def refuse_def writeError_def split: sum.splits option.splits)
  moreover have "fst (fst (handleRevisions d r w)) \<noteq> 202"
    using named
    by (auto simp: handleRevisions_def refuse_def writeError_def Let_def split: sum.splits option.splits)
  ultimately show ?thesis
    using e by (cases e) (auto simp: api_Handler_def mutating_def intro!: authed_not)
qed

lemma get_routes:
  assumes "mux api_routes rest ''GET'' p = Routed (Api e) ws" "rest = None \<or> rest = Some Page"
  shows "\<not> mutating e"
  using assms
  by (auto simp: mux_def api_routes_def match_pattern_def service_pattern_def mutating_def
      List.map_filter_simps split: if_splits option.splits)

lemma get_not_accepted:
  assumes "server_Handler env d ui a ''GET'' p query r w = (ans, a', w')"
  shows "\<not> accepted_answer i ans"
proof
  assume "accepted_answer i ans"
  then obtain joined e ws where *: "mux api_routes (map_option (\<lambda>_. Page) ui) ''GET'' p = Routed (Api e) ws"
      "fst (api_Handler env d e a (r\<lparr>hr_Name := (case ws of n # _ \<Rightarrow> n | [] \<Rightarrow> [])\<rparr>) w) = (202, AcceptedBody i joined)"
    using assms by (auto simp: server_Handler_def accepted_answer_def split: routed.splits route.splits
        option.splits prod.splits)
  have "\<not> mutating e" using get_routes [OF *(1)] by (cases ui) simp_all
  from reads_not_accepted [OF this, of env d a "r\<lparr>hr_Name := (case ws of n # _ \<Rightarrow> n | [] \<Rightarrow> [])\<rparr>" w] *(2)
  show False by simp
qed

lemma Cut_none_at: "c \<notin> set s \<Longrightarrow> Cut s c = (s, [], False)"
  by (induction s) auto

lemma start_path_no_query:
  assumes "act \<in> {''deploy'', ''rollback'', ''converge''}"
  shows "CHR ''?'' \<notin> set (start_path act s)"
proof -
  have "CHR ''?'' \<notin> set (PathEscape s)"
    using PathEscape_chars [of "CHR ''?''" s] by (auto simp: path_safe_def alnum_def)
  then show ?thesis using assms by (auto simp: start_path_def)
qed

text \<open>A post that is accepted went through to the engine, for the service it names.\<close>

lemma accepted_post:
  assumes act: "act \<in> {''deploy'', ''rollback'', ''converge''}"
    and h: "server_Handler env d ui a ''POST'' (start_path act s) query r w = (ans, a', w')"
    and ok: "accepted_answer i ans"
  shows "\<exists>who sc joined.
    fst (actor (ae_hex_sha env) (ae_sha env) (ae_read env) a (hr_Header r)) = Some (who, sc) \<and>
    allows sc act \<and> knows d s w \<and> (act = ''deploy'' \<longrightarrow> snd (hr_Decoded r) \<noteq> []) \<and>
    engine_click d act s (snd (hr_Decoded r)) who w = (Inr (i, joined), w')"
proof -
  obtain joined where ans: "ans = Answer (202, AcceptedBody i joined)" using ok by (auto simp: accepted_answer_def)
  note routed = post_reaches_its_service [OF act, of "map_option (\<lambda>_. Page) ui" s]
  have s: "s \<notin> {[], ''.'', ''..'', ''/''}"
    using h ans routed by (auto simp: server_Handler_def split: if_splits option.splits)
  then have "mux api_routes (map_option (\<lambda>_. Page) ui) ''POST'' (start_path act s) = Routed (Api (posted act)) [s]"
    using routed by simp
  then have "api_Handler env d (posted act) a (r\<lparr>hr_Name := s\<rparr>) w = ((202, AcceptedBody i joined), a', w')"
    using h ans by (simp add: server_Handler_def split: prod.splits)
  moreover have "mutating (posted act)" by (simp add: mutating_def posted_def)
  ultimately obtain who sc where *:
      "fst (actor (ae_hex_sha env) (ae_sha env) (ae_read env) a (hr_Header r)) = Some (who, sc)"
      "allows sc (action_of (posted act))" "knows d s w"
      "posted act = PostDeploy \<longrightarrow> snd (hr_Decoded r) \<noteq> []"
      "dispatch d (click_of d (posted act) (r\<lparr>hr_Name := s\<rparr>) who) w = ((202, AcceptedBody i joined), w')"
    using mutating_exact [of "posted act" env d a "r\<lparr>hr_Name := s\<rparr>" w] by (auto simp: refusal_def)
  have "click_of d (posted act) (r\<lparr>hr_Name := s\<rparr>) who = engine_click d act s (snd (hr_Decoded r)) who"
    using act by (auto simp: click_of_def posted_def engine_click_def)
  moreover have "action_of (posted act) = act" using act
    by (auto simp: action_of_def posted_def actionDeploy_def actionRollback_def actionConverge_def)
  moreover have "posted act = PostDeploy \<longleftrightarrow> act = ''deploy''" by (simp add: posted_def)
  moreover have "run w = (Inr (i, joined), w')" if "dispatch d run w = ((202, AcceptedBody i joined), w')" for run
    using that by (auto simp: dispatch_def writeUnavailable_def writeError_def split: prod.splits sum.splits if_splits)
  ultimately show ?thesis using * by auto
qed

text \<open>A client the daemon knows is known by the token in its file.\<close>

lemma client_identity:
  assumes "newRequest su c verb p content = Inr q"
    and "fst (actor hex_sha sha read a (header_of (cq_Header q))) = Some (who, sc)"
  shows "\<exists>raw. su_file su (cl_tokenFile c) = Inr raw \<and> fst (matchToken hex_sha read a (TrimSpace raw)) = Some (who, sc)"
proof -
  obtain hs b where auth: "authorize su c \<lparr>cq_Method = verb, cq_URL = cl_baseURL c @ p, cq_Header = hs, cq_Body = b\<rparr> = Inr q"
    and hs: "hs = [] \<or> hs = [(''Content-Type'', ''application/json'')]"
    using assms(1) by (auto simp: newRequest_def split: option.splits sum.splits if_splits)
  have "cl_tokenFile c \<noteq> []"
  proof
    assume "cl_tokenFile c = []"
    then have "cq_Header q = hs" using auth by (auto simp: authorize_def)
    then have "fst (actor hex_sha sha read a (header_of (cq_Header q))) = None"
      using hs by (auto simp: actor_def bearerToken_def header_Get_def header_of_def identity_def HasPrefix_def
          remoteUserHeader_def ProxySecretHeader_def split: option.splits)
    then show False using assms(2) by simp
  qed
  moreover have "''Authorization'' \<notin> fst ` set hs" using hs by auto
  ultimately show ?thesis
    using token_reaches_the_daemon [OF auth, of hex_sha sha read a] assms(2) by fastforce
qed

lemma served_get_not_accepted:
  "cq_Method q = ''GET'' \<Longrightarrow> serve_request env d ui base dec q w = (ans, w') \<Longrightarrow> \<not> accepted_answer i ans"
  by (auto simp: serve_request_def split: prod.splits dest!: get_not_accepted)

text \<open>A post that is redirected away is not accepted where it arrives, repeated as it was or as a get.\<close>

lemma cleaned_posts_go_nowhere:
  assumes "act \<in> {''deploy'', ''rollback'', ''converge''}" "s \<in> {[], ''.'', ''..''}" "rest = None \<or> rest = Some Page"
  shows "mux api_routes rest ''POST'' (cleanPath (start_path act s)) \<noteq> Routed (Api e) ws"
    "CHR ''?'' \<notin> set (cleanPath (start_path act s))"
proof -
  have all: "\<forall>act \<in> set [''deploy'', ''rollback'', ''converge'']. \<forall>s \<in> set [[], ''.'', ''..''].
      CHR ''?'' \<notin> set (cleanPath (start_path act s)) \<and>
      mux api_routes None ''POST'' (cleanPath (start_path act s)) = NoRoute \<and>
      mux api_routes (Some Page) ''POST'' (cleanPath (start_path act s)) = Routed Page []"
    by code_simp
  have "act \<in> set [''deploy'', ''rollback'', ''converge'']" "s \<in> set [[], ''.'', ''..'']"
    using assms(1,2) by simp_all
  note bspec [OF bspec [OF all this(1)] this(2)]
  then show "mux api_routes rest ''POST'' (cleanPath (start_path act s)) \<noteq> Routed (Api e) ws"
      "CHR ''?'' \<notin> set (cleanPath (start_path act s))"
    using assms(3) by (elim conjE disjE; simp)+
qed

lemma moved_post_not_accepted:
  assumes act: "act \<in> {''deploy'', ''rollback'', ''converge''}"
    and q: "cq_Method q = ''POST''" "cq_URL q = base @ start_path act s"
    and s1: "serve_request env d ui base dec q (v, a) = (Redirect loc, (v1, a1))"
    and s2: "serve_request env d ui base dec (redirected again base loc q) (v1, a1) = (ans, w)"
  shows "\<not> accepted_answer i ans"
proof (cases again)
  case False
  then show ?thesis
    using s2 by (intro served_get_not_accepted) (auto simp: redirected_def Let_def)
next
  case True
  define rest where "rest = map_option (\<lambda>_. Page) ui"
  have rest: "rest = None \<or> rest = Some Page" by (cases ui) (simp_all add: rest_def)
  have "s \<in> {[], ''.'', ''..''} \<and> loc = cleanPath (start_path act s)"
    using s1 q Cut_none_at [OF start_path_no_query [OF act, of s]] post_reaches_its_service [OF act, of rest s]
      rest
    by (auto simp: serve_request_def server_Handler_def rest_def [symmetric]
        split: prod.splits if_splits option.splits)
  then have s: "s \<in> {[], ''.'', ''..''}" and loc: "loc = cleanPath (start_path act s)" by blast+
  note nowhere = cleaned_posts_go_nowhere [OF act s rest]
  show ?thesis
    using s2 True q(1) nowhere(1) Cut_none_at [OF nowhere(2)]
    by (auto simp: redirected_def serve_request_def server_Handler_def loc rest_def [symmetric] accepted_answer_def
        split: prod.splits routed.splits route.splits option.splits)
qed

lemma wired_accepts:
  assumes act: "act \<in> {''deploy'', ''rollback'', ''converge''}"
    and q: "cq_Method q = ''POST''" "cq_URL q = base @ start_path act s"
    and net: "wired again env d ui base dec enc q (v, a) = (Inr resp, (v', a'))"
    and ok: "\<And>ans. resp = enc ans \<Longrightarrow> accepted_answer i ans"
  shows "\<exists>who sc joined.
    fst (actor (ae_hex_sha env) (ae_sha env) (ae_read env) a (header_of (cq_Header q))) = Some (who, sc) \<and>
    allows sc act \<and> knows d s v \<and>
    (let digest = (case cq_Body q of None \<Rightarrow> [] | Some b \<Rightarrow> snd (dec b)) in
     (act = ''deploy'' \<longrightarrow> digest \<noteq> []) \<and> engine_click d act s digest who v = (Inr (i, joined), v'))"
proof -
  obtain ans v1 a1 where s1: "serve_request env d ui base dec q (v, a) = (ans, (v1, a1))" by (metis prod.collapse)
  have "\<not> (\<exists>loc. ans = Redirect loc)"
  proof
    assume "\<exists>loc. ans = Redirect loc"
    then obtain loc where loc: "ans = Redirect loc" by blast
    obtain ans' w' where s2: "serve_request env d ui base dec (redirected again base loc q) (v1, a1) = (ans', w')"
      by (metis prod.collapse)
    then have "resp = enc ans'" using net s1 loc by (auto simp: wired_def)
    then show False
      using ok moved_post_not_accepted [OF act q s1 [unfolded loc] s2] by blast
  qed
  then have one: "resp = enc ans" "v1 = v'" "a1 = a'"
    using net s1 by (auto simp: wired_def split: http_answer.splits)
  let ?r = "\<lparr>hr_Header = header_of (cq_Header q), hr_Name = [], hr_Query = (\<lambda>n. TrimPrefix [] (n @ ''='')),
      hr_Decoded = (case cq_Body q of None \<Rightarrow> (Some (errorf ''EOF''), []) | Some b \<Rightarrow> dec b)\<rparr>"
  have "server_Handler env d ui a ''POST'' (start_path act s) [] ?r v = (ans, a', v')"
    using s1 one(2,3) q Cut_none_at [OF start_path_no_query [OF act, of s]]
    by (simp add: serve_request_def split: prod.splits)
  from accepted_post [OF act this ok [OF one(1)]] show ?thesis
    by (cases "cq_Body q") (simp_all add: Let_def)
qed

lemma started_is_a_click:
  assumes act: "act \<in> {''deploy'', ''rollback'', ''converge''}"
    and digest: "\<exists>b. j_digest j digest = Inr b \<and> snd (dec b) = digest"
    and codec: "\<And>ans i. 200 \<le> an_StatusCode (enc ans) \<Longrightarrow> an_StatusCode (enc ans) \<le> 299 \<Longrightarrow>
      j_started j (an_Body (enc ans)) = Inr i \<Longrightarrow> accepted_answer i ans"
    and st: "startDeploy j su (wired again env d ui (cl_baseURL c) dec enc) c act s digest (v, a) = (Inr i, (v', a'))"
  shows "\<exists>raw who sc joined. su_file su (cl_tokenFile c) = Inr raw \<and>
    fst (matchToken (ae_hex_sha env) (ae_read env) a (TrimSpace raw)) = Some (who, sc) \<and>
    allows sc act \<and> knows d s v \<and> (act = ''deploy'' \<longrightarrow> digest \<noteq> []) \<and>
    engine_click d act s digest who v = (Inr (i, joined), v')"
proof -
  let ?content = "if act \<noteq> ''converge'' then Some (j_digest j digest) else None"
  obtain q resp where q: "newRequest su c ''POST'' (start_path act s) ?content = Inr q"
      "wired again env d ui (cl_baseURL c) dec enc q (v, a) = (Inr resp, (v', a'))"
      "200 \<le> an_StatusCode resp" "an_StatusCode resp \<le> 299" "j_started j (an_Body resp) = Inr i"
    using st by (auto simp: startDeploy_def cli_do_def split: sum.splits prod.splits if_splits)
  note asked = newRequest_asks [OF q(1)]
  have post: "cq_Method q = ''POST''" "cq_URL q = cl_baseURL c @ start_path act s"
    using asked by (simp_all add: asks_def)
  have ok: "accepted_answer i ans" if "resp = enc ans" for ans
    using codec [of ans i] q(3-5) that by simp
  obtain who sc joined where *:
      "fst (actor (ae_hex_sha env) (ae_sha env) (ae_read env) a (header_of (cq_Header q))) = Some (who, sc)"
      "allows sc act" "knows d s v"
      "let digest = (case cq_Body q of None \<Rightarrow> [] | Some b \<Rightarrow> snd (dec b)) in
       (act = ''deploy'' \<longrightarrow> digest \<noteq> []) \<and> engine_click d act s digest who v = (Inr (i, joined), v')"
    using wired_accepts [OF act post q(2) ok] by blast
  have "(act = ''deploy'' \<longrightarrow> digest \<noteq> []) \<and> engine_click d act s digest who v = (Inr (i, joined), v')"
    using *(4) asked digest by (auto simp: Let_def engine_click_def split: if_splits)
  then show ?thesis using client_identity [OF q(1) *(1)] *(2,3) by blast
qed


section \<open>An example session\<close>

definition sample_stream :: "string list" where
  "sample_stream = [''data: x'']"

definition session_codec :: codec where
  "session_codec = sample_codec
     \<lparr>j_started := \<lambda>b. if b = ''accepted'' then Inr 7 else Inl (errorf ''invalid'')\<rparr>"

definition session_event :: "string \<Rightarrow> cli_event option" where
  "session_event _ = Some \<lparr>ce_Service = ''web'', ce_Action = ''converge'', ce_State = ''healthy'', ce_Detail = [],
     ce_JournalID = 7, ce_PRURL = [], ce_MergeURL = []\<rparr>"

definition session_enc :: "http_answer \<Rightarrow> answer" where
  "session_enc ans =
     (case ans of
        Answer (code, AcceptedBody i joined) \<Rightarrow>
          if code = 202 \<and> i = 7
          then \<lparr>an_StatusCode = 202, an_Status = ''202 Accepted'', an_Body = ''accepted''\<rparr>
          else \<lparr>an_StatusCode = 400, an_Status = ''400 Bad Request'', an_Body = []\<rparr>
      | Answer (code, StreamBody) \<Rightarrow>
          \<lparr>an_StatusCode = int code, an_Status = [], an_Body = unlines sample_stream\<rparr>
      | _ \<Rightarrow> \<lparr>an_StatusCode = 400, an_Status = ''400 Bad Request'', an_Body = []\<rparr>)"

definition session_env :: auth_env where
  "session_env =
     \<lparr>ae_hex_sha = (\<lambda>t. t), ae_sha = (\<lambda>s. s), ae_read = (\<lambda>_. Inr (unlines [''s3cret ana'']))\<rparr>"

definition session_auth :: authenticator where
  "session_auth = \<lparr>au_tokenHashFile = ''/h'', au_proxy = None, au_loggedReason = []\<rparr>"

definition session_net :: "(nat \<times> authenticator) net" where
  "session_net = wired False session_env sample_deps None (cl_baseURL sample_client) (\<lambda>b. (None, b)) session_enc"

lemma session_parse: "parseTokenHashFile (unlines [''s3cret ana'']) =
    Inr [\<lparr>tl_hash = ''s3cret'', tl_label = ''ana'', tl_allowed = None\<rparr>]"
proof -
  have "scan_lines (unlines [''s3cret ana'']) = ([''s3cret ana''], None)"
    by (rule scan_clean) (simp add: clean_line_def line_end_def Text_Io.fits_def max_scan_token_def)
  moreover have "token_lines 1 [''s3cret ana''] = Inr [\<lparr>tl_hash = ''s3cret'', tl_label = ''ana'', tl_allowed = None\<rparr>]"
    by code_simp
  ultimately show ?thesis by (simp add: parseTokenHashFile_def)
qed

lemma session_token: "matchToken (\<lambda>t. t) (\<lambda>_. Inr (unlines [''s3cret ana''])) session_auth ''s3cret'' =
    (Some (''ana'', None), session_auth)"
  by (simp add: matchToken_def session_auth_def session_parse)

definition session_headers :: "(string \<times> string) list" where
  "session_headers = [(''Authorization'', ''Bearer s3cret'')]"

lemma session_authorize:
  "authorize sample_surroundings sample_client q =
     Inr (q\<lparr>cq_Header := cq_Header q @ [(''Authorization'', ''Bearer s3cret'')]\<rparr>)"
proof -
  have "TrimSpace (''s3cret'' @ [CHR 0x0A]) = ''s3cret''" by code_simp
  then show ?thesis by (simp add: authorize_def sample_surroundings_def sample_client_def)
qed

lemma session_request:
  "newRequest sample_surroundings sample_client verb p None =
     Inr \<lparr>cq_Method = verb, cq_URL = cl_baseURL sample_client @ p, cq_Header = session_headers, cq_Body = None\<rparr>"
proof -
  have "su_request sample_surroundings verb x = None" for x by (simp add: sample_surroundings_def)
  then show ?thesis by (simp add: newRequest_def session_authorize session_headers_def)
qed

lemma session_actor:
  "actor (\<lambda>t. t) (\<lambda>s. s) (\<lambda>_. Inr (unlines [''s3cret ana''])) session_auth (header_of (session_headers @ hs)) =
     (Some (''ana'', None), session_auth)"
proof -
  have "TrimSpace ''s3cret'' = ''s3cret''" by code_simp
  then have "bearerToken (header_of (session_headers @ hs)) = Some ''s3cret''"
    by (simp add: bearerToken_def header_of_def session_headers_def header_Get_def HasPrefix_def TrimPrefix_def)
  then show ?thesis by (simp add: actor_def session_token)
qed

lemma session_routes:
  "mux api_routes None ''GET'' ''/api/v1/events'' = Routed (Api GetEvents) []"
  "mux api_routes None ''POST'' ''/api/v1/services/web/converge'' = Routed (Api PostConverge) [''web'']"
  by code_simp+

lemma session_serves:
  assumes "CHR ''?'' \<notin> set p" "mux api_routes None verb p = Routed (Api e) ws"
    and "api_Handler session_env sample_deps e session_auth
      \<lparr>hr_Header = header_of (session_headers @ hs), hr_Name = (case ws of n # _ \<Rightarrow> n | [] \<Rightarrow> []),
       hr_Query = (\<lambda>n. TrimPrefix [] (n @ ''='')), hr_Decoded = (Some (errorf ''EOF''), [])\<rparr> v = (resp, session_auth, v')"
  shows "session_net \<lparr>cq_Method = verb, cq_URL = cl_baseURL sample_client @ p,
      cq_Header = session_headers @ hs, cq_Body = None\<rparr> (v, session_auth) =
    (Inr (session_enc (Answer resp)), (v', session_auth))"
  using assms Cut_none_at [OF assms(1)]
  by (simp add: session_net_def wired_def serve_request_def server_Handler_def)

lemma session_get: "session_net \<lparr>cq_Method = ''GET'', cq_URL = cl_baseURL sample_client @ ''/api/v1/events'',
      cq_Header = session_headers @ hs, cq_Body = None\<rparr> (v, session_auth) =
    (Inr \<lparr>an_StatusCode = 200, an_Status = [], an_Body = unlines sample_stream\<rparr>, (v, session_auth))"
proof -
  have "api_Handler session_env sample_deps GetEvents session_auth
      \<lparr>hr_Header = header_of (session_headers @ hs), hr_Name = [],
       hr_Query = q, hr_Decoded = dcd\<rparr> v = ((200, StreamBody), session_auth, v)" for q dcd
    by (simp add: api_Handler_def authed_def identify_def session_env_def session_actor)
  moreover have "CHR ''?'' \<notin> set ''/api/v1/events''" by simp
  moreover have "session_enc (Answer (200, StreamBody)) =
      \<lparr>an_StatusCode = 200, an_Status = [], an_Body = unlines sample_stream\<rparr>"
    by (simp add: session_enc_def)
  ultimately show ?thesis
    using session_serves [OF _ session_routes(1), of hs v "(200, StreamBody)" v] by simp
qed

lemma session_post: "session_net \<lparr>cq_Method = ''POST'', cq_URL = cl_baseURL sample_client @ ''/api/v1/services/web/converge'',
      cq_Header = session_headers, cq_Body = None\<rparr> (v, session_auth) =
    (Inr \<lparr>an_StatusCode = 202, an_Status = ''202 Accepted'', an_Body = ''accepted''\<rparr>, (Suc v, session_auth))"
proof -
  have "api_Handler session_env sample_deps PostConverge session_auth
      \<lparr>hr_Header = header_of (session_headers @ []), hr_Name = ''web'',
       hr_Query = q, hr_Decoded = dcd\<rparr> v = ((202, AcceptedBody 7 False), session_auth, Suc v)" for q dcd
    unfolding api_Handler_def endpoint.case authedFor_def identify_def session_env_def auth_env.simps
      http_request.simps session_actor
    by (simp add: allows_def handleConverge_def service_name_def crafted_def Contains_def sublist_Cons_right
      sample_deps_def dispatch_def Let_def)
  moreover have "CHR ''?'' \<notin> set ''/api/v1/services/web/converge''" by simp
  ultimately show ?thesis
    using session_serves [OF _ session_routes(2), of "[]"] by (simp add: session_enc_def)
qed

lemma session_args:
  "parseWithOperand (followed_flags sample_surroundings ''converge'') [''web''] = Inr ([], ''web'')"
  "flag_client sample_surroundings [] = Inr sample_client"
  by code_simp+

lemma session_follow: "fst (follow session_event 7 (fst (scan_lines (unlines sample_stream)))) = 0"
proof -
  have "scan_lines (unlines sample_stream) = (sample_stream, None)"
    by (rule scan_clean) (simp add: sample_stream_def clean_line_def line_end_def Text_Io.fits_def max_scan_token_def)
  then show ?thesis
    by (simp add: sample_stream_def follow.simps session_event_def HasPrefix_def terminalStates_def)
qed

lemma session_command:
  "\<exists>out err. followedCommand session_codec session_event sample_surroundings session_net ''converge'' [''web'']
     (4, session_auth) = ((0, out, err), (5, session_auth))"
proof -
  have asked: "asked_digest session_codec sample_surroundings session_net sample_client ''converge'' ''web'' [] =
      done_with []"
    by (simp add: asked_digest_def)
  have events: "openEvents session_codec sample_surroundings session_net sample_client (4, session_auth) =
      (Inr (unlines sample_stream), (4, session_auth))"
    by (simp add: openEvents_def session_request session_get)
  have "start_path ''converge'' ''web'' = ''/api/v1/services/web/converge''" by code_simp
  then have start: "startDeploy session_codec sample_surroundings session_net sample_client ''converge'' ''web'' []
      (4, session_auth) = (Inr 7, (5, session_auth))"
    by (simp add: startDeploy_def cli_do_def session_request session_post session_codec_def sample_codec_def)
  show ?thesis
    using session_follow
    by (cases "follow session_event 7 (fst (scan_lines (unlines sample_stream)))")
       (simp add: followedCommand_def session_args asked done_with_def start_and_follow_def events start)
qed


end
