(* ===== verification/Server.thy ===== *)
theory Server
  imports Routes Pool
begin

text \<open>
  The API server as one object, \<open>New\<close> and the methods of \<open>Server\<close> in \<open>api/api.go\<close>, with what a scrape of
  its registry reads (\<open>newMetrics\<close>, \<open>handler\<close> of \<open>api/metrics.go\<close>) and the engine's \<open>QueueDepth\<close> and \<open>Wait\<close>.
  The text of a scrape is the Prometheus library's; here a series is a family with its labels.
\<close>

section \<open>The object\<close>

definition QueueDepth :: "pool \<Rightarrow> int" where
  "QueueDepth P = pl_queued P"

text \<open>\<open>Wait\<close> returns when this holds.\<close>

definition waited_for :: "pool \<Rightarrow> bool" where
  "waited_for P \<longleftrightarrow> pl_inFlight P = 0"

record server =
  sr_auth :: authenticator
  sr_metrics :: metrics
  sr_broker :: broker

definition server_New :: "string \<Rightarrow> proxy_boundary option \<Rightarrow> server" where
  "server_New tokenHashFile proxy =
     \<lparr>sr_auth = \<lparr>au_tokenHashFile = tokenHashFile, au_proxy = proxy, au_loggedReason = []\<rparr>,
      sr_metrics = newMetrics, sr_broker = newBroker\<rparr>"

datatype server_call =
    Published int event
  | Drifted "(string \<times> string) list" "string list result"
  | Polled string "go_error option"
  | Subscribed
  | Unsubscribed int
  | Received int

definition server_do :: "server_call \<Rightarrow> server \<Rightarrow> server" where
  "server_do c s =
     (case c of
        Published now ev \<Rightarrow>
          (case server_Publish now ev (sr_metrics s, sr_broker s) of (m, b) \<Rightarrow> s\<lparr>sr_metrics := m, sr_broker := b\<rparr>)
      | Drifted drift services \<Rightarrow> s\<lparr>sr_metrics := server_SetDrift drift services (sr_metrics s)\<rparr>
      | Polled repository err \<Rightarrow> s\<lparr>sr_metrics := recordRegistryPoll repository err (sr_metrics s)\<rparr>
      | Subscribed \<Rightarrow> s\<lparr>sr_broker := snd (subscribe (sr_broker s))\<rparr>
      | Unsubscribed i \<Rightarrow> s\<lparr>sr_broker := unsubscribe i (sr_broker s)\<rparr>
      | Received i \<Rightarrow> s\<lparr>sr_broker := snd (receive i (sr_broker s))\<rparr>)"

section \<open>A scrape\<close>

text \<open>The upper bounds of the duration buckets, in nanoseconds: half a second, doubled eleven times.\<close>

definition duration_buckets :: "int list" where
  "duration_buckets = map (\<lambda>i. 500000000 * 2 ^ i) [0..<12]"

datatype family =
    DeploysTotal string string
  | StateDurationBucket string nat
  | StateDurationCount string
  | Drift_gauge string
  | RegistryPollsTotal string string
  | EventsDroppedTotal
  | QueueDepthGauge

text \<open>A series of a vector is there once it was touched; a server without an engine has an empty queue.\<close>

definition scrape :: "pool option \<Rightarrow> server \<Rightarrow> family \<Rightarrow> int option" where
  "scrape engine s f =
     (let m = sr_metrics s;
          touched = (\<lambda>n. if n = 0 then None else Some (int n));
          seen = (\<lambda>st. filter (\<lambda>(st', _). st' = st) (mt_durations m)) in
      case f of
        DeploysTotal service outcome \<Rightarrow> touched (mt_deploys m (service, outcome))
      | StateDurationBucket st i \<Rightarrow>
          if i < length duration_buckets \<and> seen st \<noteq> []
          then Some (int (length (filter (\<lambda>(_, d). d \<le> duration_buckets ! i) (seen st)))) else None
      | StateDurationCount st \<Rightarrow> touched (length (seen st))
      | Drift_gauge service \<Rightarrow> map_option (\<lambda>b. if b then 1 else 0) (mt_drift m service)
      | RegistryPollsTotal repository outcome \<Rightarrow> touched (mt_polls m (repository, outcome))
      | EventsDroppedTotal \<Rightarrow> Some (int (mt_dropped m))
      | QueueDepthGauge \<Rightarrow> Some (case engine of None \<Rightarrow> 0 | Some P \<Rightarrow> QueueDepth P))"

section \<open>What a scrape tells\<close>

definition served_calls :: "string \<Rightarrow> proxy_boundary option \<Rightarrow> server_call list \<Rightarrow> server" where
  "served_calls file proxy cs = fold server_do cs (server_New file proxy)"

definition outcomes_of :: "server_call list \<Rightarrow> (string \<times> string) list" where
  "outcomes_of cs = concat (map (\<lambda>c. case c of Published _ ev \<Rightarrow> counted ev | _ \<Rightarrow> []) cs)"

definition polls_of :: "server_call list \<Rightarrow> (string \<times> string) list" where
  "polls_of cs = List.map_filter (\<lambda>c. case c of
     Polled r e \<Rightarrow> Some (r, if e \<noteq> None then ''error'' else ''ok'') | _ \<Rightarrow> None) cs"

lemma setDrift_keeps:
  "mt_deploys (setDrift drift names m) = mt_deploys m" "mt_polls (setDrift drift names m) = mt_polls m"
  "mt_dropped (setDrift drift names m) = mt_dropped m"
proof -
  have keep: "g (fold (\<lambda>s m. m\<lparr>mt_drift := (mt_drift m)(s \<mapsto> f s)\<rparr>) xs m) = g m"
    if "\<And>m d. g (m\<lparr>mt_drift := d\<rparr>) = g m" for g :: "metrics \<Rightarrow> 'x" and f xs m
    using that by (induction xs arbitrary: m) simp_all
  show "mt_deploys (setDrift drift names m) = mt_deploys m" "mt_polls (setDrift drift names m) = mt_polls m"
      "mt_dropped (setDrift drift names m) = mt_dropped m"
    unfolding setDrift_def Let_def by (subst (1 2) keep; simp)+
qed

lemma observe_keeps: "mt_polls (observe now ev m) = mt_polls m" "mt_dropped (observe now ev m) = mt_dropped m"
  by (auto simp: observe_def Let_def split: option.split)

lemma server_counts:
  "mt_deploys (sr_metrics (served_calls file proxy cs)) x = count_list (outcomes_of cs) x \<and>
   mt_polls (sr_metrics (served_calls file proxy cs)) x = count_list (polls_of cs) x \<and>
   mt_dropped (sr_metrics (served_calls file proxy cs)) = br_dropped (sr_broker (served_calls file proxy cs))"
proof (induction cs rule: rev_induct)
  case Nil
  then show ?case
    by (simp add: served_calls_def server_New_def newMetrics_def newBroker_def outcomes_of_def polls_of_def
        List.map_filter_def)
next
  case (snoc c cs)
  let ?s = "served_calls file proxy cs"
  have s: "served_calls file proxy (cs @ [c]) = server_do c ?s" by (simp add: served_calls_def)
  have o: "outcomes_of (cs @ [c]) = outcomes_of cs @ (case c of Published _ ev \<Rightarrow> counted ev | _ \<Rightarrow> [])"
    by (simp add: outcomes_of_def)
  have p: "polls_of (cs @ [c]) =
      polls_of cs @ (case c of Polled r e \<Rightarrow> [(r, if e \<noteq> None then ''error'' else ''ok'')] | _ \<Rightarrow> [])"
    by (simp add: polls_of_def List.map_filter_def split: server_call.split)
  show ?case
    using snoc.IH unfolding s o p
    by (cases c)
       (auto simp: server_do_def server_Publish_def server_SetDrift_def recordRegistryPoll_def setDrift_keeps
          observe_keeps observe_deploys count_list_append publish_def subscribe_def unsubscribe_def receive_def
          Let_def split: option.split list.split)
qed

text \<open>
  A scrape is an account of what happened. Whatever the server was told, in any order, a deploy counter
  is the number of terminal events published for its service and outcome, a poll counter the number of
  polls with that outcome, and the drop counter the number of events the broker dropped.
\<close>

theorem scrape_is_an_account:
  "scrape engine (served_calls file proxy cs) (DeploysTotal service outcome) =
     (let n = count_list (outcomes_of cs) (service, outcome) in if n = 0 then None else Some (int n)) \<and>
   scrape engine (served_calls file proxy cs) (RegistryPollsTotal repository res) =
     (let n = count_list (polls_of cs) (repository, res) in if n = 0 then None else Some (int n)) \<and>
   scrape engine (served_calls file proxy cs) EventsDroppedTotal =
     Some (int (br_dropped (sr_broker (served_calls file proxy cs))))"
  using server_counts by (simp add: scrape_def Let_def)

end
