(* ===== verification/Canary.thy ===== *)
theory Canary
  imports Outcomes Mux "HOL-Library.Word"
begin

text \<open>
  The deliberately broken service of \<open>cmd/canary-unhealthy/main.go\<close> and what it is for: a rehearsal
  of a deploy that starts and never becomes healthy. The fixture is modelled request by request, the
  probe is the daemon's own, and the protocol of a run says what becomes of a run that probes it.
\<close>

section \<open>The fixture\<close>

definition canary_port :: "string \<Rightarrow> string" where
  "canary_port env = (if env = [] then ''8080'' else env)"

text \<open>What the process prints before it serves, and where it listens.\<close>

definition canary_banner :: "string \<Rightarrow> string" where
  "canary_banner port =
     ''canary-unhealthy listening on :'' @ port @ ''; every request answers 500'' @ [CHR 0x0A]"

definition canary_address :: "string \<Rightarrow> string" where
  "canary_address port = '':'' @ port"

definition canary_body :: string where
  "canary_body = ''canary-unhealthy: this service never becomes healthy''"

text \<open>
  The only handler: it takes the next number of the shared counter and logs that number; nothing of
  the request goes into the line. \<open>http.Error\<close> ends the body with a newline.
\<close>

definition canary_line :: "64 word \<Rightarrow> string" where
  "canary_line n =
     ''refused request '' @ Itoa (sint n) @ '' with 500 (this image is a deploy-failure fixture)''"

definition canary_refuse :: "64 word \<Rightarrow> (nat \<times> string) \<times> string \<times> 64 word" where
  "canary_refuse refused =
     (let n = refused + 1 in ((500, canary_body @ [CHR 0x0A]), canary_line n, n))"

text \<open>A request for a path: the mux redirects one that is not clean, and \<open>/\<close> takes all others.\<close>

datatype canary_answer = Canary_Moved string | Canary_Answer nat string

definition canary_serve ::
    "string \<times> string \<Rightarrow> 64 word \<times> string list \<Rightarrow> canary_answer \<times> 64 word \<times> string list" where
  "canary_serve req st =
     (case req of (verb, path) \<Rightarrow> case st of (refused, lines) \<Rightarrow>
        (case mux [] (Some ()) verb path of
           Moved q \<Rightarrow> (Canary_Moved q, refused, lines)
         | Routed _ _ \<Rightarrow>
             (case canary_refuse refused of ((status, body), line, n) \<Rightarrow>
                (Canary_Answer status body, n, lines @ [line]))
         | _ \<Rightarrow> (Canary_Answer 404 [], refused, lines)))"

primrec canary_run ::
    "(string \<times> string) list \<Rightarrow> 64 word \<times> string list \<Rightarrow> canary_answer list \<times> 64 word \<times> string list" where
  "canary_run [] st = ([], st)"
| "canary_run (r # rs) st =
     (case canary_serve r st of (a, st') \<Rightarrow> case canary_run rs st' of (as, st'') \<Rightarrow> (a # as, st''))"

text \<open>The status a client ends on that follows at most \<open>n\<close> redirects, as \<open>http.Client\<close> does.\<close>

primrec canary_get :: "nat \<Rightarrow> string \<Rightarrow> 64 word \<times> string list \<Rightarrow> nat option" where
  "canary_get 0 path st = None"
| "canary_get (Suc n) path st =
     (case fst (canary_serve (''GET'', path) st) of
        Canary_Moved q \<Rightarrow> canary_get n q st
      | Canary_Answer status _ \<Rightarrow> Some status)"

lemma canary_serve_cases:
  "canary_serve (verb, path) (n, lines) =
     (if verb \<noteq> ''CONNECT'' \<and> cleanPath path \<noteq> path then (Canary_Moved (cleanPath path), n, lines)
      else (Canary_Answer 500 (canary_body @ [CHR 0x0A]), n + 1, lines @ [canary_line (n + 1)]))"
  by (simp add: canary_serve_def mux_def canary_refuse_def Let_def)

lemma canary_get_500:
  "canary_get (Suc (Suc n)) path st = Some 500"
  by (cases st) (simp add: canary_serve_cases cleanPath_idem)

lemma canary_get_10: "canary_get 10 path st = Some 500"
proof -
  have "Suc (Suc 8) = 10" by simp
  then show ?thesis using canary_get_500 [of 8 path st] by (simp only:)
qed

text \<open>
  Every request that is answered at all is refused, and the log says only how many were: the lines
  are the numbers from the counter on, whatever was asked for.
\<close>

definition refusals :: "canary_answer list \<Rightarrow> nat" where
  "refusals as = length (filter (\<lambda>a. \<exists>s b. a = Canary_Answer s b) as)"

definition canary_lines :: "64 word \<Rightarrow> nat \<Rightarrow> string list" where
  "canary_lines n k = map (\<lambda>i. canary_line (n + of_nat (Suc i))) [0..<k]"

lemma canary_lines_Suc:
  "canary_lines n (Suc k) = canary_line (n + 1) # canary_lines (n + 1) k"
  unfolding canary_lines_def by (simp add: upt_conv_Cons map_Suc_upt [symmetric] ac_simps del: upt_Suc)

lemma canary_log_exact:
  "canary_run rs (n, lines) = (as, n', lines') \<Longrightarrow>
     (\<forall>s b. Canary_Answer s b \<in> set as \<longrightarrow> s = 500) \<and>
     n' = n + of_nat (refusals as) \<and> lines' = lines @ canary_lines n (refusals as)"
proof (induction rs arbitrary: n lines as)
  case Nil
  then show ?case by (simp add: refusals_def canary_lines_def)
next
  case (Cons r rs)
  obtain verb path where r: "r = (verb, path)" by (cases r)
  show ?case
  proof (cases "verb \<noteq> ''CONNECT'' \<and> cleanPath path \<noteq> path")
    case True
    then obtain as' where "canary_run rs (n, lines) = (as', n', lines')"
        "as = Canary_Moved (cleanPath path) # as'"
      using Cons.prems by (auto simp: r canary_serve_cases split: prod.splits)
    then show ?thesis using Cons.IH by (auto simp: refusals_def)
  next
    case False
    then obtain as' where run: "canary_run rs (n + 1, lines @ [canary_line (n + 1)]) = (as', n', lines')"
        and as: "as = Canary_Answer 500 (canary_body @ [CHR 0x0A]) # as'"
      using Cons.prems by (auto simp: r canary_serve_cases split: prod.splits)
    then show ?thesis
      using Cons.IH [OF run] by (auto simp: refusals_def canary_lines_Suc)
  qed
qed

section \<open>Probing it\<close>

text \<open>A round of the probe against the fixture: it got no answer, or the one the fixture gives.\<close>

definition fixture_round :: "string \<Rightarrow> probe_round \<Rightarrow> bool" where
  "fixture_round path q \<longleftrightarrow>
     (case pr_answer q of
        Answered s \<Rightarrow> \<exists>st. canary_get 10 path st = Some s
      | _ \<Rightarrow> True)"

lemma fixture_round_unhealthy: "fixture_round path q \<Longrightarrow> \<not> round_healthy q"
  unfolding fixture_round_def round_healthy_def canary_get_10 by (auto split: probe_answer.splits)

lemma fixture_fails:
  assumes "Probe url t rounds = Some r" "\<forall>q \<in> set rounds. fixture_round path q"
  shows "r \<noteq> None"
proof -
  have "\<not> round_healthy q" if "dropWhile still_polling rounds = q # qs" for q qs
  proof -
    have "q \<in> set rounds" using set_dropWhileD [of q still_polling rounds] that by simp
    then show ?thesis using assms(2) fixture_round_unhealthy by blast
  qed
  then have "r \<noteq> None" if "probe_promise url s [] rounds = Some r" for s
    using that by (auto simp: probe_promise_def split: list.splits if_splits)
  then show ?thesis using assms(1) unfolding probe_exact .
qed

section \<open>What a run does with its probes\<close>

definition probe_result :: "obs \<Rightarrow> go_error option list" where
  "probe_result x = (case x of OE (ProbeHealth _ _ _) r \<Rightarrow> [r] | _ \<Rightarrow> [])"

definition probe_results :: "obs list \<Rightarrow> go_error option list" where
  "probe_results t = concat (map probe_result t)"

lemma probe_results_append [simp]: "probe_results (t @ u) = probe_results t @ probe_results u"
  by (simp add: probe_results_def)

text \<open>The results the probes of a run can have had by each stage: at most one for each manifest.\<close>

definition failed_only :: "nat \<Rightarrow> go_error option list \<Rightarrow> bool" where
  "failed_only n ps \<longleftrightarrow> length ps \<le> n \<and> None \<notin> set ps"

fun probed_by :: "stage \<Rightarrow> go_error option list \<Rightarrow> bool" where
  "probed_by Healthy_New ps \<longleftrightarrow> ps = [None]"
| "probed_by Lost ps \<longleftrightarrow> failed_only 1 ps"
| "probed_by (Old_Rendering _ _) ps \<longleftrightarrow> failed_only 1 ps"
| "probed_by (Old_Installed _) ps \<longleftrightarrow> failed_only 1 ps"
| "probed_by (Old_Restarted _) ps \<longleftrightarrow> failed_only 1 ps"
| "probed_by Dead ps \<longleftrightarrow> failed_only 2 ps"
| "probed_by Healthy_Old ps \<longleftrightarrow> (\<exists>fs. failed_only 1 fs \<and> ps = fs @ [None])"
| "probed_by (Reverting _) ps \<longleftrightarrow> (\<exists>fs. failed_only 1 fs \<and> ps = fs @ [None])"
| "probed_by (Revert_Green _) ps \<longleftrightarrow> (\<exists>fs. failed_only 1 fs \<and> ps = fs @ [None])"
| "probed_by Reverted ps \<longleftrightarrow> (\<exists>fs. failed_only 1 fs \<and> ps = fs @ [None])"
| "probed_by Finished ps \<longleftrightarrow> True"
| "probed_by _ ps \<longleftrightarrow> ps = []"

lemma failed_only_simps [simp]:
  "failed_only n []" "failed_only (Suc n) (Some e # ps) \<longleftrightarrow> failed_only n ps"
  "\<not> failed_only n (None # ps)" "failed_only 0 ps \<longleftrightarrow> ps = []"
  by (auto simp: failed_only_def)

lemma failed_only_more: "failed_only 1 ps \<Longrightarrow> failed_only 2 ps \<and> failed_only 2 (ps @ [Some e])"
  by (auto simp: failed_only_def)

lemma probed_step:
  assumes "probed_by \<sigma> (probe_results t)" "protocol c (\<sigma>, prev) x = Some (\<sigma>', prev')"
  shows "probed_by \<sigma>' (probe_results (t @ [x]))"
proof (cases "probe_result x = []")
  case True
  then have x: "probe_results (t @ [x]) = probe_results t" by (simp add: probe_results_def)
  show ?thesis
    unfolding x using assms True
    by (cases "(c, (\<sigma>, prev), x)" rule: protocol.cases;
      auto simp: Let_def probe_result_def failed_only_more split: if_splits stage.splits sum.splits)
next
  case False
  then obtain url tm iv r where x: "x = OE (ProbeHealth url tm iv) r"
    by (auto simp: probe_result_def split: obs.splits ecall.splits)
  then have ps: "probe_results (t @ [x]) = probe_results t @ [r]"
    by (simp add: probe_results_def probe_result_def)
  show ?thesis
    unfolding ps using assms unfolding x
    by (cases \<sigma>; cases r) (auto simp: failed_only_more split: if_splits)
qed

lemma at_stage_probed: "at_stage opts req t \<sigma> prev \<Longrightarrow> probed_by \<sigma> (probe_results t)"
proof -
  assume "at_stage opts req t \<sigma> prev"
  then have "(\<lambda>t s. probed_by (fst s) (probe_results t)) t (\<sigma>, prev)"
    unfolding at_stage_def
  proof (induction rule: drive_induct)
    case (step t x s1 s2)
    then show ?case
      using probed_step [of "fst s1" t "contract_of opts req" "snd s1" x "fst s2" "snd s2"] by simp
  qed (simp add: probe_results_def)
  then show ?thesis by simp
qed

lemma receipt_finished:
  assumes "run_log h opts req w = a @ OE (JFinish i st d) r # b"
  shows "\<exists>\<sigma> prev. at_stage opts req a \<sigma> prev \<and> st = earned \<sigma> \<and> \<sigma> \<noteq> Finished"
  using run_log_split [OF assms] by (auto simp: for_row_def split: if_splits)

section \<open>The rehearsal\<close>


section \<open>A rehearsal, run\<close>

definition refused_round :: probe_round where
  "refused_round = \<lparr>pr_answer = Answered 500, pr_expired = False, pr_done = True\<rparr>"

definition canary_failure :: "string \<Rightarrow> int \<Rightarrow> go_error" where
  "canary_failure url timeout = the (the (Probe url timeout [refused_round]))"

lemma refused_round_fails:
  "Probe url timeout [refused_round] = Some (Some (canary_failure url timeout))"
  by (simp add: canary_failure_def Probe_def refused_round_def probeOnce_def Let_def)

lemma refused_round_fixture: "fixture_round path refused_round"
  by (simp add: fixture_round_def refused_round_def canary_get_10)

text \<open>The sample environment, with the fixture behind the new digest: the world counts the probes.\<close>

definition rehearsal_handler :: "nat handler" where
  "rehearsal_handler = sample_handler
     \<lparr>h_e := (\<lambda>e w. case e of
          ProbeHealth url t i \<Rightarrow> (if w = 1 then Some (canary_failure url t) else None, w + 1)
        | _ \<Rightarrow> (None, w)),
      h_s := (\<lambda>c w. if c = RepoSync then (Inr ''head'', w) else h_s sample_handler c w)\<rparr>"

definition rehearsal :: "obs list" where
  "rehearsal = run_log rehearsal_handler sample_options (sample_request ActionDeploy) 1"

definition telling :: "obs \<Rightarrow> bool" where
  "telling x \<longleftrightarrow> is_receipt x \<or> probe_result x \<noteq> []"

lemma probe_results_telling: "probe_results (filter telling t) = probe_results t"
  by (induction t) (auto simp: probe_results_def telling_def)

lemma filter_eq_snoc: "filter P xs = ys @ [x] \<Longrightarrow> \<exists>as bs. xs = as @ x # bs \<and> filter P as = ys"
proof (induction xs arbitrary: ys)
  case (Cons a xs)
  show ?case
  proof (cases "P a \<and> ys = []")
    case True
    then show ?thesis using Cons.prems by (intro exI [of _ "[]"] exI [of _ xs]) simp
  next
    case False
    then obtain ys' where "filter P xs = ys' @ [x]" "ys = (if P a then a # ys' else ys')"
      using Cons.prems by (cases ys) (auto split: if_splits)
    then show ?thesis using Cons.IH [of ys'] by (metis append_Cons filter.simps(2))
  qed
qed simp

lemma rehearsal_handler_sel:
  "h_u rehearsal_handler c w = w"
  "h_e rehearsal_handler (ProbeHealth url t i) w =
     (if w = 1 then Some (canary_failure url t) else None, w + 1)"
  "h_e rehearsal_handler (LockService s) w = (None, w)"
  "h_e rehearsal_handler (WriteUnit n u) w = (None, w)"
  "h_e rehearsal_handler (ReloadAndRestart s) w = (None, w)"
  "h_e rehearsal_handler (PRUpdateBranch k) w = (None, w)"
  "h_e rehearsal_handler (JProgress j st d) w = (None, w)"
  "h_e rehearsal_handler (JFinish j st d) w = (None, w)"
  "h_e rehearsal_handler (JSetPR j k) w = (None, w)"
  "h_e rehearsal_handler (JSetMergeSHA j d) w = (None, w)"
  "h_e rehearsal_handler (JSetDigests j d d') w = (None, w)"
  "h_e rehearsal_handler CtxErr w = (None, w)"
  "h_s rehearsal_handler RepoSync w = (Inr ''head'', w)"
  "h_s rehearsal_handler (RepoTemplate d) w = (Inr ''Image='', w)"
  "h_s rehearsal_handler (RunningImage s) w = (Inr ''another'', w)"
  "h_s rehearsal_handler (PRMerge k) w = (Inr ''c0ffee'', w)"
  "h_manifest rehearsal_handler s w = (Inr (sample_manifest, ''old''), w)"
  "h_sync_state rehearsal_handler w = ((True, None), w)"
  "h_open_pr rehearsal_handler s x d b w = (Inr 1, w)"
  "h_wait_checks rehearsal_handler k iv w = (Inr (True, ''ok''), w)"
  "h_now rehearsal_handler w = (0, w)"
  by (simp_all add: rehearsal_handler_def sample_handler_def)

lemma rehearsal_log:
  "\<exists>u t i u' t' i' d r. filter telling rehearsal =
     [OE (ProbeHealth u t i) (Some (canary_failure u t)), OE (ProbeHealth u' t' i') None,
      OE (JFinish 7 StateRolledBack d) r]"
  unfolding rehearsal_def
  by (simp add: sample_exec sample_sel rehearsal_handler_sel telling_def is_receipt_def probe_result_def
      del: append.simps exec.simps PhaseProbing_def PhaseRestarting_def ActionConverge_def merge_loop.simps
        revert_loop.simps StateDetected_def StateReconciling_def StateProbing_def StateRolledBack_def
        ActionDeploy_def StateFailed_def)


end
