(* ===== verification/Json.thy ===== *)
theory Json
  imports Provenance Go_Url
begin

text \<open>
  The part of \<open>encoding/json\<close> the daemon and its client speak: values without fractions, the text the
  encoder writes for one, and the decoder. The encoder replaces bytes that are no UTF-8 and escapes
  what \<open>Marshal\<close> escapes; the decoder takes any spacing and every escape. What is decoded from what was
  encoded is the value again, with its texts made valid: \<open>Unmarshal_text\<close> and \<open>Decode_text\<close>.
\<close>

section \<open>Values and their text\<close>

datatype json =
    JNull
  | JBool bool
  | JInt int
  | JStr string
  | JArr "json list"
  | JObj "(string \<times> json) list"

text \<open>A text as the decoder hands it out: every byte that starts no character is replaced.\<close>

definition valid_text :: "string \<Rightarrow> string" where
  "valid_text s = concat (runes s)"

abbreviation quotation :: char where "quotation \<equiv> CHR 0x22"
abbreviation backslash :: char where "backslash \<equiv> CHR 0x5C"

definition escaped_rune :: "string \<Rightarrow> string" where
  "escaped_rune r =
     (case r of
        [c] \<Rightarrow>
          let n = of_char c in
          if c = quotation \<or> c = backslash then [backslash, c]
          else if c = CHR 0x08 then [backslash, CHR ''b'']
          else if c = CHR 0x0C then [backslash, CHR ''f'']
          else if c = CHR 0x0A then [backslash, CHR ''n'']
          else if c = CHR 0x0D then [backslash, CHR ''r'']
          else if c = CHR 0x09 then [backslash, CHR ''t'']
          else if n < 0x20 \<or> c = CHR ''<'' \<or> c = CHR ''>'' \<or> c = CHR ''&''
          then backslash # ''u00'' @ [hex_digit (n div 16), hex_digit (n mod 16)]
          else [c]
      | _ \<Rightarrow>
          if r = [CHR 0xE2, CHR 0x80, CHR 0xA8] then backslash # ''u2028''
          else if r = [CHR 0xE2, CHR 0x80, CHR 0xA9] then backslash # ''u2029'' else r)"

function string_chars :: "string \<Rightarrow> string" where
  "string_chars s =
     (if s = [] then []
      else if rune_width s = 0 then (backslash # ''ufffd'') @ string_chars (tl s)
      else escaped_rune (take (rune_width s) s) @ string_chars (drop (rune_width s) s))"
  by pat_completeness auto
termination
  by (relation "measure length") auto

declare string_chars.simps [simp del]

definition string_text :: "string \<Rightarrow> string" where
  "string_text s = quotation # string_chars s @ [quotation]"

fun json_text :: "json \<Rightarrow> string" where
  "json_text JNull = ''null''"
| "json_text (JBool b) = (if b then ''true'' else ''false'')"
| "json_text (JInt i) = Itoa i"
| "json_text (JStr s) = string_text s"
| "json_text (JArr vs) = ''['' @ join_with '','' (map json_text vs) @ '']''"
| "json_text (JObj kvs) =
     ''{'' @ join_with '','' (map (\<lambda>(k, v). string_text k @ '':'' @ json_text v) kvs) @ ''}''"

section \<open>Reading\<close>

definition json_space :: "char \<Rightarrow> bool" where
  "json_space c \<longleftrightarrow> c = CHR '' '' \<or> c = CHR 0x09 \<or> c = CHR 0x0A \<or> c = CHR 0x0D"

definition skip_space :: "string \<Rightarrow> string" where
  "skip_space s = dropWhile json_space s"

text \<open>\<open>utf8.AppendRune\<close>.\<close>

definition encode_rune :: "nat \<Rightarrow> string" where
  "encode_rune n =
     (if n < 0x80 then [char_of n]
      else if n < 0x800 then [char_of (0xC0 + n div 0x40), char_of (0x80 + n mod 0x40)]
      else if 0xD800 \<le> n \<and> n < 0xE000 \<or> 0x110000 \<le> n then rune_error
      else if n < 0x10000
      then [char_of (0xE0 + n div 0x1000), char_of (0x80 + n div 0x40 mod 0x40), char_of (0x80 + n mod 0x40)]
      else [char_of (0xF0 + n div 0x40000), char_of (0x80 + n div 0x1000 mod 0x40),
            char_of (0x80 + n div 0x40 mod 0x40), char_of (0x80 + n mod 0x40)])"

definition hex4 :: "string \<Rightarrow> (nat \<times> string) option" where
  "hex4 s =
     (case s of
        a # b # c # d # t \<Rightarrow>
          (case (unhex a, unhex b, unhex c, unhex d) of
             (Some w, Some x, Some y, Some z) \<Rightarrow> Some (4096 * w + 256 * x + 16 * y + z, t)
           | _ \<Rightarrow> None)
      | _ \<Rightarrow> None)"

text \<open>The second half of a surrogate pair, when the text goes on with one.\<close>

definition low_half :: "string \<Rightarrow> (nat \<times> string) option" where
  "low_half s =
     (if HasPrefix s (backslash # ''u'')
      then (case hex4 (drop 2 s) of
              Some (n, t) \<Rightarrow> if 0xDC00 \<le> n \<and> n < 0xE000 then Some (n, t) else None
            | None \<Rightarrow> None)
      else None)"

text \<open>What follows a backslash.\<close>

definition read_escape :: "string \<Rightarrow> (string \<times> string) option" where
  "read_escape s =
     (case s of
        [] \<Rightarrow> None
      | c # t \<Rightarrow>
          if c = quotation \<or> c = backslash \<or> c = CHR ''/'' then Some ([c], t)
          else if c = CHR ''b'' then Some ([CHR 0x08], t)
          else if c = CHR ''f'' then Some ([CHR 0x0C], t)
          else if c = CHR ''n'' then Some ([CHR 0x0A], t)
          else if c = CHR ''r'' then Some ([CHR 0x0D], t)
          else if c = CHR ''t'' then Some ([CHR 0x09], t)
          else if c = CHR ''u'' then
            (case hex4 t of
               None \<Rightarrow> None
             | Some (n, u) \<Rightarrow>
                 (case (if 0xD800 \<le> n \<and> n < 0xDC00 then low_half u else None) of
                    Some (m, v) \<Rightarrow> Some (encode_rune (0x10000 + (n - 0xD800) * 0x400 + (m - 0xDC00)), v)
                  | None \<Rightarrow> Some (encode_rune n, u)))
          else None)"

lemma hex4_shorter: "hex4 s = Some (n, t) \<Longrightarrow> length t < length s"
  by (auto simp: hex4_def split: list.splits option.splits)

lemma low_half_shorter: "low_half s = Some (n, t) \<Longrightarrow> length t < length s"
  by (auto simp: low_half_def dest!: hex4_shorter split: if_splits option.splits)

lemma read_escape_shorter: "read_escape s = Some (r, t) \<Longrightarrow> length t < length s"
  by (auto simp: read_escape_def dest!: hex4_shorter low_half_shorter
      split: list.splits if_splits option.splits prod.splits)

function read_chars :: "string \<Rightarrow> (string \<times> string) option" where
  "read_chars [] = None"
| "read_chars (c # s) =
     (if c = quotation then Some ([], s)
      else if c = backslash
      then (case read_escape s of
              None \<Rightarrow> None
            | Some (r, t) \<Rightarrow> map_option (apfst (append r)) (read_chars t))
      else if (of_char c :: nat) < 0x20 then None
      else map_option (apfst (Cons c)) (read_chars s))"
  by pat_completeness auto
termination
  by (relation "measure length") (auto dest: read_escape_shorter)

declare read_chars.simps(2) [simp del]

text \<open>A number without fraction or exponent; the others are none the client or the daemon can use.\<close>

definition digit_char :: "char \<Rightarrow> bool" where
  "digit_char c \<longleftrightarrow> 48 \<le> (of_char c :: nat) \<and> (of_char c :: nat) \<le> 57"

definition read_digits :: "string \<Rightarrow> (int \<times> string) option" where
  "read_digits s =
     (let ds = takeWhile digit_char s; t = dropWhile digit_char s in
      if ds = [] \<or> hd ds = CHR ''0'' \<and> length ds > 1 \<or> t \<noteq> [] \<and> hd t \<in> set ''.eE'' then None
      else Some (foldl (\<lambda>n d. 10 * n + (of_char d - 48)) 0 ds, t))"

definition read_number :: "string \<Rightarrow> (int \<times> string) option" where
  "read_number s =
     (case s of
        c # t \<Rightarrow> if c = CHR ''-'' then map_option (apfst uminus) (read_digits t) else read_digits s
      | [] \<Rightarrow> None)"

text \<open>The decoder; the number of steps it is given is never less than the text is long.\<close>

fun read_value :: "nat \<Rightarrow> string \<Rightarrow> (json \<times> string) option"
and read_elems :: "nat \<Rightarrow> string \<Rightarrow> (json list \<times> string) option"
and read_members :: "nat \<Rightarrow> string \<Rightarrow> ((string \<times> json) list \<times> string) option" where
  "read_value 0 s = None"
| "read_value (Suc n) s =
     (let t = skip_space s in
      if HasPrefix t ''null'' then Some (JNull, drop 4 t)
      else if HasPrefix t ''true'' then Some (JBool True, drop 4 t)
      else if HasPrefix t ''false'' then Some (JBool False, drop 5 t)
      else (case t of
              [] \<Rightarrow> None
            | c # u \<Rightarrow>
                if c = quotation then map_option (apfst (\<lambda>x. JStr (valid_text x))) (read_chars u)
                else if c = CHR ''['' then
                  (if skip_space u \<noteq> [] \<and> hd (skip_space u) = CHR '']'' then Some (JArr [], tl (skip_space u))
                   else map_option (apfst JArr) (read_elems n u))
                else if c = CHR ''{'' then
                  (if skip_space u \<noteq> [] \<and> hd (skip_space u) = CHR ''}'' then Some (JObj [], tl (skip_space u))
                   else map_option (apfst JObj) (read_members n u))
                else map_option (apfst JInt) (read_number t)))"
| "read_elems 0 s = None"
| "read_elems (Suc n) s =
     (case read_value n s of
        None \<Rightarrow> None
      | Some (v, t) \<Rightarrow>
          (case skip_space t of
             [] \<Rightarrow> None
           | d # u \<Rightarrow>
               if d = CHR '','' then map_option (apfst (Cons v)) (read_elems n u)
               else if d = CHR '']'' then Some ([v], u) else None))"
| "read_members 0 s = None"
| "read_members (Suc n) s =
     (case skip_space s of
        [] \<Rightarrow> None
      | q # s' \<Rightarrow>
          if q \<noteq> quotation then None
          else (case read_chars s' of
             None \<Rightarrow> None
           | Some (k, t) \<Rightarrow>
               (case skip_space t of
                  [] \<Rightarrow> None
                | d # u \<Rightarrow>
                    if d \<noteq> CHR '':'' then None
                    else (case read_value n u of
                       None \<Rightarrow> None
                     | Some (v, x) \<Rightarrow>
                         (case skip_space x of
                            [] \<Rightarrow> None
                          | e # y \<Rightarrow>
                              if e = CHR '','' then map_option (apfst (Cons (valid_text k, v))) (read_members n y)
                              else if e = CHR ''}'' then Some ([(valid_text k, v)], y) else None)))))"

text \<open>\<open>json.Unmarshal\<close> takes the whole text, \<open>Decoder.Decode\<close> the first value of it.\<close>

definition json_Decode :: "string \<Rightarrow> json option" where
  "json_Decode s = map_option fst (read_value (Suc (length s)) s)"

definition json_Unmarshal :: "string \<Rightarrow> json option" where
  "json_Unmarshal s =
     (case read_value (Suc (length s)) s of
        Some (v, t) \<Rightarrow> if skip_space t = [] then Some v else None
      | None \<Rightarrow> None)"

section \<open>Texts read back\<close>

lemma valid_text_idem [simp]: "valid_text (valid_text s) = valid_text s"
  by (simp add: valid_text_def runes_concat [OF runes_are_runes])

lemma valid_text_simps:
  "valid_text [] = []"
  "s \<noteq> [] \<Longrightarrow> rune_width s = 0 \<Longrightarrow> valid_text s = rune_error @ valid_text (tl s)"
  "rune_width s \<noteq> 0 \<Longrightarrow> valid_text s = take (rune_width s) s @ valid_text (drop (rune_width s) s)"
  by (subst valid_text_def, subst runes.simps, force simp: valid_text_def rune_width_def)+

lemma high_bytes:
  assumes "1 < rune_width s" "c \<in> set (take (rune_width s) s)"
  shows "0x80 \<le> (of_char c :: nat)"
proof -
  obtain a t where s: "s = a # t" using assms(1) by (cases s) (auto simp: rune_width_def)
  let ?w = "lead_width (of_char a)"
  have w: "rune_width s = ?w" "1 < ?w" and ok: "tail_ok (of_char a) (?w - 2) t"
    using assms(1) by (auto simp: s rune_width_def Let_def split: if_splits)
  have a: "0x80 \<le> (of_char a :: nat)" using w(2) by (auto simp: lead_width_def split: if_splits)
  obtain b u where t: "t = b # u" using ok by (cases t) (auto simp: tail_ok_def)
  have b: "0x80 \<le> (of_char b :: nat)"
    using ok by (auto simp: t tail_ok_def byte_in_def second_byte_def split: if_splits)
  have "c = a \<or> c = b \<or> c \<in> set (take (?w - 2) u)"
    using assms(2) [unfolded w(1), unfolded s t] w(2) by (cases "?w"; cases "?w - 1") auto
  moreover have "c \<in> set (take (?w - 2) u) \<Longrightarrow> 0x80 \<le> (of_char c :: nat)"
    using ok by (auto simp: t tail_ok_def byte_in_def list_all_iff)
  ultimately show ?thesis using a b by blast
qed

lemma read_plain:
  "\<forall>c \<in> set r. 0x80 \<le> (of_char c :: nat) \<Longrightarrow> read_chars (r @ t) = map_option (apfst (append r)) (read_chars t)"
proof (induction r)
  case Nil
  then show ?case by (cases "read_chars t") auto
next
  case (Cons c r)
  then have c: "0x80 \<le> (of_char c :: nat)" by simp
  then have "c \<noteq> quotation" "c \<noteq> backslash" by auto
  then show ?case
    using c Cons by (cases "read_chars t") (auto simp: read_chars.simps(2) map_option.compositionality)
qed

lemma read_backslash:
  "read_escape s = Some (r, t) \<Longrightarrow> read_chars (backslash # s) = map_option (apfst (append r)) (read_chars t)"
  by (simp add: read_chars.simps(2))

lemma hex_digit_read: "n < 16 \<Longrightarrow> unhex (hex_digit n) = Some n"
  by (auto simp: unhex_def hex_digit_def Let_def)

lemma unhex_zero: "unhex (CHR ''0'') = Some 0"
  by (simp add: unhex_def)

lemma read_u00:
  assumes "(of_char c :: nat) < 0x80"
  shows "read_escape (''u00'' @ [hex_digit (of_char c div 16), hex_digit (of_char c mod 16)] @ t) = Some ([c], t)"
proof -
  let ?n = "of_char c :: nat"
  have "hex4 (''00'' @ [hex_digit (?n div 16), hex_digit (?n mod 16)] @ t) = Some (?n, t)"
    using nibbles [of c] unhex_zero by (simp add: hex4_def hex_digit_read)
  moreover have "encode_rune ?n = [c]" using assms by (simp add: encode_rune_def)
  ultimately show ?thesis using assms by (simp add: read_escape_def)
qed

lemma option_apfst_append [simp]:
  "map_option (apfst (append (x @ y))) z = map_option (apfst (append x)) (map_option (apfst (append y)) z)"
  by (cases z) auto

text \<open>One character as the encoder writes it.\<close>

lemma escaped_ascii:
  assumes "(of_char c :: nat) < 0x80"
  shows "read_chars (escaped_rune [c] @ t) = map_option (apfst (append [c])) (read_chars t)"
proof (cases "c \<in> {quotation, backslash, CHR 0x08, CHR 0x0C, CHR 0x0A, CHR 0x0D, CHR 0x09}")
  case True
  then have "\<exists>e. escaped_rune [c] = [backslash, e] \<and> (\<forall>t. read_escape (e # t) = Some ([c], t))"
    by (elim insertE emptyE; hypsubst; simp add: escaped_rune_def read_escape_def)
  then obtain e where "escaped_rune [c] = [backslash, e]" "read_escape (e # t) = Some ([c], t)" by blast
  then show ?thesis using read_backslash [of "e # t"] by simp
next
  case False
  then have plain: "escaped_rune [c] =
      (if (of_char c :: nat) < 0x20 \<or> c = CHR ''<'' \<or> c = CHR ''>'' \<or> c = CHR ''&''
       then backslash # ''u00'' @ [hex_digit (of_char c div 16), hex_digit (of_char c mod 16)] else [c])"
    by (simp add: escaped_rune_def Let_def)
  have "Cons c = append [c]" by (rule ext) simp
  then have "read_chars ([c] @ t) = map_option (apfst (append [c])) (read_chars t)" if "\<not> (of_char c :: nat) < 0x20"
    using False that by (simp add: read_chars.simps(2))
  then show ?thesis
    unfolding plain using read_backslash [OF read_u00 [OF assms, of t]] by auto
qed

lemma read_u202:
  "read_escape (''u2028'' @ t) = Some ([CHR 0xE2, CHR 0x80, CHR 0xA8], t)"
  "read_escape (''u2029'' @ t) = Some ([CHR 0xE2, CHR 0x80, CHR 0xA9], t)"
  "read_escape (''ufffd'' @ t) = Some (rune_error, t)"
  by (simp_all add: read_escape_def hex4_def unhex_def encode_rune_def rune_error_def char_of_eq_iff)

lemma escaped_high:
  assumes "\<forall>c \<in> set r. 0x80 \<le> (of_char c :: nat)" "1 < length r"
  shows "read_chars (escaped_rune r @ t) = map_option (apfst (append r)) (read_chars t)"
proof -
  have "escaped_rune r =
      (if r = [CHR 0xE2, CHR 0x80, CHR 0xA8] then backslash # ''u2028''
       else if r = [CHR 0xE2, CHR 0x80, CHR 0xA9] then backslash # ''u2029'' else r)"
    using assms(2) by (auto simp: escaped_rune_def split: list.splits)
  then show ?thesis
    using read_plain [OF assms(1)] read_backslash [OF read_u202(1) [of t]] read_backslash [OF read_u202(2) [of t]]
    by simp
qed

lemma ascii_rune: "rune_width s = 1 \<Longrightarrow> \<exists>c t. s = c # t \<and> (of_char c :: nat) < 0x80"
  by (cases s) (auto simp: rune_width_def lead_width_def Let_def split: if_splits)

lemma read_string_chars:
  "read_chars (string_chars s @ quotation # t) = Some (valid_text s, t)"
proof (induction s rule: string_chars.induct)
  case (1 s)
  consider "s = []" | "s \<noteq> []" "rune_width s = 0" | c u where "s = c # u" "rune_width s = 1" "(of_char c :: nat) < 0x80"
    | "s \<noteq> []" "1 < rune_width s"
    using ascii_rune [of s] by (cases "s = []"; cases "rune_width s"; fastforce)
  then show ?case
  proof cases
    case 1
    then show ?thesis by (simp add: string_chars.simps read_chars.simps(2) valid_text_simps(1))
  next
    case 2
    have "read_chars (string_chars s @ quotation # t) =
        map_option (apfst (append rune_error)) (read_chars (string_chars (tl s) @ quotation # t))"
      using 2 read_backslash [OF read_u202(3)] by (subst string_chars.simps) simp
    then show ?thesis using "1.IH"(1) [OF 2] valid_text_simps(2) [OF 2] by simp
  next
    case 3
    have "string_chars s = escaped_rune [c] @ string_chars u"
      using 3 by (subst string_chars.simps) simp
    moreover have "valid_text s = c # valid_text u" using 3 valid_text_simps(3) [of s] by simp
    moreover have "read_chars (string_chars u @ quotation # t) = Some (valid_text u, t)"
      using "1.IH"(2) 3 by simp
    ultimately show ?thesis using escaped_ascii [OF 3(3)] by simp
  next
    case 4
    let ?r = "take (rune_width s) s"
    have "string_chars s = escaped_rune ?r @ string_chars (drop (rune_width s) s)"
      using 4 by (subst string_chars.simps) simp
    moreover have "valid_text s = ?r @ valid_text (drop (rune_width s) s)" using 4 valid_text_simps(3) [of s] by simp
    moreover have "1 < length ?r" using 4 rune_width_le [of s] by simp
    moreover have "\<forall>c \<in> set ?r. 0x80 \<le> (of_char c :: nat)" using high_bytes [OF 4(2)] by blast
    moreover have "read_chars (string_chars (drop (rune_width s) s) @ quotation # t) =
        Some (valid_text (drop (rune_width s) s), t)"
      using "1.IH"(2) 4 by simp
    ultimately show ?thesis using escaped_high by simp
  qed
qed

section \<open>Numbers read back\<close>

lemma digit_char_of: "0 \<le> d \<Longrightarrow> d < 10 \<Longrightarrow> of_char (char_of (48 + d)) = (48 + d :: int)"
  by (simp add: of_char_of take_bit_eq_mod)

lemma digit_char_digit: "0 \<le> d \<Longrightarrow> d < 10 \<Longrightarrow> digit_char (char_of (48 + d :: int))"
proof -
  assume "0 \<le> d" "d < 10"
  then have "int (of_char (char_of (48 + d))) = 48 + d"
    using digit_char_of [of d] by (simp add: of_nat_of_char)
  then show ?thesis using \<open>0 \<le> d\<close> \<open>d < 10\<close> by (simp add: digit_char_def)
qed

lemma digits_read:
  "0 \<le> n \<Longrightarrow> list_all digit_char (digits_of n) \<and> digits_of n \<noteq> [] \<and>
     foldl (\<lambda>n d. 10 * n + (of_char d - 48)) 0 (digits_of n) = n \<and>
     (hd (digits_of n) = CHR ''0'' \<longrightarrow> n = 0)"
proof (induction n rule: digits_of.induct)
  case (1 n)
  show ?case
  proof (cases "n < 10")
    case True
    then have "hd (digits_of n) = CHR ''0'' \<Longrightarrow> 48 + n = of_char (CHR ''0'')"
      using digit_char_of [of n] 1 by (simp add: digits_of.simps)
    then show ?thesis
      using True 1 digit_char_of [of n] digit_char_digit [of n] by (simp add: digits_of.simps)
  next
    case False
    then have n: "\<not> n < 10" "0 \<le> n div 10" "n div 10 \<noteq> 0" by auto
    have d: "0 \<le> n mod 10" "n mod 10 < 10" by simp_all
    show ?thesis
      using "1.IH" [OF n(1,2)] digit_char_of [OF d] digit_char_digit [OF d] n
      by (subst (1 2 3 4) digits_of.simps) auto
  qed
qed

text \<open>What may follow a number for it to be one.\<close>

definition closes :: "string \<Rightarrow> bool" where
  "closes t \<longleftrightarrow> t = [] \<or> hd t \<in> {CHR '','', CHR '']'', CHR ''}'', CHR 0x0A}"

lemma closes_simps [simp]:
  "closes []" "closes (CHR '','' # t)" "closes (CHR '']'' # t)" "closes (CHR ''}'' # t)" "closes (CHR 0x0A # t)"
  by (simp_all add: closes_def)

lemma closes_no_digit: "closes t \<Longrightarrow> t = [] \<or> \<not> digit_char (hd t) \<and> hd t \<notin> set ''.eE''"
  by (auto simp: closes_def digit_char_def)

lemma read_digits_of:
  assumes "0 \<le> n" "closes t"
  shows "read_digits (digits_of n @ t) = Some (n, t)"
proof -
  note d = digits_read [OF assms(1)]
  have "takeWhile digit_char t = []" "dropWhile digit_char t = t"
    using closes_no_digit [OF assms(2)] by (cases t; auto)+
  then have "takeWhile digit_char (digits_of n @ t) = digits_of n" "dropWhile digit_char (digits_of n @ t) = t"
    using d by (auto simp: list_all_iff takeWhile_append dropWhile_append)
  moreover have "n = 0 \<Longrightarrow> length (digits_of n) = 1" by (simp add: digits_of.simps)
  ultimately show ?thesis
    using d closes_no_digit [OF assms(2)] by (auto simp: read_digits_def Let_def)
qed

lemma read_number_Itoa: "closes t \<Longrightarrow> read_number (Itoa i @ t) = Some (i, t)"
proof (cases "i < 0")
  case True
  assume "closes t"
  then show ?thesis using True read_digits_of [of "- i" t] by (simp add: Itoa_def read_number_def)
next
  case False
  assume "closes t"
  then have "read_digits (digits_of i @ t) = Some (i, t)" using False read_digits_of by simp
  moreover obtain d ds where "digits_of i = d # ds" "digit_char d"
    using digits_read [of i] False by (cases "digits_of i") auto
  moreover have "digit_char d \<Longrightarrow> d \<noteq> CHR ''-''" for d by (auto simp: digit_char_def)
  ultimately show ?thesis using False by (simp add: Itoa_def read_number_def)
qed

section \<open>Values read back\<close>

fun valid_json :: "json \<Rightarrow> json" where
  "valid_json (JStr s) = JStr (valid_text s)"
| "valid_json (JArr vs) = JArr (map valid_json vs)"
| "valid_json (JObj kvs) = JObj (map (\<lambda>(k, v). (valid_text k, valid_json v)) kvs)"
| "valid_json v = v"

lemma digits_first: "0 \<le> n \<Longrightarrow> digits_of n \<noteq> [] \<and> digit_char (hd (digits_of n))"
  using digits_read [of n] by (cases "digits_of n") auto

lemma Itoa_first: "Itoa i \<noteq> [] \<and> (hd (Itoa i) = CHR ''-'' \<or> digit_char (hd (Itoa i)))"
  using digits_first [of i] by (auto simp: Itoa_def)

text \<open>How a value's text begins decides how it is read.\<close>

lemma text_first:
  "json_text v \<noteq> [] \<and> \<not> json_space (hd (json_text v))"
proof -
  have "c = CHR ''-'' \<or> digit_char c \<Longrightarrow> \<not> json_space c" for c by (auto simp: json_space_def digit_char_def)
  then have "Itoa i \<noteq> [] \<and> \<not> json_space (hd (Itoa i))" for i using Itoa_first by blast
  then show ?thesis by (cases v) (simp_all add: string_text_def json_space_def)
qed

lemma text_not_closing: "hd (json_text v) \<noteq> CHR '']''"
proof -
  have "c = CHR ''-'' \<or> digit_char c \<Longrightarrow> c \<noteq> CHR '']''" for c by (auto simp: digit_char_def)
  then have "hd (Itoa i) \<noteq> CHR '']''" for i using Itoa_first by blast
  then show ?thesis by (cases v) (simp_all add: string_text_def)
qed

lemma skip_space_text [simp]: "skip_space (json_text v @ t) = json_text v @ t"
  using text_first [of v] by (cases "json_text v") (auto simp: skip_space_def)

lemma skip_space_simps [simp]:
  "skip_space [] = []" "\<not> json_space c \<Longrightarrow> skip_space (c # t) = c # t"
  by (simp_all add: skip_space_def)

lemma no_spaces [simp]:
  "\<not> json_space (CHR '','')" "\<not> json_space (CHR '']'')" "\<not> json_space (CHR ''}'')" "\<not> json_space (CHR '':'')"
  "\<not> json_space (CHR ''['')" "\<not> json_space (CHR ''{'')" "\<not> json_space quotation"
  by (simp_all add: json_space_def)

lemma read_string_text:
  "read_chars (string_chars k @ quotation # t) = Some (valid_text k, t)"
  by (rule read_string_chars)

lemma read_value_number: "closes t \<Longrightarrow> read_value (Suc n) (Itoa i @ t) = Some (JInt i, t)"
proof -
  assume t: "closes t"
  obtain c u where c: "Itoa i = c # u" "c = CHR ''-'' \<or> digit_char c"
    using Itoa_first [of i] by (cases "Itoa i") auto
  then have "CHR ''n'' \<noteq> c \<and> CHR ''t'' \<noteq> c \<and> CHR ''f'' \<noteq> c \<and> c \<noteq> quotation \<and> c \<noteq> CHR ''['' \<and> c \<noteq> CHR ''{'' \<and>
      \<not> json_space c"
    by (auto simp: digit_char_def json_space_def)
  then show ?thesis
    using read_number_Itoa [OF t, of i] unfolding c(1) by (simp add: HasPrefix_def Let_def)
qed

lemma read_elems_text:
  assumes "\<And>v n t. v \<in> set vs \<Longrightarrow> closes t \<Longrightarrow> length (json_text v) \<le> n \<Longrightarrow>
      read_value n (json_text v @ t) = Some (valid_json v, t)"
    and "vs \<noteq> []" "length (join_with '','' (map json_text vs)) < n"
  shows "read_elems n (join_with '','' (map json_text vs) @ CHR '']'' # t) = Some (map valid_json vs, t)"
  using assms
proof (induction vs arbitrary: n rule: induct_list012)
  case (2 v)
  then obtain m where "n = Suc m" by (cases n) auto
  then show ?case using 2 by simp
next
  case (3 v w vs)
  then obtain m where n: "n = Suc m" by (cases n) auto
  have "read_value m (json_text v @ CHR '','' # u) = Some (valid_json v, CHR '','' # u)" for u
    using 3 by (simp add: n)
  moreover have "read_elems m (join_with '','' (map json_text (w # vs)) @ CHR '']'' # t) =
      Some (map valid_json (w # vs), t)"
    using "3.IH"(2) [of m] "3.prems" by (simp add: n)
  ultimately show ?case by (simp add: n)
qed simp

lemma read_members_text:
  assumes "\<And>k v n t. (k, v) \<in> set kvs \<Longrightarrow> closes t \<Longrightarrow> length (json_text v) \<le> n \<Longrightarrow>
      read_value n (json_text v @ t) = Some (valid_json v, t)"
    and "kvs \<noteq> []"
    and "length (join_with '','' (map (\<lambda>(k, v). string_text k @ '':'' @ json_text v) kvs)) < n"
  shows "read_members n (join_with '','' (map (\<lambda>(k, v). string_text k @ '':'' @ json_text v) kvs) @ CHR ''}'' # t) =
    Some (map (\<lambda>(k, v). (valid_text k, valid_json v)) kvs, t)"
  using assms
proof (induction kvs arbitrary: n rule: induct_list012)
  case (2 kv)
  obtain k v where kv: "kv = (k, v)" by (cases kv)
  obtain m where n: "n = Suc m" using 2 by (cases n) auto
  have "read_value m (json_text v @ CHR ''}'' # t) = Some (valid_json v, CHR ''}'' # t)"
    using 2 by (simp add: n kv string_text_def)
  then show ?case by (simp add: n kv string_text_def read_string_text)
next
  case (3 kv kw kvs)
  obtain k v where kv: "kv = (k, v)" by (cases kv)
  obtain m where n: "n = Suc m" using 3 by (cases n) auto
  have "read_value m (json_text v @ CHR '','' # u) = Some (valid_json v, CHR '','' # u)" for u
    using "3.prems"(3) by (intro "3.prems"(1) [of k]) (auto simp: n kv string_text_def)
  moreover have "read_members m (join_with '','' (map (\<lambda>(k, v). string_text k @ '':'' @ json_text v) (kw # kvs)) @ CHR ''}'' # t) =
      Some (map (\<lambda>(k, v). (valid_text k, valid_json v)) (kw # kvs), t)"
  proof (rule "3.IH"(2))
    show "read_value i (json_text v' @ u) = Some (valid_json v', u)"
      if "(k', v') \<in> set (kw # kvs)" "closes u" "length (json_text v') \<le> i" for k' v' i u
      using that "3.prems"(1) [of k' v'] by simp
  qed (use "3.prems"(3) in \<open>simp_all add: n kv\<close>)
  ultimately show ?case by (simp add: n kv string_text_def read_string_text)
qed simp

lemma join_first: "xs \<noteq> [] \<Longrightarrow> hd xs \<noteq> [] \<Longrightarrow> join_with sep xs \<noteq> [] \<and> hd (join_with sep xs) = hd (hd xs)"
  by (cases xs; cases "tl xs") auto

lemma read_literals:
  "read_value (Suc n) (CHR ''n'' # CHR ''u'' # CHR ''l'' # CHR ''l'' # t) = Some (JNull, t)"
  "read_value (Suc n) (CHR ''t'' # CHR ''r'' # CHR ''u'' # CHR ''e'' # t) = Some (JBool True, t)"
  "read_value (Suc n) (CHR ''f'' # CHR ''a'' # CHR ''l'' # CHR ''s'' # CHR ''e'' # t) = Some (JBool False, t)"
  by (simp_all add: skip_space_def json_space_def HasPrefix_def)

lemma read_array:
  assumes "\<And>v n t. v \<in> set vs \<Longrightarrow> closes t \<Longrightarrow> length (json_text v) \<le> n \<Longrightarrow>
      read_value n (json_text v @ t) = Some (valid_json v, t)"
    and "length (json_text (JArr vs)) \<le> Suc m"
  shows "read_value (Suc m) (json_text (JArr vs) @ t) = Some (valid_json (JArr vs), t)"
proof (cases "vs = []")
  case False
  let ?x = "join_with '','' (map json_text vs)"
  have "read_elems m (?x @ CHR '']'' # t) = Some (map valid_json vs, t)"
    using assms False by (intro read_elems_text) auto
  moreover have "?x \<noteq> [] \<and> \<not> json_space (hd ?x) \<and> hd ?x \<noteq> CHR '']''"
    using join_first [of "map json_text vs" "'',''"] False text_first [of "hd vs"] text_not_closing [of "hd vs"]
    by (simp add: hd_map)
  ultimately show ?thesis
    by (cases ?x) (auto simp: HasPrefix_def Let_def)
qed (simp add: HasPrefix_def Let_def)

lemma read_object:
  assumes "\<And>k v n t. (k, v) \<in> set kvs \<Longrightarrow> closes t \<Longrightarrow> length (json_text v) \<le> n \<Longrightarrow>
      read_value n (json_text v @ t) = Some (valid_json v, t)"
    and "length (json_text (JObj kvs)) \<le> Suc m"
  shows "read_value (Suc m) (json_text (JObj kvs) @ t) = Some (valid_json (JObj kvs), t)"
proof (cases "kvs = []")
  case False
  let ?x = "join_with '','' (map (\<lambda>(k, v). string_text k @ '':'' @ json_text v) kvs)"
  have "read_members m (?x @ CHR ''}'' # t) = Some (map (\<lambda>(k, v). (valid_text k, valid_json v)) kvs, t)"
    using assms False by (intro read_members_text) auto
  moreover have "?x \<noteq> [] \<and> hd ?x = quotation"
    using join_first [of "map (\<lambda>(k, v). string_text k @ '':'' @ json_text v) kvs" "'',''"] False
    by (cases "hd kvs") (simp add: hd_map string_text_def)
  ultimately show ?thesis
    by (cases ?x) (auto simp: HasPrefix_def Let_def)
qed (simp add: HasPrefix_def Let_def)

lemma read_text:
  "closes t \<Longrightarrow> length (json_text v) \<le> n \<Longrightarrow> read_value n (json_text v @ t) = Some (valid_json v, t)"
proof (induction v arbitrary: n t)
  case (JInt i)
  then obtain m where "n = Suc m" using Itoa_first [of i] by (cases n) auto
  then show ?case using JInt read_value_number by simp
next
  case (JStr s)
  then obtain m where "n = Suc m" by (cases n) (auto simp: string_text_def)
  then show ?case
    by (simp add: string_text_def HasPrefix_def read_string_text Let_def)
next
  case (JArr vs)
  then obtain m where n: "n = Suc m" by (cases n) auto
  show ?case unfolding n using JArr by (intro read_array) (auto simp: n)
next
  case (JObj kvs)
  then obtain m where n: "n = Suc m" by (cases n) auto
  show ?case unfolding n using JObj by (intro read_object) (auto simp: n)
next
  case JNull
  then show ?case by (cases n) (simp_all add: read_literals del: read_value.simps(2))
next
  case (JBool b)
  then show ?case by (cases b; cases n) (auto simp: read_literals simp del: read_value.simps(2))
qed

lemma Unmarshal_text: "json_Unmarshal (json_text v) = Some (valid_json v)"
  using read_text [of "[]" v "Suc (length (json_text v))"] by (simp add: json_Unmarshal_def)

text \<open>\<open>Encoder.Encode\<close> ends its text with a line break.\<close>

lemma Decode_text: "json_Decode (json_text v @ [CHR 0x0A]) = Some (valid_json v)"
  using read_text [of "[CHR 0x0A]" v "Suc (Suc (length (json_text v)))"] by (simp add: json_Decode_def)

end
