(* ===== verification/Wire.thy ===== *)
theory Wire
  imports Cli Json
begin

text \<open>
  The wire between the daemon and its client: the JSON of every answer and event, by the field tags of
  \<open>api/api.go\<close>, \<open>journal.go\<close>, \<open>revision.go\<close> and \<open>engine.go\<close>, and the structs of \<open>cmd/snowdeploy/client.go\<close> that
  are decoded from it. The theorems say that both sides name their fields alike: what the daemon
  answers is what the client's tables and its progress lines show. The text of a time is an argument.
\<close>

section \<open>What the daemon writes\<close>

record times =
  tm_text :: "int option \<Rightarrow> string"
  tm_parse :: "string \<Rightarrow> int option option"

definition revision_json :: "revision \<Rightarrow> json" where
  "revision_json r =
     JObj [(''sha'', JStr (rv_SHA r)), (''url'', JStr (rv_URL r)), (''subject'', JStr (rv_Subject r))]"

definition entry_json :: "times \<Rightarrow> entry \<Rightarrow> json" where
  "entry_json tm e =
     JObj [(''ID'', JInt (ent_ID e)), (''Service'', JStr (ent_Service e)), (''Action'', JStr (ent_Action e)),
       (''Actor'', JStr (ent_Actor e)), (''OldDigest'', JStr (ent_OldDigest e)),
       (''NewDigest'', JStr (ent_NewDigest e)), (''PRNumber'', JInt (ent_PRNumber e)),
       (''MergeSHA'', JStr (ent_MergeSHA e)), (''State'', JStr (ent_State e)), (''Detail'', JStr (ent_Detail e)),
       (''StartedAt'', JStr (tm_text tm (ent_StartedAt e))), (''FinishedAt'', JStr (tm_text tm (ent_FinishedAt e)))]"

text \<open>A map is written in the order of its keys; \<open>omitempty\<close> and \<open>omitzero\<close> leave a field out.\<close>

definition revisions_json :: "(string \<times> revision) list \<Rightarrow> json" where
  "revisions_json rs = JObj (map (\<lambda>(d, r). (d, revision_json r)) (sort_key fst rs))"

definition unless_empty :: "string \<Rightarrow> string \<Rightarrow> (string \<times> json) list" where
  "unless_empty k s = (if s = [] then [] else [(k, JStr s)])"

definition service_json :: "times \<Rightarrow> service_status \<Rightarrow> json" where
  "service_json tm s =
     JObj ([(''name'', JStr (ss_Name s)), (''repository'', JStr (ss_Repository s)),
         (''manifestDigest'', JStr (ss_ManifestDigest s)), (''runningDigest'', JStr (ss_RunningDigest s)),
         (''latestAvailable'', JStr (ss_LatestAvailable s)), (''drifted'', JBool (ss_Drifted s))]
       @ (case ss_LastDeploy s of None \<Rightarrow> [] | Some e \<Rightarrow> [(''lastDeploy'', entry_json tm e)])
       @ (case ss_Revisions s of None \<Rightarrow> [] | Some rs \<Rightarrow> if rs = [] then [] else [(''revisions'', revisions_json rs)])
       @ [(''registryReachable'', JBool (ss_RegistryReachable s))]
       @ (if ss_LatestCheckedAt s = None then []
          else [(''latestCheckedAt'', JStr (tm_text tm (ss_LatestCheckedAt s)))])
       @ unless_empty ''repoWebUrl'' (ss_RepoWebURL s))"

definition error_json :: "string \<Rightarrow> json" where
  "error_json text = JObj [(''error'', JStr text)]"

definition body_json :: "times \<Rightarrow> body \<Rightarrow> json option" where
  "body_json tm b =
     (case b of
        ErrorBody text \<Rightarrow> Some (error_json text)
      | AcceptedBody i joined \<Rightarrow> Some (JObj [(''journalId'', JInt i), (''joined'', JBool joined)])
      | ServicesBody rows \<Rightarrow> Some (JArr (map (service_json tm) rows))
      | HistoryBody es \<Rightarrow> Some (JArr (map (entry_json tm) es))
      | RevisionsBody rs \<Rightarrow> Some (revisions_json rs)
      | StreamBody \<Rightarrow> None
      | TextBody _ \<Rightarrow> None)"

text \<open>\<open>writeJSON\<close>: the header and the body it writes.\<close>

definition writeJSON :: "times \<Rightarrow> response \<Rightarrow> ((string \<times> string) list \<times> string) option" where
  "writeJSON tm resp =
     map_option (\<lambda>v. ([(''Content-Type'', ''application/json'')], json_text v @ [CHR 0x0A])) (body_json tm (snd resp))"

text \<open>A frame's payload; a time that is not set is the zero time of \<open>eventFromEntry\<close>.\<close>

definition event_json :: "times \<Rightarrow> event \<Rightarrow> json" where
  "event_json tm ev =
     JObj ([(''service'', JStr (ev_Service ev))]
       @ unless_empty ''action'' (ev_Action ev)
       @ [(''state'', JStr (ev_State ev)), (''detail'', JStr (ev_Detail ev)), (''journalId'', JInt (ev_JournalID ev))]
       @ (if ev_PRNumber ev = 0 then [] else [(''prNumber'', JInt (ev_PRNumber ev))])
       @ unless_empty ''prUrl'' (ev_PRURL ev)
       @ unless_empty ''mergeUrl'' (ev_MergeURL ev)
       @ [(''at'', JStr (tm_text tm (if ev_At ev = zero_time then None else Some (ev_At ev))))])"

definition event_payload :: "times \<Rightarrow> event \<Rightarrow> string option" where
  "event_payload tm ev = Some (json_text (event_json tm ev))"

section \<open>What the client reads\<close>

text \<open>
  A struct is decoded member by member into what it holds: a name goes to the field of that name, or
  else to the one that differs in case only; an unknown one is skipped; \<open>null\<close> changes nothing. A value
  of the wrong kind is an error.
\<close>

type_synonym 'r field_setter = "json \<Rightarrow> 'r \<Rightarrow> 'r option"

definition fold_case :: "string \<Rightarrow> string" where
  "fold_case s = map (\<lambda>c. if 65 \<le> (of_char c :: nat) \<and> (of_char c :: nat) \<le> 90 then char_of (of_char c + (32 :: nat)) else c) s"

definition find_field :: "(string \<times> 'a) list \<Rightarrow> string \<Rightarrow> 'a option" where
  "find_field fs k =
     (case map_of fs k of
        Some f \<Rightarrow> Some f
      | None \<Rightarrow> map_option snd (find (\<lambda>(n, _). fold_case n = fold_case k) fs))"

fun decode_members :: "(string \<times> 'r field_setter) list \<Rightarrow> (string \<times> json) list \<Rightarrow> 'r \<Rightarrow> 'r option" where
  "decode_members fs [] r = Some r"
| "decode_members fs ((k, v) # kvs) r =
     (case find_field fs k of
        None \<Rightarrow> decode_members fs kvs r
      | Some f \<Rightarrow> (case f v r of None \<Rightarrow> None | Some r' \<Rightarrow> decode_members fs kvs r'))"

definition decode_struct :: "(string \<times> 'r field_setter) list \<Rightarrow> json \<Rightarrow> 'r \<Rightarrow> 'r option" where
  "decode_struct fs v r = (case v of JObj kvs \<Rightarrow> decode_members fs kvs r | JNull \<Rightarrow> Some r | _ \<Rightarrow> None)"

definition str_field :: "(string \<Rightarrow> 'r \<Rightarrow> 'r) \<Rightarrow> 'r field_setter" where
  "str_field put v r = (case v of JStr s \<Rightarrow> Some (put s r) | JNull \<Rightarrow> Some r | _ \<Rightarrow> None)"

definition int_field :: "(int \<Rightarrow> 'r \<Rightarrow> 'r) \<Rightarrow> 'r field_setter" where
  "int_field put v r =
     (case v of JInt i \<Rightarrow> if int64 i then Some (put i r) else None | JNull \<Rightarrow> Some r | _ \<Rightarrow> None)"

definition bool_field :: "(bool \<Rightarrow> 'r \<Rightarrow> 'r) \<Rightarrow> 'r field_setter" where
  "bool_field put v r = (case v of JBool b \<Rightarrow> Some (put b r) | JNull \<Rightarrow> Some r | _ \<Rightarrow> None)"

definition time_field :: "times \<Rightarrow> (int option \<Rightarrow> 'r \<Rightarrow> 'r) \<Rightarrow> 'r field_setter" where
  "time_field tm put v r =
     (case v of JStr s \<Rightarrow> map_option (\<lambda>t. put t r) (tm_parse tm s) | JNull \<Rightarrow> Some r | _ \<Rightarrow> None)"

definition slice_field :: "'a field_setter \<Rightarrow> 'a \<Rightarrow> json \<Rightarrow> 'a list option" where
  "slice_field one zero v =
     (case v of JArr vs \<Rightarrow> those (map (\<lambda>x. one x zero) vs) | JNull \<Rightarrow> Some [] | _ \<Rightarrow> None)"

definition revision_fields :: "(string \<times> revision field_setter) list" where
  "revision_fields =
     [(''sha'', str_field (\<lambda>s r. r\<lparr>rv_SHA := s\<rparr>)), (''url'', str_field (\<lambda>s r. r\<lparr>rv_URL := s\<rparr>)),
      (''subject'', str_field (\<lambda>s r. r\<lparr>rv_Subject := s\<rparr>))]"

definition entry_fields :: "times \<Rightarrow> (string \<times> entry field_setter) list" where
  "entry_fields tm =
     [(''ID'', int_field (\<lambda>i e. e\<lparr>ent_ID := i\<rparr>)),
      (''Service'', str_field (\<lambda>s e. e\<lparr>ent_Service := s\<rparr>)),
      (''Action'', str_field (\<lambda>s e. e\<lparr>ent_Action := s\<rparr>)),
      (''Actor'', str_field (\<lambda>s e. e\<lparr>ent_Actor := s\<rparr>)),
      (''OldDigest'', str_field (\<lambda>s e. e\<lparr>ent_OldDigest := s\<rparr>)),
      (''NewDigest'', str_field (\<lambda>s e. e\<lparr>ent_NewDigest := s\<rparr>)),
      (''PRNumber'', int_field (\<lambda>i e. e\<lparr>ent_PRNumber := i\<rparr>)),
      (''MergeSHA'', str_field (\<lambda>s e. e\<lparr>ent_MergeSHA := s\<rparr>)),
      (''State'', str_field (\<lambda>s e. e\<lparr>ent_State := s\<rparr>)),
      (''Detail'', str_field (\<lambda>s e. e\<lparr>ent_Detail := s\<rparr>)),
      (''StartedAt'', time_field tm (\<lambda>t e. e\<lparr>ent_StartedAt := t\<rparr>)),
      (''FinishedAt'', time_field tm (\<lambda>t e. e\<lparr>ent_FinishedAt := t\<rparr>))]"

definition no_entry :: entry where
  "no_entry = \<lparr>ent_ID = 0, ent_Service = [], ent_Action = [], ent_Actor = [], ent_OldDigest = [],
     ent_NewDigest = [], ent_PRNumber = 0, ent_MergeSHA = [], ent_State = [], ent_Detail = [],
     ent_StartedAt = None, ent_FinishedAt = None\<rparr>"

definition no_status :: service_status where
  "no_status = \<lparr>ss_Name = [], ss_Repository = [], ss_ManifestDigest = [], ss_RunningDigest = [],
     ss_LatestAvailable = [], ss_Drifted = False, ss_LastDeploy = None, ss_Revisions = None,
     ss_RegistryReachable = False, ss_LatestCheckedAt = None, ss_RepoWebURL = []\<rparr>"

text \<open>A pointer is allocated for an object, a map for its entries; \<open>null\<close> clears either.\<close>

definition last_deploy_field :: "times \<Rightarrow> service_status field_setter" where
  "last_deploy_field tm v s =
     (if v = JNull then Some (s\<lparr>ss_LastDeploy := None\<rparr>)
      else map_option (\<lambda>e. s\<lparr>ss_LastDeploy := Some e\<rparr>)
             (decode_struct (entry_fields tm) v (case ss_LastDeploy s of None \<Rightarrow> no_entry | Some e \<Rightarrow> e)))"

fun decode_map :: "'a field_setter \<Rightarrow> 'a \<Rightarrow> (string \<times> json) list \<Rightarrow> (string \<times> 'a) list \<Rightarrow> (string \<times> 'a) list option" where
  "decode_map one zero [] m = Some m"
| "decode_map one zero ((k, v) # kvs) m =
     (case one v zero of
        None \<Rightarrow> None
      | Some x \<Rightarrow> decode_map one zero kvs (filter (\<lambda>p. fst p \<noteq> k) m @ [(k, x)]))"

definition revisions_field :: "service_status field_setter" where
  "revisions_field v s =
     (case v of
        JNull \<Rightarrow> Some (s\<lparr>ss_Revisions := None\<rparr>)
      | JObj kvs \<Rightarrow>
          map_option (\<lambda>m. s\<lparr>ss_Revisions := Some m\<rparr>)
            (decode_map (decode_struct revision_fields) no_revision kvs
               (case ss_Revisions s of None \<Rightarrow> [] | Some m \<Rightarrow> m))
      | _ \<Rightarrow> None)"

definition status_fields :: "times \<Rightarrow> (string \<times> service_status field_setter) list" where
  "status_fields tm =
     [(''name'', str_field (\<lambda>s x. x\<lparr>ss_Name := s\<rparr>)),
      (''repository'', str_field (\<lambda>s x. x\<lparr>ss_Repository := s\<rparr>)),
      (''manifestDigest'', str_field (\<lambda>s x. x\<lparr>ss_ManifestDigest := s\<rparr>)),
      (''runningDigest'', str_field (\<lambda>s x. x\<lparr>ss_RunningDigest := s\<rparr>)),
      (''latestAvailable'', str_field (\<lambda>s x. x\<lparr>ss_LatestAvailable := s\<rparr>)),
      (''drifted'', bool_field (\<lambda>b x. x\<lparr>ss_Drifted := b\<rparr>)),
      (''registryReachable'', bool_field (\<lambda>b x. x\<lparr>ss_RegistryReachable := b\<rparr>)),
      (''latestCheckedAt'', time_field tm (\<lambda>t x. x\<lparr>ss_LatestCheckedAt := t\<rparr>)),
      (''repoWebUrl'', str_field (\<lambda>s x. x\<lparr>ss_RepoWebURL := s\<rparr>)),
      (''lastDeploy'', last_deploy_field tm),
      (''revisions'', revisions_field)]"

definition event_fields :: "(string \<times> cli_event field_setter) list" where
  "event_fields =
     [(''service'', str_field (\<lambda>s e. e\<lparr>ce_Service := s\<rparr>)), (''action'', str_field (\<lambda>s e. e\<lparr>ce_Action := s\<rparr>)),
      (''state'', str_field (\<lambda>s e. e\<lparr>ce_State := s\<rparr>)), (''detail'', str_field (\<lambda>s e. e\<lparr>ce_Detail := s\<rparr>)),
      (''journalId'', int_field (\<lambda>i e. e\<lparr>ce_JournalID := i\<rparr>)),
      (''prUrl'', str_field (\<lambda>s e. e\<lparr>ce_PRURL := s\<rparr>)), (''mergeUrl'', str_field (\<lambda>s e. e\<lparr>ce_MergeURL := s\<rparr>))]"

definition no_event :: cli_event where
  "no_event = \<lparr>ce_Service = [], ce_Action = [], ce_State = [], ce_Detail = [], ce_JournalID = 0,
     ce_PRURL = [], ce_MergeURL = []\<rparr>"

definition decode_event :: "string \<Rightarrow> cli_event option" where
  "decode_event text = Option.bind (json_Unmarshal text) (\<lambda>v. decode_struct event_fields v no_event)"

definition services_of :: "times \<Rightarrow> json \<Rightarrow> service_status list option" where
  "services_of tm = slice_field (decode_struct (status_fields tm)) no_status"

definition history_of :: "times \<Rightarrow> json \<Rightarrow> entry list option" where
  "history_of tm = slice_field (decode_struct (entry_fields tm)) no_entry"

definition started_of :: "json \<Rightarrow> int option" where
  "started_of v = decode_struct [(''journalId'', int_field (\<lambda>i _. i))] v 0"

definition one_text :: "string \<Rightarrow> json \<Rightarrow> string option" where
  "one_text k v = decode_struct [(k, str_field (\<lambda>s _. s))] v []"

text \<open>\<open>why\<close> is the decoder's complaint about a text.\<close>

definition decoded :: "(string \<Rightarrow> go_error) \<Rightarrow> (json \<Rightarrow> 'a option) \<Rightarrow> string \<Rightarrow> 'a result" where
  "decoded why f text =
     (case Option.bind (json_Decode text) f of None \<Rightarrow> Inl (why text) | Some x \<Rightarrow> Inr x)"

definition wire_codec :: "(string \<Rightarrow> go_error) \<Rightarrow> times \<Rightarrow> codec" where
  "wire_codec why tm =
     \<lparr>j_digest = (\<lambda>d. Inr (json_text (JObj [(''digest'', JStr d)]))),
      j_error = (\<lambda>text. Option.bind (json_Unmarshal text) (one_text ''error'')),
      j_services = decoded why (services_of tm), j_history = decoded why (history_of tm),
      j_started = decoded why started_of\<rparr>"

text \<open>
  \<open>decodeDigest\<close>'s decoder: the first 4096 bytes of the body, and no field but \<open>digest\<close>; nothing at all is
  the end of the file.
\<close>

definition digest_fields :: "(string \<times> string field_setter) list" where
  "digest_fields = [(''digest'', str_field (\<lambda>s _. s))]"

definition decode_known :: "(string \<times> 'r field_setter) list \<Rightarrow> json \<Rightarrow> 'r \<Rightarrow> 'r option" where
  "decode_known fs v r =
     (case v of
        JObj kvs \<Rightarrow> if list_all (\<lambda>(k, _). find_field fs k \<noteq> None) kvs then decode_struct fs v r else None
      | _ \<Rightarrow> decode_struct fs v r)"

definition read_digest :: "(string \<Rightarrow> go_error) \<Rightarrow> string \<Rightarrow> go_error option \<times> string" where
  "read_digest why content =
     (if skip_space content = [] then (Some (errorf ''EOF''), [])
      else (case Option.bind (json_Decode (take 4096 content)) (\<lambda>v. decode_known digest_fields v []) of
              None \<Rightarrow> (Some (why content), [])
            | Some d \<Rightarrow> (None, d)))"

section \<open>Fields named alike\<close>

lemma ascii_valid: "list_all (\<lambda>c. (of_char c :: nat) < 0x80) s \<Longrightarrow> valid_text s = s"
proof (induction s)
  case (Cons c s)
  then have "rune_width (c # s) = 1" by (simp add: rune_width_def lead_width_def)
  then show ?case using Cons valid_text_simps(3) [of "c # s"] by simp
qed (simp add: valid_text_simps(1))

lemma find_field_exact: "map_of fs k = Some f \<Longrightarrow> find_field fs k = Some f"
  by (simp add: find_field_def)

lemma decode_members_append:
  "decode_members fs (a @ b) r = Option.bind (decode_members fs a r) (decode_members fs b)"
  by (induction fs a r rule: decode_members.induct) (auto split: option.splits)

lemma decode_known_field:
  "map_of fs k = Some f \<Longrightarrow> decode_members fs ((k, v) # kvs) r = Option.bind (f v r) (decode_members fs kvs)"
  by (cases "f v r") (simp_all add: find_field_exact)

lemma field_values [simp]:
  "str_field put (JStr s) r = Some (put s r)" "bool_field pub (JBool b) r' = Some (pub b r')"
  "int_field pui (JInt i) r'' = (if int64 i then Some (pui i r'') else None)"
  by (simp_all add: str_field_def bool_field_def int_field_def)

definition keeps_times :: "times \<Rightarrow> bool" where
  "keeps_times tm \<longleftrightarrow> (\<forall>t. tm_parse tm (valid_text (tm_text tm t)) = Some t)"

lemma time_value [simp]:
  "keeps_times tm \<Longrightarrow> time_field tm put (JStr (valid_text (tm_text tm t))) r = Some (put t r)"
  by (simp add: time_field_def keeps_times_def)

text \<open>A value with its texts as JSON carries them.\<close>

definition seen_revision :: "revision \<Rightarrow> revision" where
  "seen_revision r = \<lparr>rv_SHA = valid_text (rv_SHA r), rv_URL = valid_text (rv_URL r),
     rv_Subject = valid_text (rv_Subject r)\<rparr>"

definition seen_entry :: "entry \<Rightarrow> entry" where
  "seen_entry e = \<lparr>ent_ID = ent_ID e, ent_Service = valid_text (ent_Service e),
     ent_Action = valid_text (ent_Action e), ent_Actor = valid_text (ent_Actor e),
     ent_OldDigest = valid_text (ent_OldDigest e), ent_NewDigest = valid_text (ent_NewDigest e),
     ent_PRNumber = ent_PRNumber e, ent_MergeSHA = valid_text (ent_MergeSHA e),
     ent_State = valid_text (ent_State e), ent_Detail = valid_text (ent_Detail e),
     ent_StartedAt = ent_StartedAt e, ent_FinishedAt = ent_FinishedAt e\<rparr>"

lemma revision_read:
  "decode_struct revision_fields (valid_json (revision_json r)) no_revision = Some (seen_revision r)"
  by (simp add: revision_json_def decode_struct_def revision_fields_def decode_known_field ascii_valid
      seen_revision_def no_revision_def del: decode_members.simps(2))

definition fits_entry :: "entry \<Rightarrow> bool" where
  "fits_entry e \<longleftrightarrow> int64 (ent_ID e) \<and> int64 (ent_PRNumber e)"

lemma entry_read:
  assumes "keeps_times tm" "fits_entry e"
  shows "decode_struct (entry_fields tm) (valid_json (entry_json tm e)) no_entry = Some (seen_entry e)"
  using assms
  by (simp add: entry_json_def decode_struct_def entry_fields_def decode_known_field ascii_valid
      seen_entry_def no_entry_def fits_entry_def del: decode_members.simps(2))

definition seen_revisions :: "(string \<times> revision) list \<Rightarrow> (string \<times> revision) list" where
  "seen_revisions rs = map (\<lambda>(d, r). (valid_text d, seen_revision r)) (sort_key fst rs)"

lemma decode_map_read:
  assumes "\<And>x. one (f x) zero = Some (g x)"
  shows "distinct (map fst m @ map fst kvs) \<Longrightarrow>
    decode_map one zero (map (\<lambda>(k, x). (k, f x)) kvs) m = Some (m @ map (\<lambda>(k, x). (k, g x)) kvs)"
proof (induction kvs arbitrary: m)
  case (Cons kx kvs)
  obtain k x where kx: "kx = (k, x)" by (cases kx)
  have "filter (\<lambda>p. fst p \<noteq> k) m = m" using Cons.prems by (auto simp: kx filter_id_conv)
  moreover have "distinct (map fst (m @ [(k, g x)]) @ map fst kvs)" using Cons.prems by (auto simp: kx)
  ultimately show ?case using Cons.IH [of "m @ [(k, g x)]"] assms by (simp add: kx)
qed simp

definition distinct_keys :: "(string \<times> revision) list \<Rightarrow> bool" where
  "distinct_keys rs \<longleftrightarrow> distinct (map (\<lambda>p. valid_text (fst p)) rs)"

lemma revisions_read:
  assumes "distinct_keys rs" and that: "ss_Revisions s = None"
  shows "revisions_field (valid_json (revisions_json rs)) s = Some (s\<lparr>ss_Revisions := Some (seen_revisions rs)\<rparr>)"
proof -
  let ?kvs = "map (\<lambda>(d, r). (valid_text d, r)) (sort_key fst rs)"
  have "distinct (map (\<lambda>p. valid_text (fst p)) (sort_key fst rs))"
    using assms by (simp add: distinct_keys_def distinct_map)
  then have "distinct (map fst ([] :: (string \<times> revision) list) @ map fst ?kvs)"
    by (simp add: case_prod_beta comp_def)
  from decode_map_read [where f = "\<lambda>r. valid_json (revision_json r)" and g = seen_revision
      and one = "decode_struct revision_fields" and zero = no_revision, OF revision_read this]
  have "decode_map (decode_struct revision_fields) no_revision
      (map (\<lambda>(k, r). (k, valid_json (revision_json r))) ?kvs) [] = Some (map (\<lambda>(k, r). (k, seen_revision r)) ?kvs)"
    by simp
  then show ?thesis
    using that by (simp add: revisions_field_def revisions_json_def seen_revisions_def case_prod_beta comp_def)
qed

definition seen_status :: "service_status \<Rightarrow> service_status" where
  "seen_status s = \<lparr>ss_Name = valid_text (ss_Name s), ss_Repository = valid_text (ss_Repository s),
     ss_ManifestDigest = valid_text (ss_ManifestDigest s), ss_RunningDigest = valid_text (ss_RunningDigest s),
     ss_LatestAvailable = valid_text (ss_LatestAvailable s), ss_Drifted = ss_Drifted s,
     ss_LastDeploy = map_option seen_entry (ss_LastDeploy s),
     ss_Revisions = (case ss_Revisions s of None \<Rightarrow> None | Some rs \<Rightarrow> if rs = [] then None else Some (seen_revisions rs)),
     ss_RegistryReachable = ss_RegistryReachable s, ss_LatestCheckedAt = ss_LatestCheckedAt s,
     ss_RepoWebURL = valid_text (ss_RepoWebURL s)\<rparr>"

definition fits_status :: "service_status \<Rightarrow> bool" where
  "fits_status s \<longleftrightarrow>
     (case ss_LastDeploy s of None \<Rightarrow> True | Some e \<Rightarrow> fits_entry e) \<and>
     (case ss_Revisions s of None \<Rightarrow> True | Some rs \<Rightarrow> distinct_keys rs)"

text \<open>The fields that may be left out, one by one.\<close>

lemma last_deploy_read:
  assumes "keeps_times tm" "fits_status s" "ss_LastDeploy r = None"
  shows "decode_members (status_fields tm)
      (map (\<lambda>(k, v). (valid_text k, valid_json v))
         (case ss_LastDeploy s of None \<Rightarrow> [] | Some e \<Rightarrow> [(''lastDeploy'', entry_json tm e)])) r =
    Some (r\<lparr>ss_LastDeploy := map_option seen_entry (ss_LastDeploy s)\<rparr>)"
proof (cases "ss_LastDeploy s")
  case (Some e)
  then have "decode_struct (entry_fields tm) (valid_json (entry_json tm e)) no_entry = Some (seen_entry e)"
    using assms entry_read by (simp add: fits_status_def)
  moreover have "valid_json (entry_json tm e) \<noteq> JNull" by (simp add: entry_json_def)
  ultimately show ?thesis
    using assms(3) by (simp add: Some ascii_valid decode_known_field status_fields_def last_deploy_field_def
        del: decode_members.simps(2))
qed (use assms(3) in simp)

lemma revisions_member_read:
  assumes "fits_status s" "ss_Revisions r = None"
  shows "decode_members (status_fields tm)
      (map (\<lambda>(k, v). (valid_text k, valid_json v))
         (case ss_Revisions s of None \<Rightarrow> [] | Some rs \<Rightarrow> if rs = [] then [] else [(''revisions'', revisions_json rs)])) r =
    Some (r\<lparr>ss_Revisions := ss_Revisions (seen_status s)\<rparr>)"
proof (cases "ss_Revisions s")
  case (Some rs)
  then have "distinct_keys rs" using assms(1) by (simp add: fits_status_def)
  then show ?thesis
    using assms(2) revisions_read [of rs r]
    by (simp add: Some ascii_valid decode_known_field status_fields_def seen_status_def del: decode_members.simps(2))
qed (use assms(2) in \<open>simp add: seen_status_def\<close>)

lemma unless_empty_read:
  assumes "map_of fs k = Some (str_field put)" "valid_text k = k" "s = [] \<longrightarrow> put [] r = r"
  shows "decode_members fs (map (\<lambda>(k, v). (valid_text k, valid_json v)) (unless_empty k s)) r =
    Some (put (valid_text s) r)"
proof (cases "s = []")
  case False
  then show ?thesis using assms by (simp add: unless_empty_def decode_known_field del: decode_members.simps(2))
qed (use assms in \<open>simp add: unless_empty_def valid_text_simps(1)\<close>)

lemma status_read:
  assumes "keeps_times tm" "fits_status s"
  shows "decode_struct (status_fields tm) (valid_json (service_json tm s)) no_status = Some (seen_status s)"
proof -
  let ?d = "decode_members (status_fields tm)" and ?v = "map (\<lambda>(k, v). (valid_text k, valid_json v))"
  define r1 where "r1 = no_status\<lparr>ss_Name := valid_text (ss_Name s), ss_Repository := valid_text (ss_Repository s),
     ss_ManifestDigest := valid_text (ss_ManifestDigest s), ss_RunningDigest := valid_text (ss_RunningDigest s),
     ss_LatestAvailable := valid_text (ss_LatestAvailable s), ss_Drifted := ss_Drifted s\<rparr>"
  define r2 where "r2 = r1\<lparr>ss_LastDeploy := map_option seen_entry (ss_LastDeploy s)\<rparr>"
  define r3 where "r3 = r2\<lparr>ss_Revisions := ss_Revisions (seen_status s)\<rparr>"
  define r4 where "r4 = r3\<lparr>ss_RegistryReachable := ss_RegistryReachable s\<rparr>"
  define r5 where "r5 = r4\<lparr>ss_LatestCheckedAt := ss_LatestCheckedAt s\<rparr>"
  note new = r1_def r2_def r3_def r4_def r5_def no_status_def
  have "?d (?v [(''name'', JStr (ss_Name s)), (''repository'', JStr (ss_Repository s)),
      (''manifestDigest'', JStr (ss_ManifestDigest s)), (''runningDigest'', JStr (ss_RunningDigest s)),
      (''latestAvailable'', JStr (ss_LatestAvailable s)), (''drifted'', JBool (ss_Drifted s))]) no_status = Some r1"
    by (simp add: ascii_valid decode_known_field status_fields_def r1_def del: decode_members.simps(2))
  moreover have "?d (?v (case ss_LastDeploy s of None \<Rightarrow> [] | Some e \<Rightarrow> [(''lastDeploy'', entry_json tm e)])) r1 = Some r2"
    unfolding r2_def by (rule last_deploy_read [OF assms]) (simp add: new)
  moreover have "?d (?v (case ss_Revisions s of None \<Rightarrow> []
      | Some rs \<Rightarrow> if rs = [] then [] else [(''revisions'', revisions_json rs)])) r2 = Some r3"
    unfolding r3_def by (rule revisions_member_read [OF assms(2)]) (simp add: new)
  moreover have "?d (?v [(''registryReachable'', JBool (ss_RegistryReachable s))]) r3 = Some r4"
    by (simp add: ascii_valid decode_known_field status_fields_def r4_def del: decode_members.simps(2))
  moreover have "?d (?v (if ss_LatestCheckedAt s = None then []
      else [(''latestCheckedAt'', JStr (tm_text tm (ss_LatestCheckedAt s)))])) r4 = Some r5"
    using assms(1) by (simp add: ascii_valid decode_known_field status_fields_def new del: decode_members.simps(2))
  moreover have "?d (?v (unless_empty ''repoWebUrl'' (ss_RepoWebURL s))) r5 =
      Some (r5\<lparr>ss_RepoWebURL := valid_text (ss_RepoWebURL s)\<rparr>)"
    by (rule unless_empty_read) (simp_all add: ascii_valid status_fields_def new)
  moreover have "r5\<lparr>ss_RepoWebURL := valid_text (ss_RepoWebURL s)\<rparr> = seen_status s"
    by (simp add: new seen_status_def)
  ultimately show ?thesis
    unfolding service_json_def valid_json.simps decode_struct_def json.case map_append decode_members_append by simp
qed

lemma slice_read:
  assumes "\<And>x. x \<in> set xs \<Longrightarrow> one (f x) zero = Some (g x)"
  shows "slice_field one zero (JArr (map f xs)) = Some (map g xs)"
proof -
  have "those (map (\<lambda>y. one y zero) (map f xs)) = Some (map g xs)" using assms by (induction xs) auto
  then show ?thesis by (simp add: slice_field_def)
qed

lemma decoded_text:
  "f (valid_json v) = Some x \<Longrightarrow> decoded why f (json_text v @ [CHR 0x0A]) = Inr x"
  by (simp add: decoded_def Decode_text)

definition body_text :: "times \<Rightarrow> body \<Rightarrow> string" where
  "body_text tm b = (case writeJSON tm (200, b) of None \<Rightarrow> [] | Some (_, text) \<Rightarrow> text)"

lemma body_text_simps:
  "body_text tm (ServicesBody rows) = json_text (JArr (map (service_json tm) rows)) @ [CHR 0x0A]"
  "body_text tm (HistoryBody es) = json_text (JArr (map (entry_json tm) es)) @ [CHR 0x0A]"
  "body_text tm (AcceptedBody i joined) =
     json_text (JObj [(''journalId'', JInt i), (''joined'', JBool joined)]) @ [CHR 0x0A]"
  "body_text tm (ErrorBody text) = json_text (error_json text) @ [CHR 0x0A]"
  by (simp_all add: body_text_def writeJSON_def body_json_def del: json_text.simps)

lemma services_read:
  "keeps_times tm \<Longrightarrow> \<forall>s \<in> set rows. fits_status s \<Longrightarrow>
   j_services (wire_codec why tm) (body_text tm (ServicesBody rows)) = Inr (map seen_status rows)"
  unfolding body_text_simps wire_codec_def codec.simps
  by (rule decoded_text) (simp add: services_of_def slice_read status_read)

lemma history_read:
  "keeps_times tm \<Longrightarrow> \<forall>e \<in> set es. fits_entry e \<Longrightarrow>
   j_history (wire_codec why tm) (body_text tm (HistoryBody es)) = Inr (map seen_entry es)"
  unfolding body_text_simps wire_codec_def codec.simps
  by (rule decoded_text) (simp add: history_of_def slice_read entry_read)

lemma started_read:
  "int64 i \<Longrightarrow> j_started (wire_codec why tm) (body_text tm (AcceptedBody i joined)) = Inr i"
  unfolding body_text_simps wire_codec_def codec.simps
  by (rule decoded_text)
     (simp add: started_of_def decode_struct_def ascii_valid find_field_def fold_case_def)

lemma Unmarshal_line: "json_Unmarshal (json_text v @ [CHR 0x0A]) = Some (valid_json v)"
proof -
  have "skip_space [CHR 0x0A] = []" by (simp add: skip_space_def json_space_def)
  then show ?thesis
    using read_text [of "[CHR 0x0A]" v "Suc (Suc (length (json_text v)))"] by (simp add: json_Unmarshal_def)
qed

lemma error_read: "j_error (wire_codec why tm) (body_text tm (ErrorBody text)) = Some (valid_text text)"
  unfolding body_text_simps wire_codec_def codec.simps Unmarshal_line
  by (simp add: error_json_def one_text_def decode_struct_def ascii_valid find_field_exact)

lemma Decode_plain: "json_Decode (json_text v) = Some (valid_json v)"
  using read_text [of "[]" v "Suc (length (json_text v))"] by (simp add: json_Decode_def)

definition digest_text :: "string \<Rightarrow> string" where
  "digest_text d = json_text (JObj [(''digest'', JStr d)])"

lemma digest_read:
  assumes "length (digest_text d) \<le> 4096"
  shows "read_digest why (digest_text d) = (None, valid_text d)"
proof -
  have "json_Decode (digest_text d) = Some (valid_json (JObj [(''digest'', JStr d)]))"
    unfolding digest_text_def by (rule Decode_plain)
  moreover have "skip_space (digest_text d) \<noteq> []"
    by (simp add: digest_text_def)
  ultimately show ?thesis
    using assms by (simp add: read_digest_def decode_known_def decode_struct_def digest_fields_def ascii_valid
        find_field_exact)
qed

text \<open>
  C26. The daemon and the client agree on the wire. What the daemon answers, as JSON text, is decoded by
  the client into the same rows, journal entries, entry number and error, and the body of a click is
  decoded by the daemon into the digest that was asked for, each field into its namesake, with the
  fields that were left out at their zero values and the revisions in the order of their digests; only
  bytes that are no UTF-8 come out replaced. The numbers must fit 64 bits, the digests of a row differ,
  times survive their text, and a click's body has at most 4096 bytes.
\<close>

theorem answers_are_read_as_written:
  assumes "keeps_times tm"
    and "\<forall>s \<in> set rows. fits_status s" "\<forall>e \<in> set es. fits_entry e" "int64 i"
    and "length (digest_text d) \<le> 4096"
  shows "j_services (wire_codec why tm) (body_text tm (ServicesBody rows)) = Inr (map seen_status rows) \<and>
    j_history (wire_codec why tm) (body_text tm (HistoryBody es)) = Inr (map seen_entry es) \<and>
    j_started (wire_codec why tm) (body_text tm (AcceptedBody i joined)) = Inr i \<and>
    j_error (wire_codec why tm) (body_text tm (ErrorBody text)) = Some (valid_text text) \<and>
    j_digest (wire_codec why tm) d = Inr (digest_text d) \<and>
    read_digest why (digest_text d) = (None, valid_text d)"
  using assms services_read history_read started_read error_read digest_read
  by (simp add: wire_codec_def digest_text_def)

section \<open>Events\<close>

definition seen_event :: "event \<Rightarrow> cli_event" where
  "seen_event ev =
     \<lparr>ce_Service = valid_text (ev_Service ev), ce_Action = valid_text (ev_Action ev),
      ce_State = valid_text (ev_State ev), ce_Detail = valid_text (ev_Detail ev),
      ce_JournalID = ev_JournalID ev, ce_PRURL = valid_text (ev_PRURL ev),
      ce_MergeURL = valid_text (ev_MergeURL ev)\<rparr>"

lemma unknown_members:
  "find_field fs k = None \<Longrightarrow> decode_members fs ((k, v) # kvs) r = decode_members fs kvs r"
  by simp

lemma no_such_fields:
  "find_field event_fields ''prNumber'' = None" "find_field event_fields ''at'' = None"
  by (simp_all add: find_field_def event_fields_def fold_case_def)

lemma event_read:
  assumes "int64 (ev_JournalID ev)"
  shows "decode_event (json_text (event_json tm ev)) = Some (seen_event ev)"
proof -
  let ?d = "decode_members event_fields" and ?v = "map (\<lambda>(k, v). (valid_text k, valid_json v))"
  define r1 where "r1 = no_event\<lparr>ce_Service := valid_text (ev_Service ev)\<rparr>"
  define r2 where "r2 = r1\<lparr>ce_Action := valid_text (ev_Action ev)\<rparr>"
  define r3 where "r3 = r2\<lparr>ce_State := valid_text (ev_State ev), ce_Detail := valid_text (ev_Detail ev),
    ce_JournalID := ev_JournalID ev\<rparr>"
  define r4 where "r4 = r3\<lparr>ce_PRURL := valid_text (ev_PRURL ev)\<rparr>"
  define r5 where "r5 = r4\<lparr>ce_MergeURL := valid_text (ev_MergeURL ev)\<rparr>"
  note new = r1_def r2_def r3_def r4_def r5_def no_event_def
  have "?d (?v [(''service'', JStr (ev_Service ev))]) no_event = Some r1"
    by (simp add: ascii_valid decode_known_field event_fields_def r1_def del: decode_members.simps(2))
  moreover have "?d (?v (unless_empty ''action'' (ev_Action ev))) r1 = Some r2"
    unfolding r2_def by (rule unless_empty_read) (simp_all add: ascii_valid event_fields_def new)
  moreover have "?d (?v [(''state'', JStr (ev_State ev)), (''detail'', JStr (ev_Detail ev)),
      (''journalId'', JInt (ev_JournalID ev))]) r2 = Some r3"
    using assms by (simp add: ascii_valid decode_known_field event_fields_def r3_def del: decode_members.simps(2))
  moreover have "?d (?v (if ev_PRNumber ev = 0 then [] else [(''prNumber'', JInt (ev_PRNumber ev))])) r3 = Some r3"
    by (simp add: ascii_valid unknown_members no_such_fields del: decode_members.simps(2))
  moreover have "?d (?v (unless_empty ''prUrl'' (ev_PRURL ev))) r3 = Some r4"
    unfolding r4_def by (rule unless_empty_read) (simp_all add: ascii_valid event_fields_def new)
  moreover have "?d (?v (unless_empty ''mergeUrl'' (ev_MergeURL ev))) r4 = Some r5"
    unfolding r5_def by (rule unless_empty_read) (simp_all add: ascii_valid event_fields_def new)
  moreover have "?d (?v [(''at'', JStr x)]) r5 = Some r5" for x
    by (simp add: ascii_valid unknown_members no_such_fields del: decode_members.simps(2))
  moreover have "r5 = seen_event ev" by (simp add: new seen_event_def)
  ultimately have "decode_struct event_fields (valid_json (event_json tm ev)) no_event = Some (seen_event ev)"
    unfolding event_json_def valid_json.simps decode_struct_def json.case map_append decode_members_append by simp
  then show ?thesis by (simp add: decode_event_def Unmarshal_text)
qed

text \<open>A value's text is one line of printable bytes.\<close>

abbreviation printable :: "char \<Rightarrow> bool" where "printable c \<equiv> 0x20 \<le> (of_char c :: nat)"

lemma hex_digit_printable: "n < 16 \<Longrightarrow> printable (hex_digit n)"
  by (simp add: hex_digit_def)

lemma escaped_ascii_printable: "list_all printable (escaped_rune [c])"
proof (cases "c \<in> {quotation, backslash, CHR 0x08, CHR 0x0C, CHR 0x0A, CHR 0x0D, CHR 0x09}")
  case True
  then show ?thesis by (elim insertE emptyE; hypsubst; simp add: escaped_rune_def)
next
  case False
  then have "escaped_rune [c] =
      (if (of_char c :: nat) < 0x20 \<or> c = CHR ''<'' \<or> c = CHR ''>'' \<or> c = CHR ''&''
       then backslash # ''u00'' @ [hex_digit (of_char c div 16), hex_digit (of_char c mod 16)] else [c])"
    by (simp add: escaped_rune_def Let_def)
  then show ?thesis using nibbles [of c] hex_digit_printable by simp
qed

lemma escaped_printable: "list_all printable r \<Longrightarrow> list_all printable (escaped_rune r)"
proof (cases "\<exists>c. r = [c]")
  case False
  assume "list_all printable r"
  then show ?thesis using False by (auto simp: escaped_rune_def split: list.split)
qed (use escaped_ascii_printable in blast)

lemma string_chars_printable: "list_all printable (string_chars s)"
proof (induction s rule: string_chars.induct)
  case (1 s)
  consider "s = []" | "s \<noteq> []" "rune_width s = 0" | c u where "s = c # u" "rune_width s = 1"
    | "s \<noteq> []" "1 < rune_width s"
    by (cases s; cases "rune_width s"; fastforce)
  then show ?case
  proof cases
    case 3
    then show ?thesis using "1.IH"(2) escaped_ascii_printable [of c] by (subst string_chars.simps) simp
  next
    case 4
    let ?r = "take (rune_width s) s"
    have "\<forall>c \<in> set ?r. 0x80 \<le> (of_char c :: nat)" using high_bytes [OF 4(2)] by blast
    then have "list_all printable ?r" by (auto simp: list_all_iff)
    then have "list_all printable (escaped_rune ?r)" by (rule escaped_printable)
    then show ?thesis using 4 "1.IH"(2) by (subst string_chars.simps) simp
  qed (use "1.IH"(1) in \<open>simp_all add: string_chars.simps\<close>)
qed

lemma string_text_printable: "list_all printable (string_text s)"
  using string_chars_printable by (simp add: string_text_def)

lemma Itoa_printable: "list_all printable (Itoa i)"
proof -
  have "list_all printable (digits_of n)" if "0 \<le> n" for n
    using digits_read [OF that] by (auto simp: list_all_iff digit_char_def)
  then show ?thesis by (simp add: Itoa_def)
qed

lemma join_printable: "\<forall>x \<in> set xs. list_all printable x \<Longrightarrow> list_all printable (join_with '','' xs)"
  by (induction "'',''" xs rule: join_with.induct) auto

lemma json_printable: "list_all printable (json_text v)"
proof (induction v)
  case (JObj kvs)
  then have "list_all printable (string_text k @ '':'' @ json_text v)" if "(k, v) \<in> set kvs" for k v
    using that string_text_printable by auto
  then show ?case by (auto intro!: join_printable)
qed (auto simp: Itoa_printable string_text_printable intro!: join_printable)

definition fits_event :: "times \<Rightarrow> event \<Rightarrow> bool" where
  "fits_event tm ev \<longleftrightarrow>
     int64 (ev_JournalID ev) \<and> seen_event ev = cli_event_of ev \<and>
     length (json_text (event_json tm ev)) + 6 < max_scan_token"

lemma fits_framed: "fits_event tm ev \<Longrightarrow> framed (event_payload tm) decode_event ev"
proof -
  assume "fits_event tm ev"
  moreover have "line_end \<notin> set (json_text v)" "CHR 0x0D \<notin> set (json_text v)" for v
    using json_printable [of v] by (auto simp: list_all_iff line_end_def)
  ultimately show ?thesis by (simp add: framed_def event_payload_def fits_event_def event_read del: json_text.simps)
qed

text \<open>
  C27. What the daemon streams is what the command reads, in bytes. Over frames and keep-alives in any
  mixture, written as the daemon writes them and read by the scanner and the JSON decoder of the command,
  the stream is read to its end without an error and the command is handed the run's events, all of
  them, once, in the order they were sent, with every field: for events whose texts are UTF-8 and whose
  JSON, with the prefix of its line, fits the scanner's line.
\<close>

theorem stream_is_read_as_written:
  assumes "list_all (fits_event tm) (frame_events xs)" "int (length xs) < 2 ^ 63"
  shows "snd (scan_lines (unlines (stream_lines (event_payload tm) 0 xs))) = None \<and>
    received decode_event jid (fst (scan_lines (unlines (stream_lines (event_payload tm) 0 xs)))) =
      filter (\<lambda>ev. jid = 0 \<or> ce_JournalID ev = jid) (map cli_event_of (frame_events xs))"
proof -
  have "list_all (framed (event_payload tm) decode_event) (frame_events xs)"
    using assms(1) fits_framed by (simp add: list_all_iff)
  from frames_received [OF this assms(2)] show ?thesis by simp
qed

section \<open>Examples\<close>

definition sample_times :: times where
  "sample_times =
     \<lparr>tm_text = (\<lambda>t. case t of None \<Rightarrow> ''never'' | Some i \<Rightarrow> Itoa i),
      tm_parse = (\<lambda>s. if s = ''never'' then Some None else map_option (\<lambda>p. Some (fst p)) (read_number s))\<rparr>"

lemma sample_keeps_times: "keeps_times sample_times"
proof -
  have ascii: "list_all (\<lambda>c. (of_char c :: nat) < 0x80) (Itoa i)" for i
  proof -
    have "list_all (\<lambda>c. (of_char c :: nat) < 0x80) (digits_of n)" if "0 \<le> n" for n
      using digits_read [OF that] by (auto simp: list_all_iff digit_char_def)
    then show ?thesis by (simp add: Itoa_def)
  qed
  have "Itoa i \<noteq> ''never''" for i
    using Itoa_first [of i] by (auto simp: digit_char_def)
  then show ?thesis
    using ascii read_number_Itoa [of "[]"] by (simp add: keeps_times_def sample_times_def ascii_valid split: option.split)
qed

lemma string_chars_ascii:
  "string_chars [] = []"
  "(of_char c :: nat) < 0x80 \<Longrightarrow> string_chars (c # s) = escaped_rune [c] @ string_chars s"
  by (simp_all add: string_chars.simps [of "[]"] string_chars.simps [of "c # s"] rune_width_def lead_width_def)

definition sample_wire_event :: event where
  "sample_wire_event =
     \<lparr>ev_Service = ''web'', ev_Action = ''deploy'', ev_State = ''healthy'', ev_Detail = ''probe <ok>'',
      ev_JournalID = 7, ev_PRNumber = 12, ev_PRURL = [], ev_MergeURL = [], ev_At = 5\<rparr>"

lemma sample_numbers: "Itoa 5 = ''5''" "Itoa 7 = ''7''" "Itoa 12 = ''12''"
  by code_simp+

lemma sample_event_text: "json_text (event_json sample_times sample_wire_event) =
    ''{'' @ [quotation] @ ''service'' @ [quotation] @ '':'' @ [quotation] @ ''web'' @ [quotation] @
    '','' @ [quotation] @ ''action'' @ [quotation] @ '':'' @ [quotation] @ ''deploy'' @ [quotation] @
    '','' @ [quotation] @ ''state'' @ [quotation] @ '':'' @ [quotation] @ ''healthy'' @ [quotation] @
    '','' @ [quotation] @ ''detail'' @ [quotation] @ '':'' @ [quotation] @ ''probe '' @ [backslash] @
    ''u003cok'' @ [backslash] @ ''u003e'' @ [quotation] @
    '','' @ [quotation] @ ''journalId'' @ [quotation] @ '':7,'' @ [quotation] @ ''prNumber'' @ [quotation] @ '':12,'' @
    [quotation] @ ''at'' @ [quotation] @ '':'' @ [quotation] @ ''5'' @ [quotation] @ ''}''"
  by (simp add: event_json_def sample_wire_event_def sample_times_def unless_empty_def zero_time_def
      string_text_def string_chars_ascii escaped_rune_def hex_digit_def char_of_eq_iff sample_numbers)

lemma sample_fits_event: "fits_event sample_times sample_wire_event"
  unfolding fits_event_def sample_event_text
  by (simp add: sample_wire_event_def int64_def seen_event_def cli_event_of_def ascii_valid max_scan_token_def)

theorem stream_is_read_as_written_witness:
  "received decode_event 7
     (fst (scan_lines (unlines (stream_lines (event_payload sample_times) 0 [KeepAlive, Frame sample_wire_event])))) =
   [cli_event_of sample_wire_event]"
  using stream_is_read_as_written [of sample_times "[KeepAlive, Frame sample_wire_event]" 7] sample_fits_event
  by (simp add: cli_event_of_def sample_wire_event_def)

definition sample_row :: service_status where
  "sample_row =
     \<lparr>ss_Name = ''web'', ss_Repository = ''r.example.com/web'', ss_ManifestDigest = ''d2'', ss_RunningDigest = ''d1'',
      ss_LatestAvailable = [], ss_Drifted = True, ss_LastDeploy = Some (sample_entry ''web'' ''d2''),
      ss_Revisions = Some [(''d2'', \<lparr>rv_SHA = ''c0ffee'', rv_URL = [], rv_Subject = ''a & b''\<rparr>),
        (''d1'', \<lparr>rv_SHA = ''beef'', rv_URL = [], rv_Subject = [CHR 0xFF]\<rparr>)],
      ss_RegistryReachable = True, ss_LatestCheckedAt = Some 5, ss_RepoWebURL = []\<rparr>"

lemma sample_row_fits: "fits_status sample_row" "fits_entry (sample_entry ''web'' ''d2'')"
  by (simp_all add: fits_status_def sample_row_def fits_entry_def sample_entry_def int64_def distinct_keys_def ascii_valid)

lemma sample_digest_fits: "length (digest_text ''sha256:0123'') \<le> 4096"
  by (simp add: digest_text_def string_text_def string_chars_ascii escaped_rune_def)

theorem answers_are_read_as_written_witness:
  "j_services (wire_codec (\<lambda>_. errorf ''invalid'') sample_times) (body_text sample_times (ServicesBody [sample_row])) =
     Inr [seen_status sample_row] \<and>
   read_digest (\<lambda>_. errorf ''invalid'') (digest_text ''sha256:0123'') = (None, ''sha256:0123'')"
proof -
  have "\<forall>s \<in> set [sample_row]. fits_status s" "\<forall>e \<in> set [sample_entry ''web'' ''d2'']. fits_entry e" "int64 7"
    using sample_row_fits by (simp_all add: int64_def)
  note read = answers_are_read_as_written [OF sample_keeps_times this sample_digest_fits,
      of "\<lambda>_. errorf ''invalid''"]
  have "valid_text ''sha256:0123'' = ''sha256:0123''" by (simp add: ascii_valid)
  then show ?thesis using read by simp
qed

end
