(* ===== verification/Host.thy ===== *)
theory Host
  imports Reconcile Provenance
begin

text \<open>
  The edges of the program: commands on the host (\<open>output\<close>, \<open>run\<close> and \<open>userSystemd\<close> of
  \<open>reconcile/systemd.go\<close>), the labels of an image (\<open>fetchConfigLabels\<close> of \<open>revision.go\<close>) and the text of a
  manifest (\<open>Marshal\<close> of \<open>manifest.go\<close>). What is called there is an argument; what the program makes of
  its failures is not.
\<close>

section \<open>Commands\<close>

text \<open>A command ran to a good exit, exited otherwise with something on its standard error, or did not run.\<close>

datatype command_result = Ran string | Exited go_error string | NotRun go_error

type_synonym 'w shell = "string \<Rightarrow> string list \<Rightarrow> 'w \<Rightarrow> command_result \<times> 'w"

definition command_line :: "string \<Rightarrow> string list \<Rightarrow> string" where
  "command_line name args = name @ '' '' @ join_with '' '' args"

definition host_output :: "'w shell \<Rightarrow> string \<Rightarrow> string list \<Rightarrow> 'w \<Rightarrow> string result \<times> 'w" where
  "host_output sh name args w =
     (case sh name args w of
        (Ran out, w') \<Rightarrow> (Inr out, w')
      | (Exited e stderr, w') \<Rightarrow> (Inl (wrap_in (command_line name args @ '': '') e ('': '' @ TrimSpace stderr)), w')
      | (NotRun e, w') \<Rightarrow> (Inl (wrap (command_line name args @ '': '') e), w'))"

definition host_run :: "'w shell \<Rightarrow> string \<Rightarrow> string list \<Rightarrow> 'w \<Rightarrow> go_error option \<times> 'w" where
  "host_run sh name args w =
     (case host_output sh name args w of (Inl e, w') \<Rightarrow> (Some e, w') | (Inr _, w') \<Rightarrow> (None, w'))"

record user_systemd =
  us_unitDir :: string

definition NewUserSystemd :: "string \<Rightarrow> user_systemd" where
  "NewUserSystemd unitDir = \<lparr>us_unitDir = unitDir\<rparr>"

definition ReloadAndRestart :: "'w shell \<Rightarrow> string \<Rightarrow> 'w \<Rightarrow> go_error option \<times> 'w" where
  "ReloadAndRestart sh = host_ReloadAndRestart (host_run sh ''systemctl'')"

text \<open>\<open>podman\<close> answers without changing the host.\<close>

definition podman_inspect :: "'w shell \<Rightarrow> 'w \<Rightarrow> string \<Rightarrow> string result" where
  "podman_inspect sh w name =
     fst (host_output sh ''podman'' [''inspect'', ''--format'', ''{{.ImageDigest}}'', name] w)"

definition RunningImage :: "'w shell \<Rightarrow> 'w \<Rightarrow> string \<Rightarrow> string result" where
  "RunningImage sh w = host_RunningImage (podman_inspect sh w)"

text \<open>
  A service is restarted only after a reload that succeeded, and the error of either names the command
  that failed; nothing else is run.
\<close>

lemma reload_then_restart:
  "ReloadAndRestart sh service w = (None, w') \<longleftrightarrow>
     (\<exists>a b w1. sh ''systemctl'' [''--user'', ''daemon-reload''] w = (Ran a, w1) \<and>
        sh ''systemctl'' [''--user'', ''restart'', service @ ''.service''] w1 = (Ran b, w'))"
  unfolding ReloadAndRestart_def host_ReloadAndRestart_def host_run_def host_output_def
  by (auto split: prod.splits command_result.splits)

lemma restart_error_names_command:
  "fst (ReloadAndRestart sh service w) = Some e \<Longrightarrow> HasPrefix (err_text e) ''systemctl --user ''"
  unfolding ReloadAndRestart_def host_ReloadAndRestart_def host_run_def host_output_def
  by (auto simp: wrap_def wrap_in_def command_line_def HasPrefix_def split: prod.splits command_result.splits)

text \<open>A digest comes from the first of the two container names that \<open>podman\<close> knows.\<close>

lemma running_image_exact:
  "RunningImage sh w service = Inr d \<longleftrightarrow>
     d \<noteq> [] \<and>
     ((\<exists>out. podman_inspect sh w service = Inr out \<and> d = TrimSpace out) \<or>
      (\<nexists>out. podman_inspect sh w service = Inr out \<and> TrimSpace out \<noteq> []) \<and>
      (\<exists>out. podman_inspect sh w (''systemd-'' @ service) = Inr out \<and> d = TrimSpace out))"
  unfolding RunningImage_def by (rule host_lookup_exact)

section \<open>Images and manifests\<close>

text \<open>The registry library: references, images and their configuration; then the labels.\<close>

record ('r, 'i) oci =
  oc_digest :: "string \<Rightarrow> 'r result"
  oc_string :: "'r \<Rightarrow> string"
  oc_image :: "'r \<Rightarrow> 'i result"
  oc_labels :: "'i \<Rightarrow> (string \<rightharpoonup> string) result"

definition fetchConfigLabels :: "('r, 'i) oci \<Rightarrow> string \<Rightarrow> string \<Rightarrow> (string \<rightharpoonup> string) result" where
  "fetchConfigLabels oc repository digest =
     (case oc_digest oc (repository @ ''@'' @ digest) of
        Inl e \<Rightarrow> Inl (wrap (''parse reference '' @ repository @ ''@'' @ digest @ '': '') e)
      | Inr ref \<Rightarrow>
     (case oc_image oc ref of
        Inl e \<Rightarrow> Inl (wrap (''fetch image '' @ oc_string oc ref @ '': '') e)
      | Inr img \<Rightarrow>
     (case oc_labels oc img of
        Inl e \<Rightarrow> Inl (wrap (''read image config of '' @ oc_string oc ref @ '': '') e)
      | Inr labels \<Rightarrow> Inr labels)))"

text \<open>\<open>NewOCI\<close>: the lookup the cache fills from, with the web address of the GitHub API.\<close>

definition oci_resolve ::
    "('r, 'i) oci \<Rightarrow> (string \<Rightarrow> (string \<times> string) option) \<Rightarrow> (string \<Rightarrow> (nat \<times> string result) option) \<Rightarrow>
     string \<Rightarrow> string \<Rightarrow> revision option" where
  "oci_resolve oc parse github repository digest =
     resolve parse github ''https://api.github.com'' (fetchConfigLabels oc repository digest)"

lemma resolved_is_labelled:
  assumes "oci_resolve oc parse github repository digest = Some r"
  shows "\<exists>ref img labels. oc_digest oc (repository @ ''@'' @ digest) = Inr ref \<and> oc_image oc ref = Inr img \<and>
    oc_labels oc img = Inr labels \<and> labels revisionLabel = Some (rv_SHA r) \<and> rv_SHA r \<noteq> []"
  using assms
  by (auto simp: oci_resolve_def resolve_def fetchConfigLabels_def Let_def split: sum.splits option.splits if_splits)

text \<open>The YAML encoder writes and is closed; \<open>Marshal\<close> is what is in the buffer then.\<close>

definition Marshal :: "(manifest \<Rightarrow> string result) \<Rightarrow> (string \<Rightarrow> string result) \<Rightarrow> manifest \<Rightarrow> string result" where
  "Marshal encode close m =
     (case encode m of
        Inl e \<Rightarrow> Inl (wrap ''encode manifest: '' e)
      | Inr buf \<Rightarrow> (case close buf of Inl e \<Rightarrow> Inl (wrap ''encode manifest: '' e) | Inr text \<Rightarrow> Inr text))"

end
