(* ===== verification/Streaming.thy ===== *)
theory Streaming
  imports Cli
begin

text \<open>
  One connection to \<open>/api/v1/events\<close> from its request to its end: \<open>handleEvents\<close> of \<open>api/sse.go\<close>, turn by
  turn, against a broker that others subscribe to, publish to and read from in between.
\<close>

section \<open>The handler\<close>

text \<open>
  Where the handler is: subscribed and about to read the snapshot; with snapshot frames still to
  write; in its loop; returned.
\<close>

datatype stage = Opened | Owing "event list" | Live | Ended

record connection =
  cn_id :: int
  cn_stage :: stage
  cn_snapshot :: "event list"
  cn_seq :: int
  cn_lines :: "string list"

definition event_stream_headers :: "(string \<times> string) list" where
  "event_stream_headers =
     [(''Content-Type'', ''text/event-stream''), (''Cache-Control'', ''no-cache''),
      (''Connection'', ''keep-alive''), (''X-Accel-Buffering'', ''no'')]"

text \<open>
  The beginning of \<open>handleEvents\<close>. \<open>flushes\<close> says whether the writer is an \<open>http.Flusher\<close>; without one the
  answer is an error, otherwise the status and headers go out and the connection is subscribed.
\<close>

definition open_events ::
    "bool \<Rightarrow> broker \<Rightarrow> (nat \<times> string) + (nat \<times> (string \<times> string) list) \<times> connection \<times> broker" where
  "open_events flushes b =
     (if \<not> flushes then Inl (500, ''streaming unsupported'')
      else case subscribe b of
        (i, b') \<Rightarrow> Inr ((200, event_stream_headers),
          \<lparr>cn_id = i, cn_stage = Opened, cn_snapshot = [], cn_seq = 0, cn_lines = []\<rparr>, b'))"

text \<open>
  \<open>writeFrame\<close>, where \<open>ok\<close> says whether the write goes through. An event without JSON is skipped. What
  a write that fails has put on the wire is not part of the connection's lines: the stream ends there.
\<close>

definition writeFrame :: "(event \<Rightarrow> string option) \<Rightarrow> bool \<Rightarrow> event \<Rightarrow> connection \<Rightarrow> bool \<times> connection" where
  "writeFrame marshal ok ev c =
     (case marshal ev of
        None \<Rightarrow> (True, c)
      | Some payload \<Rightarrow>
          (let c = c\<lparr>cn_seq := cn_seq c + 1\<rparr> in
           if \<not> ok then (False, c)
           else (True, c\<lparr>cn_lines := cn_lines c @ frame_lines (ev_JournalID ev) (cn_seq c) payload\<rparr>)))"

text \<open>The broker with the history of its streams.\<close>

type_synonym stream_world = "broker \<times> stream_history"

text \<open>Every return runs the deferred \<open>unsubscribe\<close>.\<close>

definition hang_up :: "connection \<Rightarrow> stream_world \<Rightarrow> connection \<times> stream_world" where
  "hang_up c bh = (c\<lparr>cn_stage := Ended\<rparr>, broker_step (Unsubscribe (cn_id c)) bh)"

text \<open>
  A turn of the handler: it reads the snapshot, it writes the next frame it owes, and in its loop one
  of the three cases of the \<open>select\<close> is taken. The channel is closed by the handler's own \<open>unsubscribe\<close>
  only, after the loop, so the loop never sees it closed.
\<close>

datatype turn =
    Snapshot "string list result" "string \<Rightarrow> entry list result"
  | NextOwed bool
  | Cancelled
  | Ticked bool
  | Arrived bool

definition live_step ::
    "(event \<Rightarrow> string option) \<Rightarrow> turn \<Rightarrow> connection \<Rightarrow> stream_world \<Rightarrow> connection \<times> stream_world" where
  "live_step marshal t c bh =
     (case t of
        Cancelled \<Rightarrow> hang_up c bh
      | Ticked ok \<Rightarrow>
          if \<not> ok then hang_up c bh else (c\<lparr>cn_lines := cn_lines c @ keep_alive_lines\<rparr>, bh)
      | Arrived ok \<Rightarrow>
          (case fst (receive (cn_id c) (fst bh)) of
             None \<Rightarrow> (c, bh)
           | Some ev \<Rightarrow>
               (case writeFrame marshal ok ev c of
                  (True, c') \<Rightarrow> (c', broker_step (Receive (cn_id c)) bh)
                | (False, c') \<Rightarrow> hang_up c' (broker_step (Receive (cn_id c)) bh)))
      | _ \<Rightarrow> (c, bh))"

definition handler_turn ::
    "string \<Rightarrow> (event \<Rightarrow> string option) \<Rightarrow> turn \<Rightarrow> connection \<Rightarrow> stream_world \<Rightarrow> connection \<times> stream_world" where
  "handler_turn web marshal t c bh =
     (case cn_stage c of
        Opened \<Rightarrow>
          (case t of
             Snapshot services recent \<Rightarrow>
               (let es = snapshotEvents web services recent in
                (c\<lparr>cn_stage := Owing es, cn_snapshot := es\<rparr>, bh))
           | _ \<Rightarrow> (c, bh))
      | Owing [] \<Rightarrow> (case t of NextOwed _ \<Rightarrow> (c\<lparr>cn_stage := Live\<rparr>, bh) | _ \<Rightarrow> (c, bh))
      | Owing (ev # es) \<Rightarrow>
          (case t of
             NextOwed ok \<Rightarrow>
               (case writeFrame marshal ok ev c of
                  (True, c') \<Rightarrow> (c'\<lparr>cn_stage := Owing es\<rparr>, bh)
                | (False, c') \<Rightarrow> hang_up c' bh)
           | _ \<Rightarrow> (c, bh))
      | Live \<Rightarrow> live_step marshal t c bh
      | Ended \<Rightarrow> (c, bh))"

text \<open>
  Turns of the handler and operations of others, in any order. Nobody else holds the connection's
  channel or its \<open>unsubscribe\<close>.
\<close>

datatype move = Own turn | Others broker_op

definition touches :: "int \<Rightarrow> broker_op \<Rightarrow> bool" where
  "touches i op \<longleftrightarrow> op = Unsubscribe i \<or> op = Receive i"

fun connection_step ::
    "string \<Rightarrow> (event \<Rightarrow> string option) \<Rightarrow> move \<Rightarrow> connection \<times> stream_world \<Rightarrow> connection \<times> stream_world" where
  "connection_step web marshal (Own t) (c, bh) = handler_turn web marshal t c bh"
| "connection_step web marshal (Others op) (c, bh) =
     (if touches (cn_id c) op then (c, bh) else (c, broker_step op bh))"

definition connection_run ::
    "string \<Rightarrow> (event \<Rightarrow> string option) \<Rightarrow> move list \<Rightarrow> connection \<times> stream_world \<Rightarrow> connection \<times> stream_world" where
  "connection_run web marshal ms = fold (connection_step web marshal) ms"

text \<open>What is published while the connection is there.\<close>

definition published :: "move list \<Rightarrow> event list" where
  "published = List.map_filter (\<lambda>m. case m of Others (Publish ev) \<Rightarrow> Some ev | _ \<Rightarrow> None)"

section \<open>What is on the wire\<close>

text \<open>How many of the frames had JSON, which is what the sequence number counts.\<close>

definition numbered :: "(event \<Rightarrow> string option) \<Rightarrow> stream_input list \<Rightarrow> int" where
  "numbered marshal xs = int (length (filter (\<lambda>ev. marshal ev \<noteq> None) (frame_events xs)))"

lemma frame_events_append [simp]: "frame_events (xs @ ys) = frame_events xs @ frame_events ys"
  by (induction xs rule: frame_events.induct) simp_all

lemma stream_lines_append:
  "stream_lines marshal seq (xs @ ys) =
     stream_lines marshal seq xs @ stream_lines marshal (seq + numbered marshal xs) ys"
  by (induction xs arbitrary: seq rule: frame_events.induct)
     (auto simp: numbered_def algebra_simps split: option.split)

text \<open>The connection has written exactly these inputs; its next frame gets the next number.\<close>

definition wrote :: "(event \<Rightarrow> string option) \<Rightarrow> stream_input list \<Rightarrow> connection \<Rightarrow> bool" where
  "wrote marshal xs c \<longleftrightarrow> cn_lines c = stream_lines marshal 0 xs \<and> cn_seq c = numbered marshal xs"

lemma wrote_KeepAlive:
  "wrote marshal xs c \<Longrightarrow> wrote marshal (xs @ [KeepAlive]) (c\<lparr>cn_lines := cn_lines c @ keep_alive_lines\<rparr>)"
  by (simp add: wrote_def stream_lines_append numbered_def)

lemma writeFrame_cases:
  obtains "writeFrame marshal ok ev c = (False, c\<lparr>cn_seq := cn_seq c + 1\<rparr>)"
  | c' where "writeFrame marshal ok ev c = (True, c')" "cn_id c' = cn_id c" "cn_snapshot c' = cn_snapshot c"
      "cn_stage c' = cn_stage c" "\<And>xs. wrote marshal xs c \<Longrightarrow> wrote marshal (xs @ [Frame ev]) c'"
proof (cases "marshal ev")
  case None
  then show ?thesis
    by (intro that(2) [of c]) (simp_all add: writeFrame_def wrote_def stream_lines_append numbered_def)
next
  case (Some payload)
  show ?thesis
  proof (cases ok)
    case True
    with Some show ?thesis
      by (intro that(2) [of "c\<lparr>cn_seq := cn_seq c + 1,
            cn_lines := cn_lines c @ frame_lines (ev_JournalID ev) (cn_seq c + 1) payload\<rparr>"])
         (simp_all add: writeFrame_def wrote_def stream_lines_append numbered_def Let_def)
  next
    case False
    with Some show ?thesis by (intro that(1)) (simp add: writeFrame_def Let_def)
  qed
qed

text \<open>
  The invariant: an open connection is subscribed, everything published since is in its history, and
  what it has written is the snapshot as far as it got, then what it took from its channel. One that
  has ended is subscribed no more.
\<close>

definition subscribed :: "int \<Rightarrow> stream_world \<Rightarrow> bool" where
  "subscribed i bh \<longleftrightarrow> i \<in> fst ` set (br_subs (fst bh))"

definition progress :: "connection \<Rightarrow> event list \<Rightarrow> event list \<Rightarrow> bool" where
  "progress c es taken \<longleftrightarrow>
     (case cn_stage c of
        Opened \<Rightarrow> es = [] \<and> taken = []
      | Owing owed \<Rightarrow> es @ owed = cn_snapshot c \<and> taken = []
      | Live \<Rightarrow> es = cn_snapshot c @ taken
      | Ended \<Rightarrow> prefix es (cn_snapshot c @ taken))"

definition connection_ok ::
    "(event \<Rightarrow> string option) \<Rightarrow> event list \<Rightarrow> connection \<times> stream_world \<Rightarrow> bool" where
  "connection_ok marshal pub s \<longleftrightarrow>
     (case s of (c, bh) \<Rightarrow>
        broker_ok bh \<and> cn_id c \<le> br_next (fst bh) \<and>
        (subscribed (cn_id c) bh \<longleftrightarrow> cn_stage c \<noteq> Ended) \<and>
        (if cn_stage c = Ended then subseq (sh_taken (snd bh) (cn_id c)) pub
         else sh_offered (snd bh) (cn_id c) = pub) \<and>
        (\<exists>xs. cn_lines c = stream_lines marshal 0 xs \<and>
           (cn_stage c \<noteq> Ended \<longrightarrow> cn_seq c = numbered marshal xs) \<and>
           progress c (frame_events xs) (sh_taken (snd bh) (cn_id c))))"

lemma broker_step_ok: "broker_ok bh \<Longrightarrow> broker_ok (broker_step op bh)"
  using subscribe_ok unsubscribe_ok publish_ok receive_ok
  by (cases bh; cases op) (auto simp del: broker_step.simps(3,4))

lemma keys_map: "fst ` set (map (\<lambda>(k, t). (k, f k t)) xs) = fst ` set xs"
  by (force simp: image_image split_beta)

lemma receive_keeps:
  "fst ` set (br_subs (snd (receive i b))) = fst ` set (br_subs b)" "br_next (snd (receive i b)) = br_next b"
proof -
  have "\<exists>g. snd (receive i b) = b\<lparr>br_subs := map (\<lambda>(k, t). (k, g k t)) (br_subs b)\<rparr>"
  proof (rule receive_cases [of i b])
    assume "receive i b = (None, b)"
    then show ?thesis by (intro exI [of _ "\<lambda>_ t. t"]) simp
  next
    fix s ev rest
    assume "receive i b = (Some ev,
        b\<lparr>br_subs := map (\<lambda>(j, t). (j, if j = i then s\<lparr>sb_queue := rest\<rparr> else t)) (br_subs b)\<rparr>)"
    then show ?thesis by (intro exI [of _ "\<lambda>j t. if j = i then s\<lparr>sb_queue := rest\<rparr> else t"]) simp
  qed
  then obtain g where g: "snd (receive i b) = b\<lparr>br_subs := map (\<lambda>(k, t). (k, g k t)) (br_subs b)\<rparr>" by blast
  show "fst ` set (br_subs (snd (receive i b))) = fst ` set (br_subs b)" "br_next (snd (receive i b)) = br_next b"
    unfolding g using keys_map [of g "br_subs b"] by simp_all
qed

lemma Receive_effect:
  "subscribed i (broker_step (Receive j) bh) = subscribed i bh"
  "br_next (fst (broker_step (Receive j) bh)) = br_next (fst bh)"
  "sh_offered (snd (broker_step (Receive j) bh)) = sh_offered (snd bh)"
  "fst (receive j (fst bh)) = Some ev \<Longrightarrow>
     sh_taken (snd (broker_step (Receive j) bh)) = (sh_taken (snd bh))(j := sh_taken (snd bh) j @ [ev])"
  "i \<noteq> j \<Longrightarrow> sh_taken (snd (broker_step (Receive j) bh)) i = sh_taken (snd bh) i"
  using receive_keeps [of j "fst bh"]
  by (cases bh; simp add: subscribed_def split_beta split: option.split)+

lemma Publish_effect:
  "subscribed i (broker_step (Publish ev) bh) = subscribed i bh"
  "br_next (fst (broker_step (Publish ev) bh)) = br_next (fst bh)"
  "sh_taken (snd (broker_step (Publish ev) bh)) = sh_taken (snd bh)"
  "subscribed i bh \<Longrightarrow> sh_offered (snd (broker_step (Publish ev) bh)) i = sh_offered (snd bh) i @ [ev]"
  using keys_map [of "\<lambda>_. offer ev" "br_subs (fst bh)"]
  by (cases bh; simp add: subscribed_def publish_def)+

lemma Subscribe_effect:
  "i \<le> br_next (fst bh) \<Longrightarrow> subscribed i (broker_step Subscribe bh) = subscribed i bh"
  "br_next (fst (broker_step Subscribe bh)) = br_next (fst bh) + 1"
  "snd (broker_step Subscribe bh) = snd bh"
  by (cases bh; auto simp: subscribed_def subscribe_def Let_def)+

lemma Unsubscribe_effect:
  "subscribed i (broker_step (Unsubscribe j) bh) \<longleftrightarrow> subscribed i bh \<and> i \<noteq> j"
  "br_next (fst (broker_step (Unsubscribe j) bh)) = br_next (fst bh)"
  "snd (broker_step (Unsubscribe j) bh) = snd bh"
  by (cases bh; force simp: subscribed_def unsubscribe_def)+

lemmas broker_effects = Receive_effect(1-3,5) Publish_effect Subscribe_effect Unsubscribe_effect

lemma published_simps:
  "published [] = []" "published (ms @ ms') = published ms @ published ms'" "published [Own t] = []"
  "published [Others Subscribe] = []" "published [Others (Unsubscribe i)] = []"
  "published [Others (Publish ev)] = [ev]" "published [Others (Receive i)] = []"
  by (simp_all add: published_def List.map_filter_def)

text \<open>Others never touch what belongs to the connection; they only publish to it.\<close>

lemma others_keep:
  assumes "\<not> touches i op" "i \<le> br_next (fst bh)"
  shows "subscribed i (broker_step op bh) = subscribed i bh"
    and "i \<le> br_next (fst (broker_step op bh))"
    and "sh_taken (snd (broker_step op bh)) i = sh_taken (snd bh) i"
    and "subscribed i bh \<Longrightarrow> sh_offered (snd (broker_step op bh)) i =
      sh_offered (snd bh) i @ published [Others op]"
  using assms
  by (cases op; simp add: touches_def broker_effects published_simps del: broker_step.simps)+

lemma connection_okI:
  assumes "broker_ok bh" "cn_id c \<le> br_next (fst bh)" "subscribed (cn_id c) bh \<longleftrightarrow> cn_stage c \<noteq> Ended"
    and "cn_stage c \<noteq> Ended \<Longrightarrow> sh_offered (snd bh) (cn_id c) = pub"
    and "cn_stage c = Ended \<Longrightarrow> subseq (sh_taken (snd bh) (cn_id c)) pub"
    and "cn_lines c = stream_lines marshal 0 xs" "cn_stage c \<noteq> Ended \<Longrightarrow> cn_seq c = numbered marshal xs"
    and "progress c (frame_events xs) (sh_taken (snd bh) (cn_id c))"
  shows "connection_ok marshal pub (c, bh)"
  unfolding connection_ok_def prod.case using assms by (cases "cn_stage c = Ended") auto

lemma connection_okD:
  assumes "connection_ok marshal pub (c, bh)"
  shows "broker_ok bh" "cn_id c \<le> br_next (fst bh)" "subscribed (cn_id c) bh \<longleftrightarrow> cn_stage c \<noteq> Ended"
    and "cn_stage c \<noteq> Ended \<Longrightarrow> sh_offered (snd bh) (cn_id c) = pub"
    and "cn_stage c = Ended \<Longrightarrow> subseq (sh_taken (snd bh) (cn_id c)) pub"
  using assms by (auto simp: connection_ok_def)

lemma connection_at:
  assumes "connection_ok marshal pub (c, bh)" "cn_stage c = st" "st \<noteq> Ended"
  shows "\<exists>xs. wrote marshal xs c \<and> (case st of
      Opened \<Rightarrow> frame_events xs = [] \<and> sh_taken (snd bh) (cn_id c) = []
    | Owing owed \<Rightarrow> cn_snapshot c = frame_events xs @ owed \<and> sh_taken (snd bh) (cn_id c) = []
    | Live \<Rightarrow> frame_events xs = cn_snapshot c @ sh_taken (snd bh) (cn_id c)
    | Ended \<Rightarrow> False)"
  using assms by (cases st) (auto simp: connection_ok_def wrote_def progress_def)

lemma taken_published:
  assumes "broker_ok bh" "subscribed i bh"
  shows "subseq (sh_taken (snd bh) i) (sh_offered (snd bh) i)"
proof -
  obtain q where "subseq (sh_taken (snd bh) i @ q) (sh_offered (snd bh) i)"
    using assms by (cases bh) (force simp: broker_ok_def subscribed_def stream_ok_def)
  then show ?thesis by (rule subseq_order.trans [OF list_emb_prefix [OF subseq_order.refl]])
qed

lemma hang_up_ok:
  assumes "broker_ok bh" "cn_id c \<le> br_next (fst bh)"
    and "subscribed (cn_id c) bh" "sh_offered (snd bh) (cn_id c) = pub"
    and "cn_lines c = stream_lines marshal 0 xs"
    and "prefix (frame_events xs) (cn_snapshot c @ sh_taken (snd bh) (cn_id c))"
  shows "connection_ok marshal pub (hang_up c bh)"
  unfolding hang_up_def
  by (rule connection_okI [where xs = xs])
     (use assms broker_step_ok [OF assms(1)] taken_published [OF assms(1,3)] in
        \<open>simp_all add: broker_effects progress_def del: broker_step.simps\<close>)

lemma live_step_ok:
  assumes ok: "connection_ok marshal pub (c, bh)" and live: "cn_stage c = Live"
  shows "connection_ok marshal pub (live_step marshal t c bh)"
proof -
  note inv = connection_okD [OF ok]
  obtain xs where xs: "wrote marshal xs c" "frame_events xs = cn_snapshot c @ sh_taken (snd bh) (cn_id c)"
    using connection_at [OF ok live] by auto
  have hung: "connection_ok marshal pub (hang_up c bh)"
    by (rule hang_up_ok [where xs = xs]) (use xs inv live in \<open>simp_all add: wrote_def prefix_def\<close>)
  show ?thesis
  proof (cases t)
    case (Ticked b)
    have "connection_ok marshal pub (c\<lparr>cn_lines := cn_lines c @ keep_alive_lines\<rparr>, bh)"
      using wrote_KeepAlive [OF xs(1)] xs(2) inv live
      by (intro connection_okI [where xs = "xs @ [KeepAlive]"]) (simp_all add: wrote_def progress_def)
    with hung show ?thesis by (simp add: live_step_def Ticked)
  next
    case (Arrived b)
    show ?thesis
    proof (cases "fst (receive (cn_id c) (fst bh))")
      case None
      then show ?thesis using ok by (simp add: live_step_def Arrived)
    next
      case (Some ev)
      let ?bh = "broker_step (Receive (cn_id c)) bh"
      have taken: "sh_taken (snd ?bh) (cn_id c) = sh_taken (snd bh) (cn_id c) @ [ev]"
        by (simp add: Receive_effect(4) [OF Some] del: broker_step.simps)
      note eff = broker_step_ok [OF inv(1)] broker_effects taken
      show ?thesis
      proof (rule writeFrame_cases [of marshal b ev c])
        assume "writeFrame marshal b ev c = (False, c\<lparr>cn_seq := cn_seq c + 1\<rparr>)"
        moreover have "connection_ok marshal pub (hang_up (c\<lparr>cn_seq := cn_seq c + 1\<rparr>) ?bh)"
          by (rule hang_up_ok [where xs = xs])
             (use xs inv eff live in \<open>simp_all add: wrote_def prefix_def del: broker_step.simps\<close>)
        ultimately show ?thesis by (simp add: live_step_def Arrived Some del: broker_step.simps)
      next
        fix c'
        assume w: "writeFrame marshal b ev c = (True, c')" and c': "cn_id c' = cn_id c"
          "cn_snapshot c' = cn_snapshot c" "cn_stage c' = cn_stage c"
          "\<And>xs. wrote marshal xs c \<Longrightarrow> wrote marshal (xs @ [Frame ev]) c'"
        have "connection_ok marshal pub (c', ?bh)"
          by (rule connection_okI [where xs = "xs @ [Frame ev]"])
             (use c'(4) [OF xs(1)] xs(2) inv eff live in
                \<open>simp_all add: wrote_def progress_def c' del: broker_step.simps\<close>)
        with w show ?thesis by (simp add: live_step_def Arrived Some del: broker_step.simps)
      qed
    qed
  qed (use ok hung in \<open>simp_all add: live_step_def\<close>)
qed

lemma owing_step_ok:
  assumes ok: "connection_ok marshal pub (c, bh)" and owing: "cn_stage c = Owing (ev # rest)"
  shows "connection_ok marshal pub (handler_turn web marshal t c bh)"
proof (cases t)
  case (NextOwed b)
  note inv = connection_okD [OF ok]
  obtain xs where xs: "wrote marshal xs c" "cn_snapshot c = frame_events xs @ ev # rest"
      "sh_taken (snd bh) (cn_id c) = []"
    using connection_at [OF ok owing] by auto
  have hung: "connection_ok marshal pub (hang_up (c\<lparr>cn_seq := cn_seq c + 1\<rparr>) bh)"
    by (rule hang_up_ok [where xs = xs]) (use inv xs owing in \<open>simp_all add: wrote_def prefix_def\<close>)
  have next_frame: "connection_ok marshal pub (c'\<lparr>cn_stage := Owing rest\<rparr>, bh)"
    if "wrote marshal (xs @ [Frame ev]) c'" "cn_id c' = cn_id c" "cn_snapshot c' = cn_snapshot c" for c'
    by (rule connection_okI [where xs = "xs @ [Frame ev]"])
       (use inv xs owing that in \<open>simp_all add: wrote_def progress_def\<close>)
  show ?thesis
    by (rule writeFrame_cases [of marshal b ev c])
       (use hung next_frame xs(1) in \<open>simp_all add: handler_turn_def owing NextOwed\<close>)
qed (use ok owing in \<open>simp_all add: handler_turn_def\<close>)

lemma caught_up_ok:
  assumes ok: "connection_ok marshal pub (c, bh)" and owing: "cn_stage c = Owing []"
  shows "connection_ok marshal pub (handler_turn web marshal t c bh)"
proof -
  obtain xs where "wrote marshal xs c" "cn_snapshot c = frame_events xs" "sh_taken (snd bh) (cn_id c) = []"
    using connection_at [OF ok owing] by auto
  then have "connection_ok marshal pub (c\<lparr>cn_stage := Live\<rparr>, bh)"
    by (intro connection_okI [where xs = xs])
       (use connection_okD [OF ok] owing in \<open>simp_all add: wrote_def progress_def\<close>)
  with ok show ?thesis by (cases t) (simp_all add: handler_turn_def owing)
qed

lemma opened_step_ok:
  assumes ok: "connection_ok marshal pub (c, bh)" and opened: "cn_stage c = Opened"
  shows "connection_ok marshal pub (handler_turn web marshal t c bh)"
proof -
  obtain xs where "wrote marshal xs c" "frame_events xs = []" "sh_taken (snd bh) (cn_id c) = []"
    using connection_at [OF ok opened] by auto
  then have "connection_ok marshal pub (c\<lparr>cn_stage := Owing es, cn_snapshot := es\<rparr>, bh)" for es
    by (intro connection_okI [where xs = xs])
       (use connection_okD [OF ok] opened in \<open>simp_all add: wrote_def progress_def\<close>)
  with ok show ?thesis by (cases t) (simp_all add: handler_turn_def opened Let_def)
qed

lemma handler_turn_ok:
  assumes ok: "connection_ok marshal pub (c, bh)"
  shows "connection_ok marshal pub (handler_turn web marshal t c bh)"
proof (cases "cn_stage c")
  case Opened
  then show ?thesis by (rule opened_step_ok [OF ok])
next
  case (Owing owed)
  then show ?thesis using owing_step_ok [OF ok] caught_up_ok [OF ok] by (cases owed) simp_all
next
  case Live
  then show ?thesis using live_step_ok [OF ok] by (simp add: handler_turn_def)
next
  case Ended
  then show ?thesis using ok by (simp add: handler_turn_def)
qed

lemma others_ok:
  assumes ok: "connection_ok marshal pub (c, bh)" and "\<not> touches (cn_id c) op"
  shows "connection_ok marshal (pub @ published [Others op]) (c, broker_step op bh)"
proof -
  note inv = connection_okD [OF ok]
  note keep = others_keep [OF assms(2) inv(2)]
  obtain xs where "cn_lines c = stream_lines marshal 0 xs"
      "cn_stage c \<noteq> Ended \<longrightarrow> cn_seq c = numbered marshal xs"
      "progress c (frame_events xs) (sh_taken (snd bh) (cn_id c))"
    using ok by (auto simp: connection_ok_def)
  then show ?thesis
    by (intro connection_okI [where xs = xs] broker_step_ok) (simp_all add: inv keep list_emb_prefix)
qed

lemma connection_step_ok:
  assumes "connection_ok marshal pub s"
  shows "connection_ok marshal (pub @ published [m]) (connection_step web marshal m s)"
proof -
  obtain c bh where s: "s = (c, bh)" by (cases s)
  show ?thesis
  proof (cases m)
    case (Own t)
    then show ?thesis using handler_turn_ok assms by (simp add: s published_simps)
  next
    case (Others op)
    have "published [Others op] = []" if "touches (cn_id c) op"
      using that by (auto simp: touches_def published_simps)
    then show ?thesis using others_ok assms by (cases "touches (cn_id c) op") (auto simp: s Others)
  qed
qed

lemma connection_run_ok:
  "connection_ok marshal pub s \<Longrightarrow>
     connection_ok marshal (pub @ published ms) (connection_run web marshal ms s)"
proof (induction ms arbitrary: pub s)
  case (Cons m ms)
  have "connection_ok marshal ((pub @ published [m]) @ published ms)
      (connection_run web marshal ms (connection_step web marshal m s))"
    by (rule Cons.IH [OF connection_step_ok [OF Cons.prems]])
  then show ?case using published_simps(2) [of "[m]" ms] by (simp add: connection_run_def)
qed (simp add: connection_run_def published_simps)

lemma open_events_ok:
  assumes "open_events flushes (fst bh) = Inr (head, c, b')" "broker_ok bh"
  shows "connection_ok marshal [] (c, (b', snd bh))"
proof -
  obtain b h where bh: "bh = (b, h)" by fastforce
  have c: "c = \<lparr>cn_id = br_next b + 1, cn_stage = Opened, cn_snapshot = [], cn_seq = 0, cn_lines = []\<rparr>"
    and b': "b' = snd (subscribe b)"
    using assms(1) by (auto simp: bh open_events_def subscribe_def Let_def split: if_splits)
  have "sh_offered h (br_next b + 1) = []" "sh_taken h (br_next b + 1) = []"
    using assms(2) by (auto simp: bh broker_ok_def)
  moreover have "br_next b' = br_next b + 1" "subscribed (br_next b + 1) (b', h)"
    by (simp_all add: b' subscribe_def subscribed_def Let_def)
  ultimately show ?thesis
    using subscribe_ok [of b h] assms(2)
    by (intro connection_okI [where xs = "[]"])
       (simp_all add: c b' bh progress_def numbered_def)
qed

text \<open>
  C37. What a client of the event stream gets. However the turns of its handler and the doings of
  everyone else interleave, the lines written are those of some frames and keep-alives, in which the
  frames are the snapshot and then, in order, what the handler took from its channel (the snapshot as
  far as it got, before the loop; a beginning of all this when a write failed). What was taken and
  what still waits, at most 64 events, is a subsequence of all that was published since the
  connection subscribed, which is before the snapshot was read; it is all of it unless the stream was
  warned about, and then the drop counter shows a loss. A connection that has ended is subscribed no more.
\<close>

theorem stream_carries_all_or_warns:
  assumes "open_events True (fst (after_ops ops)) = Inr (head, c0, b0)"
    and "connection_run web marshal ms (c0, (b0, snd (after_ops ops))) = (c, (b, h))"
  shows "\<exists>xs taken. cn_lines c = stream_lines marshal 0 xs \<and> progress c (frame_events xs) taken \<and>
    subseq taken (published ms) \<and>
    (if cn_stage c = Ended then cn_id c \<notin> fst ` set (br_subs b)
     else \<exists>s. (cn_id c, s) \<in> set (br_subs b) \<and> length (sb_queue s) \<le> subscriberBuffer \<and>
       subseq (taken @ sb_queue s) (published ms) \<and>
       (taken @ sb_queue s = published ms \<or> sb_warned s \<and> 0 < br_dropped b))"
proof -
  have ok: "connection_ok marshal (published ms) (c, (b, h))"
    using connection_run_ok [OF open_events_ok [OF assms(1) ops_ok], of marshal ms web] assms(2) by simp
  obtain xs where xs: "cn_lines c = stream_lines marshal 0 xs"
      "progress c (frame_events xs) (sh_taken h (cn_id c))"
    using ok by (auto simp: connection_ok_def)
  note inv = connection_okD [OF ok, simplified]
  show ?thesis
  proof (cases "cn_stage c = Ended")
    case True
    with inv xs show ?thesis by (auto simp: subscribed_def)
  next
    case False
    with inv(3) obtain s where s: "(cn_id c, s) \<in> set (br_subs b)" by (auto simp: subscribed_def)
    have "stream_ok h (cn_id c) s" "sb_warned s \<longrightarrow> 0 < br_dropped b"
      using broker_okD(3) [OF inv(1) s] by auto
    moreover have "subseq (sh_taken h (cn_id c)) (published ms)"
      using taken_published [of "(b, h)" "cn_id c"] inv False by simp
    ultimately show ?thesis
      using xs s inv(4) False by (intro exI [of _ xs] exI [of _ "sh_taken h (cn_id c)"]) (auto simp: stream_ok_def)
  qed
qed

text \<open>
  A service is mid-deploy when the stream opens: the snapshot frame, a keep-alive, and then the event
  published before the snapshot was read.
\<close>

definition sample_moves :: "move list" where
  "sample_moves =
     [Others (Publish sample_event), Own (Snapshot (Inr [''web'']) (\<lambda>_. Inr [sample_entry ''web'' ''d2''])),
      Own (NextOwed True), Own (NextOwed True), Own (Ticked True), Own (Arrived True)]"

definition sample_live :: "event \<Rightarrow> string option" where
  "sample_live ev = Some (ev_State ev)"

definition sample_connection :: "connection \<times> stream_world" where
  "sample_connection = connection_run [] sample_live sample_moves
     (\<lparr>cn_id = 1, cn_stage = Opened, cn_snapshot = [], cn_seq = 0, cn_lines = []\<rparr>,
      (snd (subscribe newBroker), snd (after_ops [])))"

lemma sample_lines:
  "cn_stage (fst sample_connection) = Live"
  "cn_lines (fst sample_connection) =
     [''id: 0-1'', ''event: state'', ''data: detected'', [], '': keep-alive'', [],
      ''id: 7-2'', ''event: state'', ''data: detected'', []]"
  by code_simp+

theorem stream_carries_all_or_warns_witness:
  "\<exists>xs taken. cn_lines (fst sample_connection) = stream_lines sample_live 0 xs \<and>
     frame_events xs = cn_snapshot (fst sample_connection) @ taken \<and> subseq taken [sample_event]"
proof -
  have "open_events True (fst (after_ops [])) =
      Inr ((200, event_stream_headers),
        \<lparr>cn_id = 1, cn_stage = Opened, cn_snapshot = [], cn_seq = 0, cn_lines = []\<rparr>,
        snd (subscribe newBroker))"
    by (simp add: after_ops_def open_events_def subscribe_def newBroker_def Let_def)
  moreover have "connection_run [] sample_live sample_moves
      (\<lparr>cn_id = 1, cn_stage = Opened, cn_snapshot = [], cn_seq = 0, cn_lines = []\<rparr>,
        (snd (subscribe newBroker), snd (after_ops []))) =
      (fst sample_connection, (fst (snd sample_connection), snd (snd sample_connection)))"
    by (simp add: sample_connection_def)
  ultimately have "\<exists>xs taken. cn_lines (fst sample_connection) = stream_lines sample_live 0 xs \<and>
      progress (fst sample_connection) (frame_events xs) taken \<and> subseq taken (published sample_moves)"
    using stream_carries_all_or_warns [of "[]" _ _ _ "[]" sample_live sample_moves] by blast
  moreover have "published sample_moves = [sample_event]"
    by (simp add: sample_moves_def published_def List.map_filter_simps)
  ultimately show ?thesis by (simp add: progress_def sample_lines(1))
qed

end
