(* ===== verification/Spec2Isabelle.thy ===== *)
theory Spec2Isabelle
  imports Secrets Serving Server Canary Wire Host Streaming
begin

text \<open>
  Snowdeploy: a host daemon that turns an operator's click into a pull request on a configuration
  repository, waits for its checks, merges it, renders the merged manifest into a systemd unit,
  restarts and probes the service, writes a receipt, and rolls back when the probe fails; and a
  command line that starts and follows such runs. This is a shallow embedding of its Go code: one
  definition per operation, under the operation's own name where Isabelle allows it.

  \<^bold>\<open>The parts and how they interact.\<close> The command (\<open>cmd/snowdeploy\<close>) and the browser click through the HTTP
  API (\<open>internal/api\<close>), which authenticates, looks a service up in the mirror of the configuration
  repository and calls the engine (\<open>internal/deploy\<close>). A click reads the manifest, joins a live run or
  begins a journal row (\<open>internal/journal\<close>) and starts a run. The run syncs the mirror
  (\<open>internal/gitops\<close>), waits for the service's turn and the merge lock, proposes and merges through the
  forge client, and hands the merged manifest (\<open>internal/manifest\<close>) to the applier
  (\<open>internal/reconcile\<close>). Each state is journalled and published, to the metrics and to the streams the
  command follows. The registry watcher (\<open>internal/registry\<close>) and the revision cache
  (\<open>internal/revision\<close>) say what could be deployed and which commit it is. The daemon
  (\<open>cmd/snowdeployd\<close>) loads its configuration (\<open>internal/config\<close>), passes its gates, closes what a
  previous process left open, serves the API, the embedded app and the metrics, and stops on a signal.

  \<^bold>\<open>Theories.\<close>
  \<^item> \<open>Go_Prelude\<close>, \<open>Go_Path\<close>, \<open>Text_Io\<close>: what is used of Go's standard library. A string is a byte list;
    an error is its text with the chain \<open>errors.Is\<close> walks; a result is an error or a value;
    \<open>path.Clean\<close>, \<open>bufio.Scanner\<close> with its line limit, headers. \<open>Go_Url\<close>: percent escapes. \<open>Mux\<close>: the
    router of \<open>net/http\<close> for the patterns used. \<open>Json\<close>: the text of JSON values, without fractions, and
    its reading, with the proof that one undoes the other.
  \<^item> \<open>Manifest\<close> (\<open>manifest.go\<close>, \<open>validate.go\<close>): parsing, \<open>Validate\<close>, \<open>ValidateRendered\<close>. The lemmas say
    which host paths, images and unit texts pass, and which unsafe texts do.
  \<^item> \<open>Journal\<close> (\<open>journal.go\<close>): the table of deploys with its updates and queries under database faults;
    its invariant, the immutability of receipts (over the locale \<open>receipt_store\<close>) and a refinement to a
    map of receipts. \<open>Journal_Store\<close>: its opening and closing over an abstract driver.
  \<^item> \<open>Reconcile\<close> (\<open>render.go\<close>, \<open>apply.go\<close>, \<open>systemd.go\<close>, \<open>probe.go\<close>): the applier's order, the atomic
    installation of a unit over an abstract directory with crashes at any point, the probe. \<open>Host\<close>
    (\<open>systemd.go\<close>, parts of \<open>revision.go\<close> and \<open>manifest.go\<close>): what is made of the failures of commands and
    of the registry library.
  \<^item> \<open>Interaction\<close>, \<open>Engine\<close> (\<open>engine.go\<close>, \<open>states.go\<close>): a run as a program, that is a tree of calls with a
    continuation for every answer; one definition per method of the engine.
  \<^item> \<open>Monitors\<close>, \<open>Protocol\<close>, \<open>Outcomes\<close>, \<open>Locks\<close>, \<open>Secrets\<close>, \<open>Event_Stream\<close>: what every trace of a run
    satisfies. \<open>Protocol\<close> is the abstract specification, an automaton over observable calls, and
    \<open>run_keeps_protocol\<close> the refinement; \<open>Outcomes\<close> reads its consequences off; \<open>Locks\<close> is a second
    automaton; both go through the locale \<open>run_monitor\<close>. \<open>Event_Stream\<close> executes the engine once for any
    property of programs (locale \<open>run_predicate\<close>). \<open>Sample_Runs\<close> holds the environment of the examples.
  \<^item> \<open>Pool\<close> (\<open>Deploy\<close>, \<open>Rollback\<close>, \<open>Converge\<close>, \<open>start\<close>, the locks of \<open>engine.go\<close>): clicks and many runs as an
    interleaving step relation with reachability; exclusion, absence of deadlock, joining. \<open>Shutdown\<close>:
    an open row belongs to a run in flight, so \<open>Wait\<close> leaves none behind.
  \<^item> \<open>Repo\<close> (\<open>repo.go\<close>) and \<open>Forge\<close> (\<open>github.go\<close>): the mirror and its sync state, and the pull-request
    client over a record of API calls.
  \<^item> \<open>Access\<close> (\<open>auth.go\<close>, \<open>proxy.go\<close>), \<open>Api\<close> (\<open>api.go\<close>), \<open>Observability\<close> (\<open>metrics.go\<close>, \<open>sse.go\<close>): who a
    request is and what it may do, every handler over a record of what it depends on (the promises
    of the mirror are the locale \<open>config_view\<close>, interpreted on \<open>Repo\<close>), the counters, the broker and the
    frames of a stream. \<open>Streaming\<close>: one connection to the event stream, turn by turn, against that
    broker. \<open>Server\<close>: these as one object, and what a scrape of it reads.
  \<^item> \<open>Ui\<close> (\<open>ui.go\<close>, \<open>web/embed.go\<close>) and \<open>Routes\<close> (\<open>Handler\<close>, \<open>MetricsHandler\<close>): the embedded app behind \<open>net/http\<close>'s
    file server, the two listeners behind the router, and the command line against them, from its
    arguments to the engine's click.
  \<^item> \<open>Wire\<close>: the JSON of every answer and event by the field tags of both sides, with the round trips.
  \<^item> \<open>Watch\<close> (\<open>registry.go\<close>) and \<open>Provenance\<close> (\<open>revision.go\<close>): the last digest of each repository, and the
    cache of revisions with its detached fills.
  \<^item> \<open>Config_File\<close> (\<open>config.go\<close>) and \<open>Daemon\<close> (\<open>cmd/snowdeployd/main.go\<close>, \<open>Engine.Drift\<close>): the
    configuration as a checked type, the gates of a start, orphaned rows, the drift gauge. \<open>Serving\<close>
    (\<open>serve\<close>, \<open>listen\<close>, \<open>close\<close>, \<open>run\<close>): five goroutines, two servers with the requests they are answering,
    the signal and the drain, as a labelled step relation; what a stop returns, that it ends, and that
    a connected event stream makes it miss its deadline.
  \<^item> \<open>Canary\<close> (\<open>cmd/canary-unhealthy\<close>): the fixture, and the course of a run that deploys it.
  \<^item> \<open>Validate_Cmd\<close> (\<open>cmd/snowdeploy/validate.go\<close>, the operand of \<open>main.go\<close>) and \<open>Cli\<close> (\<open>client.go\<close>,
    \<open>main.go\<close>): the check in CI against the daemon's gate, requests, the followed stream, exit codes.

  \<^bold>\<open>State and effects.\<close> Sequential state is passed explicitly: an operation takes a world and returns
  its result with the next one. The engine's interleavings are steps of \<open>Pool\<close>, those of a stop steps of
  \<open>Serving\<close>. Integers that the
  program keeps in 64 bits are unbounded where it only counts or compares small values, and bounded by
  a hypothesis where a length or a decoder depends on them (the frame ids of \<open>Cli\<close>, the numbers of
  \<open>Wire\<close>); the canary's counter is a word of 64 bits.

  \<^bold>\<open>Termination and bounds.\<close> Only the JSON reader runs on fuel, one step more than its text has bytes,
  which is enough for every text the encoder writes (\<open>read_text\<close>), and the client follows at most ten
  redirects, as \<open>http.Client\<close> does. The engine's loops recurse on their attempts (three
  merges, the configured reverts); loops that wait take the list of the rounds or the number of ticks
  they see, so that a theorem on them holds for every number; a run's tree is finite, and every
  execution of it ends (\<open>one_receipt\<close>). Loops over text recurse on its length.

  \<^bold>\<open>Parameters.\<close> Code that is not in the repository is an argument: the YAML decoder, templates, URL
  parsing, SQLite (as faults and a record of operations), go-git, the GitHub and registry clients, podman
  and systemctl, SHA-256, the error group, the text of times, the network, the file system, the embedded
  tree and the clock. What is assumed of one is a named hypothesis of the theorem that needs it.

  \<^bold>\<open>Not modelled.\<close> The single-page app under \<open>web\<close>, which is Svelte and TypeScript; logging; the text of a
  scrape; content types, ranges and conditional requests of the file server; the pace of tickers; the
  text of usage messages and the alignment of tables. JSON numbers with a fraction or an exponent are
  none here, since no field on either side takes one. Panics and memory exhaustion are outside the
  model.
\<close>

end
